(* ===== verification/Prelude.thy ===== *)
theory Prelude
  imports Main "HOL-Library.AList" "HOL-Library.Word" "HOL-Library.Multiset"
begin

text \<open>
  Shared vocabulary of the development: the machine integers of the Rust sources, results
  (\<open>Result<T, E>\<close> as a sum), the \<open>HashMap\<close> model with its interface locale, and the generic
  list facts the components use.

  A \<open>HashMap<K, V>\<close> is the list of its entries in the order in which the table iterates
  over them; Rust leaves that order unspecified, so no property of the development depends on
  it: what is stated about listings is stated of their sets, multisets or counts, and
  \<open>hm_equiv\<close> (the same bindings, in any order) is the equality that matters. The operations
  are those of \<open>HashMap\<close>: \<open>hm_get\<close> (\<open>get\<close>), \<open>hm_insert\<close>, \<open>hm_remove\<close>, \<open>hm_modify\<close>
  (an update through \<open>get_mut\<close>), \<open>hm_values\<close> (\<open>values\<close>) and \<open>hm_contains\<close>
  (\<open>contains_key\<close>).
\<close>

named_theorems hm_simps \<open>lookups after updates of a hash map\<close>
named_theorems wf_intros \<open>well-formedness kept by the operations\<close>

section \<open>Machine integers and results\<close>

type_synonym u8 = "8 word"
type_synonym u16 = "16 word"
type_synonym u32 = "32 word"
type_synonym u64 = "64 word"

text \<open>A 32-bit float that is only stored and copied is its IEEE 754 bit pattern.\<close>

type_synonym f32 = "32 word"

lemma unat_bound: "unat w < 2 ^ LENGTH('a)" for w :: "'a::len word"
  by (rule unsigned_less)

text \<open>An instant (\<open>DateTime<Utc>\<close>) or a duration, in nanoseconds.\<close>

type_synonym timestamp = int

abbreviation Ok :: "'a \<Rightarrow> 'e + 'a" where
  "Ok \<equiv> Inr"

abbreviation Err :: "'e \<Rightarrow> 'e + 'a" where
  "Err \<equiv> Inl"

text \<open>The \<open>?\<close> operator: an error leaves the function, a value is bound.\<close>

definition try_then :: "'e + 'a \<Rightarrow> ('a \<Rightarrow> 'e + 'b) \<Rightarrow> 'e + 'b" where
  "try_then r f = (case r of Inl e \<Rightarrow> Inl e | Inr x \<Rightarrow> f x)"

lemma try_then_simps [simp]:
  "try_then (Inl e) f = Inl e"
  "try_then (Inr x) f = f x"
  by (simp_all add: try_then_def)

lemma try_then_Inr [simp]: "try_then r Inr = r"
  by (cases r) simp_all

lemma try_then_eq_Ok: "try_then r f = Inr y \<longleftrightarrow> (\<exists>x. r = Inr x \<and> f x = Inr y)"
  by (cases r) auto

lemma try_then_eq_Err: "try_then r f = Inl e \<longleftrightarrow> r = Inl e \<or> (\<exists>x. r = Inr x \<and> f x = Inl e)"
  by (cases r) auto

definition is_ok :: "'e + 'a \<Rightarrow> bool" where
  "is_ok r = (case r of Inl _ \<Rightarrow> False | Inr _ \<Rightarrow> True)"

lemma is_ok_simps [simp]:
  "\<not> is_ok (Inl e)"
  "is_ok (Inr x)"
  by (simp_all add: is_ok_def)

lemma is_ok_unit: "is_ok r \<longleftrightarrow> r = Inr ()" for r :: "'e + unit"
  by (cases r) auto

lemma is_ok_try_then: "is_ok (try_then r f) \<longleftrightarrow> (\<exists>x. r = Inr x \<and> is_ok (f x))"
  by (cases r) auto

text \<open>Effects: a fallible operation on a state returns its result and the new state, also when it
  fails. \<open>st_then\<close> is \<open>?\<close> for these, \<open>st_map_err\<close> is \<open>map_err\<close>.\<close>

definition st_then ::
  "('e + 'a) \<times> 's \<Rightarrow> ('a \<Rightarrow> 's \<Rightarrow> ('e + 'b) \<times> 's) \<Rightarrow> ('e + 'b) \<times> 's" where
  "st_then m f = (case m of (r, s) \<Rightarrow> (case r of Inl e \<Rightarrow> (Inl e, s) | Inr x \<Rightarrow> f x s))"

definition map_err :: "('e \<Rightarrow> 'f) \<Rightarrow> 'e + 'a \<Rightarrow> 'f + 'a" where
  "map_err g r = (case r of Inl e \<Rightarrow> Inl (g e) | Inr x \<Rightarrow> Inr x)"

definition st_map_err :: "('e \<Rightarrow> 'f) \<Rightarrow> ('e + 'a) \<times> 's \<Rightarrow> ('f + 'a) \<times> 's" where
  "st_map_err g m = (map_err g (fst m), snd m)"

lemma st_then_simps [simp]:
  "st_then (Inl e, s) f = (Inl e, s)"
  "st_then (Inr x, s) f = f x s"
  by (simp_all add: st_then_def)

lemma st_then_eq_Ok:
  "st_then m f = (Inr y, s') \<longleftrightarrow> (\<exists>x s. m = (Inr x, s) \<and> f x s = (Inr y, s'))"
  by (cases m; cases "fst m") auto

lemma st_then_eq_Err:
  "st_then m f = (Inl e, s') \<longleftrightarrow>
     m = (Inl e, s') \<or> (\<exists>x s. m = (Inr x, s) \<and> f x s = (Inl e, s'))"
  by (cases m; cases "fst m") auto

lemma map_err_simps [simp]:
  "map_err g (Inl e) = Inl (g e)"
  "map_err g (Inr x) = Inr x"
  by (simp_all add: map_err_def)

lemma map_err_eq_Ok [simp]: "map_err g r = Inr x \<longleftrightarrow> r = Inr x"
  by (cases r) simp_all

lemma map_err_eq_Err: "map_err g r = Inl e \<longleftrightarrow> (\<exists>d. r = Inl d \<and> e = g d)"
  by (cases r) auto

lemma st_map_err_pair [simp]: "st_map_err g (r, s) = (map_err g r, s)"
  by (simp add: st_map_err_def)

lemma st_map_err_eq_Ok [simp]: "st_map_err g m = (Inr x, s) \<longleftrightarrow> m = (Inr x, s)"
  by (cases m) simp

section \<open>Lists\<close>

lemma find_Some_in_set: "find P xs = Some x \<Longrightarrow> x \<in> set xs \<and> P x"
  by (auto simp: find_Some_iff)

lemma find_None_ball: "find P xs = None \<longleftrightarrow> (\<forall>x \<in> set xs. \<not> P x)"
  by (induction xs) auto

text \<open>With distinct keys, the first entry that has a key is the only one.\<close>

lemma find_key_unique:
  assumes "distinct (map f xs)" and "x \<in> set xs"
  shows "find (\<lambda>y. f y = f x) xs = Some x"
  using assms by (induction xs) force+

lemma length_filter_perm:
  assumes "mset xs = mset ys"
  shows "length (filter P xs) = length (filter P ys)"
  using assms by (metis mset_filter size_mset)

lemma length_filter_snd: "length (filter P (map snd xs)) = length (filter (\<lambda>(k, v). P v) xs)"
  by (induction xs) auto

lemma Bex_perm: "mset xs = mset ys \<Longrightarrow> (\<exists>x \<in> set xs. P x) \<longleftrightarrow> (\<exists>x \<in> set ys. P x)"
  by (metis set_mset_mset)

lemma distinct_snd_of_keyed:
  assumes "distinct (map fst m)" and "\<And>k v. (k, v) \<in> set m \<Longrightarrow> key v = k"
  shows "distinct (map key (map snd m))"
proof -
  have "map key (map snd m) = map fst m"
    using assms(2) by (auto intro!: map_cong)
  with assms(1) show ?thesis by metis
qed

section \<open>Hash maps\<close>

subsection \<open>The interface\<close>

text \<open>
  What a client of a \<open>HashMap\<close> may rely on: lookups after insertions and removals, and an
  iteration that meets each binding exactly once, in an order of which nothing is said.
\<close>

locale hash_map =
  fixes none :: "'m"
    and get :: "'m \<Rightarrow> 'k \<Rightarrow> 'v option"
    and put :: "'k \<Rightarrow> 'v \<Rightarrow> 'm \<Rightarrow> 'm"
    and del :: "'k \<Rightarrow> 'm \<Rightarrow> 'm"
    and items :: "'m \<Rightarrow> ('k \<times> 'v) list"
    and ok :: "'m \<Rightarrow> bool"
  assumes ok_none: "ok none"
    and ok_put: "ok m \<Longrightarrow> ok (put k v m)"
    and ok_del: "ok m \<Longrightarrow> ok (del k m)"
    and get_none: "get none k = None"
    and get_put: "get (put k v m) j = (if j = k then Some v else get m j)"
    and get_del: "get (del k m) j = (if j = k then None else get m j)"
    and items_get: "ok m \<Longrightarrow> (k, v) \<in> set (items m) \<longleftrightarrow> get m k = Some v"
    and items_distinct: "ok m \<Longrightarrow> distinct (map fst (items m))"
begin

definition keys_where :: "('v \<Rightarrow> bool) \<Rightarrow> 'm \<Rightarrow> 'k set" where
  "keys_where P m = {k. \<exists>v. get m k = Some v \<and> P v}"

lemma keys_where_items:
  assumes "ok m"
  shows "keys_where P m = fst ` set (filter (\<lambda>(k, v). P v) (items m))"
proof -
  have "keys_where P m = {k. \<exists>v. (k, v) \<in> set (items m) \<and> P v}"
    using items_get [OF assms] by (simp add: keys_where_def)
  then show ?thesis by force
qed

lemma finite_keys_where: "ok m \<Longrightarrow> finite (keys_where P m)"
  by (simp add: keys_where_items)

text \<open>Counting the values of a listing is counting keys, whatever the order.\<close>

lemma count_values:
  assumes "ok m"
  shows "length (filter P (map snd (items m))) = card (keys_where P m)"
proof -
  let ?es = "filter (\<lambda>(k, v). P v) (items m)"
  have "distinct (map fst ?es)"
    using items_distinct [OF assms] by (rule distinct_map_filter)
  then have "card (fst ` set ?es) = length ?es"
    using distinct_card by fastforce
  then show ?thesis by (simp only: keys_where_items [OF assms] length_filter_snd)
qed

lemma keys_where_put:
  "keys_where P (put k v m) = (if P v then insert k (keys_where P m) else keys_where P m - {k})"
  by (auto simp: keys_where_def get_put)

lemma keys_where_del: "keys_where P (del k m) = keys_where P m - {k}"
  by (auto simp: keys_where_def get_del)

lemma keys_where_mem: "k \<in> keys_where P m \<longleftrightarrow> (\<exists>v. get m k = Some v \<and> P v)"
  by (simp add: keys_where_def)

text \<open>How an insertion moves a count of values.\<close>

lemma count_values_put:
  assumes "ok m"
  shows "length (filter P (map snd (items (put k v m)))) =
    length (filter P (map snd (items m)))
      - (if k \<in> keys_where P m then 1 else 0) + (if P v then 1 else 0)"
proof -
  have fin: "finite (keys_where P m)" by (rule finite_keys_where [OF assms])
  then have "k \<in> keys_where P m \<Longrightarrow> card (keys_where P m) > 0"
    by (auto simp: card_gt_0_iff)
  then have "card (keys_where P (put k v m)) =
      card (keys_where P m) - (if k \<in> keys_where P m then 1 else 0) + (if P v then 1 else 0)"
    using fin by (auto simp: keys_where_put card_insert_if)
  then show ?thesis
    by (simp only: count_values [OF assms] count_values [OF ok_put [OF assms]])
qed

lemma count_values_put_le:
  assumes "ok m"
  shows "length (filter P (map snd (items (put k v m)))) \<le> Suc (length (filter P (map snd (items m))))"
  by (simp only: count_values_put [OF assms]) (simp add: le_SucI)

lemma count_values_del_le:
  assumes "ok m"
  shows "length (filter P (map snd (items (del k m)))) \<le> length (filter P (map snd (items m)))"
  by (simp only: count_values [OF assms] count_values [OF ok_del [OF assms]] keys_where_del)
    (simp add: card_Diff1_le)

lemma values_get: "ok m \<Longrightarrow> v \<in> set (map snd (items m)) \<longleftrightarrow> (\<exists>k. get m k = Some v)"
  by (force simp flip: items_get)

text \<open>Two maps with the same bindings list the same entries, up to order.\<close>

lemma same_get_same_items:
  assumes "ok m" "ok m'" and "\<And>k. get m k = get m' k"
  shows "mset (items m) = mset (items m')"
proof -
  have "set (items m) = set (items m')"
  proof (rule set_eqI)
    fix e
    show "e \<in> set (items m) \<longleftrightarrow> e \<in> set (items m')"
      using items_get [OF assms(1)] items_get [OF assms(2)] assms(3) by (cases e) simp
  qed
  moreover have "distinct (items m)" "distinct (items m')"
    using assms(1,2) items_distinct distinct_map by blast+
  ultimately show ?thesis by (simp add: set_eq_iff_mset_eq_distinct)
qed

end

subsection \<open>The model of \<open>std::collections::HashMap\<close>\<close>

type_synonym ('k, 'v) hmap = "('k \<times> 'v) list"

definition hm_get :: "('k, 'v) hmap \<Rightarrow> 'k \<Rightarrow> 'v option" where
  "hm_get m k = map_of m k"

definition hm_insert :: "'k \<Rightarrow> 'v \<Rightarrow> ('k, 'v) hmap \<Rightarrow> ('k, 'v) hmap" where
  "hm_insert k v m = AList.update k v m"

definition hm_remove :: "'k \<Rightarrow> ('k, 'v) hmap \<Rightarrow> ('k, 'v) hmap" where
  "hm_remove k m = AList.delete k m"

definition hm_modify :: "'k \<Rightarrow> ('v \<Rightarrow> 'v) \<Rightarrow> ('k, 'v) hmap \<Rightarrow> ('k, 'v) hmap" where
  "hm_modify k f m = (case hm_get m k of None \<Rightarrow> m | Some v \<Rightarrow> hm_insert k (f v) m)"

definition hm_values :: "('k, 'v) hmap \<Rightarrow> 'v list" where
  "hm_values m = map snd m"

definition hm_contains :: "('k, 'v) hmap \<Rightarrow> 'k \<Rightarrow> bool" where
  "hm_contains m k = (hm_get m k \<noteq> None)"

definition hm_ok :: "('k, 'v) hmap \<Rightarrow> bool" where
  "hm_ok m = distinct (map fst m)"

definition hm_equiv :: "('k, 'v) hmap \<Rightarrow> ('k, 'v) hmap \<Rightarrow> bool" where
  "hm_equiv m m' \<longleftrightarrow> map_of m = map_of m'"

interpretation hm: hash_map "[]" hm_get hm_insert hm_remove "\<lambda>m. m" hm_ok
proof unfold_locales
  fix m :: "('a, 'b) hmap" and k j v
  show "hm_ok m \<Longrightarrow> hm_ok (hm_insert k v m)"
    by (simp add: hm_ok_def hm_insert_def distinct_update)
  show "hm_ok m \<Longrightarrow> hm_ok (hm_remove k m)"
    by (simp add: hm_ok_def hm_remove_def distinct_delete)
  show "hm_get (hm_insert k v m) j = (if j = k then Some v else hm_get m j)"
    by (simp add: hm_get_def hm_insert_def update_conv')
  show "hm_get (hm_remove k m) j = (if j = k then None else hm_get m j)"
    by (simp add: hm_get_def hm_remove_def delete_conv')
  show "hm_ok m \<Longrightarrow> (k, v) \<in> set m \<longleftrightarrow> hm_get m k = Some v"
    by (simp add: hm_ok_def hm_get_def)
qed (simp_all add: hm_ok_def hm_get_def)

lemmas hm_get_simps [simp, hm_simps] = hm.get_none hm.get_put hm.get_del

lemma hm_get_modify [simp, hm_simps]:
  "hm_get (hm_modify k f m) j = (if j = k then map_option f (hm_get m j) else hm_get m j)"
  by (simp add: hm_modify_def split: option.split)

lemma hm_ok_modify: "hm_ok m \<Longrightarrow> hm_ok (hm_modify k f m)"
  by (simp add: hm_modify_def hm.ok_put split: option.split)

lemmas hm_ok_intros [simp, wf_intros] = hm.ok_none hm.ok_put hm.ok_del hm_ok_modify

lemma hm_values_get: "hm_ok m \<Longrightarrow> v \<in> set (hm_values m) \<longleftrightarrow> (\<exists>k. hm_get m k = Some v)"
  unfolding hm_values_def by (rule hm.values_get)

lemma hm_contains_iff [simp]: "hm_contains m k \<longleftrightarrow> (\<exists>v. hm_get m k = Some v)"
  by (simp add: hm_contains_def)

lemma hm_equiv_get: "hm_equiv m m' \<longleftrightarrow> (\<forall>k. hm_get m k = hm_get m' k)"
  by (simp add: hm_equiv_def hm_get_def fun_eq_iff)

lemma hm_equiv_refl [simp]: "hm_equiv m m"
  by (simp add: hm_equiv_def)

lemma hm_equiv_mset:
  assumes "hm_ok m" "hm_ok m'" "hm_equiv m m'"
  shows "mset (hm_values m) = mset (hm_values m')"
proof -
  from assms have "mset m = mset m'"
    by (intro hm.same_get_same_items) (simp_all add: hm_equiv_get)
  then show ?thesis by (simp add: hm_values_def)
qed

lemma hm_equiv_insert: "hm_equiv m m' \<Longrightarrow> hm_equiv (hm_insert k v m) (hm_insert k v m')"
  by (simp add: hm_equiv_get)

lemma hm_equiv_remove: "hm_equiv m m' \<Longrightarrow> hm_equiv (hm_remove k m) (hm_remove k m')"
  by (simp add: hm_equiv_get)

lemma hm_equiv_modify: "hm_equiv m m' \<Longrightarrow> hm_equiv (hm_modify k f m) (hm_modify k f m')"
  by (simp add: hm_equiv_get)

lemmas hm_equiv_intros = hm_equiv_insert hm_equiv_remove hm_equiv_modify

subsection \<open>Maps keyed by a field of their values\<close>

text \<open>
  Most maps of the program store a value under its own identifier. \<open>keyed key m\<close>: the keys are
  distinct and each is the \<open>key\<close> field of the value stored under it.
\<close>

definition keyed :: "('v \<Rightarrow> 'k) \<Rightarrow> ('k, 'v) hmap \<Rightarrow> bool" where
  "keyed key m \<longleftrightarrow> hm_ok m \<and> (\<forall>(k, v) \<in> set m. key v = k)"

lemma keyed_get: "keyed key m \<longleftrightarrow> hm_ok m \<and> (\<forall>k v. hm_get m k = Some v \<longrightarrow> key v = k)"
  using hm.items_get [of m] by (fastforce simp: keyed_def)

lemma keyed_hm_ok [simp]: "keyed key m \<Longrightarrow> hm_ok m"
  by (simp add: keyed_def)

lemma keyed_key: "keyed key m \<Longrightarrow> hm_get m k = Some v \<Longrightarrow> key v = k"
  by (simp add: keyed_get)

lemma keyed_empty [simp, wf_intros]: "keyed key []"
  by (simp add: keyed_get)

lemma keyed_insert [wf_intros]: "keyed key m \<Longrightarrow> key v = k \<Longrightarrow> keyed key (hm_insert k v m)"
  by (simp add: keyed_get)

lemma keyed_remove [wf_intros]: "keyed key m \<Longrightarrow> keyed key (hm_remove k m)"
  by (simp add: keyed_get)

lemma keyed_modify [wf_intros]:
  "keyed key m \<Longrightarrow> (\<And>v. key (f v) = key v) \<Longrightarrow> keyed key (hm_modify k f m)"
  by (auto simp: keyed_get)

lemma keyed_values_distinct: "keyed key m \<Longrightarrow> distinct (map key (hm_values m))"
  unfolding hm_values_def
  by (rule distinct_snd_of_keyed) (auto simp: keyed_def hm_ok_def)

lemma keyed_values_mem:
  assumes "keyed key m"
  shows "v \<in> set (hm_values m) \<longleftrightarrow> hm_get m (key v) = Some v"
  using assms keyed_key [OF assms] by (auto simp: hm_values_get)

text \<open>Searching the listing of a keyed map for an identifier is looking it up.\<close>

lemma keyed_find:
  assumes "keyed key m"
  shows "find (\<lambda>v. key v = k) (hm_values m) = hm_get m k"
proof (cases "hm_get m k")
  case None
  then have "\<forall>v \<in> set (hm_values m). key v \<noteq> k"
    using keyed_values_mem [OF assms] by auto
  then have "find (\<lambda>v. key v = k) (hm_values m) = None"
    by (simp only: find_None_ball)
  with None show ?thesis by simp
next
  case (Some v)
  then have k: "key v = k" by (rule keyed_key [OF assms])
  with Some have "v \<in> set (hm_values m)" by (simp only: keyed_values_mem [OF assms])
  then have "find (\<lambda>w. key w = key v) (hm_values m) = Some v"
    by (rule find_key_unique [OF keyed_values_distinct [OF assms]])
  with Some show ?thesis by (simp only: k)
qed

lemma keyed_bex_id:
  assumes "keyed key m"
  shows "(\<exists>v \<in> set (hm_values m). key v = k) \<longleftrightarrow> (\<exists>v. hm_get m k = Some v)"
proof -
  have "(\<exists>v \<in> set (hm_values m). key v = k) \<longleftrightarrow> find (\<lambda>v. key v = k) (hm_values m) \<noteq> None"
    by (simp only: find_None_ball) blast
  then show ?thesis by (simp add: keyed_find [OF assms])
qed

end
