(* ===== verification/RustStd.thy ===== *)
theory RustStd
  imports Prelude
begin

text \<open>
  The parts of the Rust standard library the program computes with, written out: prefix tests on
  strings, decimal printing and parsing of unsigned integers (\<open>to_string\<close>, \<open>FromStr\<close> of
  \<open>u64\<close>), the big- and little-endian byte images of a \<open>u64\<close>, and the byte-wise order in which
  an ordered byte-keyed store sorts its keys. A Rust string is the list of its UTF-8 bytes.
\<close>

section \<open>Strings\<close>

definition starts_with :: "string \<Rightarrow> string \<Rightarrow> bool" where
  "starts_with s p \<longleftrightarrow> take (length p) s = p"

lemma starts_with_append: "starts_with s p \<longleftrightarrow> (\<exists>t. s = p @ t)"
  by (metis append_eq_conv_conj append_take_drop_id starts_with_def)

lemma starts_with_Nil [simp]: "starts_with s []"
  by (simp add: starts_with_def)

lemma starts_with_extend: "starts_with s p \<Longrightarrow> starts_with (s @ t) p"
  by (auto simp: starts_with_append)

text \<open>
  \<open>trim\<close> removes Unicode white space at both ends. These are the UTF-8 images of the code points
  with the White\_Space property.
\<close>

definition ws_ascii :: "string list" where
  "ws_ascii = map (\<lambda>n. [char_of (n :: nat)]) [9, 10, 11, 12, 13, 32]"

definition ws_encodings :: "string list" where
  "ws_encodings = ws_ascii @ map (map char_of)
     ([[0xC2, 0x85], [0xC2, 0xA0], [0xE1, 0x9A, 0x80]]
      @ map (\<lambda>n. [0xE2, 0x80, 0x80 + n]) [0..<11]
      @ [[0xE2, 0x80, 0xA8], [0xE2, 0x80, 0xA9], [0xE2, 0x80, 0xAF], [0xE2, 0x81, 0x9F],
         [0xE3, 0x80, 0x80 :: nat]])"

text \<open>Strips sequences of \<open>ws\<close> (none empty) from the front as long as one matches.\<close>

function strip_front :: "string list \<Rightarrow> string \<Rightarrow> string" where
  "strip_front ws s =
     (case find (\<lambda>w. w \<noteq> [] \<and> starts_with s w) ws of
        None \<Rightarrow> s | Some w \<Rightarrow> strip_front ws (drop (length w) s))"
  by pat_completeness auto
termination
proof (relation "measure (\<lambda>(ws, s). length s)")
  fix ws s w
  assume "find (\<lambda>w. w \<noteq> [] \<and> starts_with s w) ws = Some w"
  then have "w \<noteq> []" "starts_with s w" by (auto dest: find_Some_in_set)
  then show "((ws, drop (length w) s), (ws, s)) \<in> measure (\<lambda>(ws, s). length s)"
    by (cases s) (auto simp: starts_with_append)
qed simp

declare strip_front.simps [simp del]

definition trim :: "string \<Rightarrow> string" where
  "trim s = rev (strip_front (map rev ws_encodings) (rev (strip_front ws_encodings s)))"

lemma strip_front_None:
  "find (\<lambda>w. w \<noteq> [] \<and> starts_with s w) ws = None \<Longrightarrow> strip_front ws s = s"
  by (simp add: strip_front.simps [of ws s])

text \<open>\<open>lines()\<close>: split at line feeds, a carriage return before one is dropped.\<close>

definition strip_cr :: "string \<Rightarrow> string" where
  "strip_cr l = (if l \<noteq> [] \<and> last l = CHR 0x0D then butlast l else l)"

fun lines_from :: "string \<Rightarrow> string \<Rightarrow> string list" where
  "lines_from cur [] = (if cur = [] then [] else [cur])"
| "lines_from cur (c # cs) =
     (if c = CHR 0x0A then strip_cr cur # lines_from [] cs else lines_from (cur @ [c]) cs)"

definition lines :: "string \<Rightarrow> string list" where
  "lines s = lines_from [] s"

definition join_lines :: "string list \<Rightarrow> string" where
  "join_lines ls = concat (case ls of [] \<Rightarrow> [] | l # ls' \<Rightarrow> l # map (\<lambda>x. CHR 0x0A # x) ls')"

text \<open>\<open>Path::join\<close> with a relative second part.\<close>

definition path_join :: "string \<Rightarrow> string \<Rightarrow> string" where
  "path_join base p = (if base = [] \<or> last base = CHR ''/'' then base @ p else base @ ''/'' @ p)"

section \<open>Decimal numbers\<close>

definition digit_char :: "nat \<Rightarrow> char" where
  "digit_char d = char_of (48 + d)"

definition digit_val :: "char \<Rightarrow> nat option" where
  "digit_val c = (let n = of_char c in if 48 \<le> n \<and> n \<le> (57 :: nat) then Some (n - 48) else None)"

fun show_nat :: "nat \<Rightarrow> string" where
  "show_nat n = (if n < 10 then [digit_char n] else show_nat (n div 10) @ [digit_char (n mod 10)])"

declare show_nat.simps [simp del]

definition u64_to_string :: "u64 \<Rightarrow> string" where
  "u64_to_string w = show_nat (unat w)"

datatype IntErrorKind = EmptyNumber | InvalidDigit | PosOverflow

fun parse_digits :: "nat \<Rightarrow> string \<Rightarrow> IntErrorKind + nat" where
  "parse_digits acc [] = Ok acc"
| "parse_digits acc (c # cs) =
     (case digit_val c of
        None \<Rightarrow> Err InvalidDigit
      | Some d \<Rightarrow>
          (if acc * 10 + d < 2 ^ 64 then parse_digits (acc * 10 + d) cs else Err PosOverflow))"

definition parse_u64 :: "string \<Rightarrow> IntErrorKind + u64" where
  "parse_u64 s =
     (case s of
        [] \<Rightarrow> Err EmptyNumber
      | c # cs \<Rightarrow>
          (if (c = CHR ''+'' \<or> c = CHR ''-'') \<and> cs = [] then Err InvalidDigit
           else try_then (parse_digits 0 (if c = CHR ''+'' then cs else s)) (\<lambda>n. Ok (word_of_nat n))))"

lemma digit_val_char [simp]: "d < 10 \<Longrightarrow> digit_val (digit_char d) = Some d"
  by (simp add: digit_val_def digit_char_def Let_def)

lemma digit_val_sign [simp]: "digit_val (CHR ''+'') = None" "digit_val (CHR ''-'') = None"
  by (simp_all add: digit_val_def)

lemma digit_char_not_sign: "d < 10 \<Longrightarrow> digit_char d \<noteq> CHR ''+'' \<and> digit_char d \<noteq> CHR ''-''"
  by (metis digit_val_char digit_val_sign option.distinct(1))

lemma show_nat_nonempty [simp]: "show_nat n \<noteq> []"
  by (subst show_nat.simps) simp

lemma show_nat_digits: "c \<in> set (show_nat n) \<Longrightarrow> \<exists>d < 10. c = digit_char d"
proof (induction n rule: show_nat.induct)
  case (1 n)
  have "n < 10 \<or> n mod 10 < 10" by simp
  with "1" show ?case
    by (cases "n < 10") (force simp: show_nat.simps [of n])+
qed

lemma parse_digits_append:
  "parse_digits acc (xs @ ys) = try_then (parse_digits acc xs) (\<lambda>a. parse_digits a ys)"
  by (induction acc xs rule: parse_digits.induct) (auto split: option.split)

lemma parse_digits_show: "n < 2 ^ 64 \<Longrightarrow> parse_digits 0 (show_nat n) = Ok n"
proof (induction n rule: show_nat.induct)
  case (1 n)
  show ?case
  proof (cases "n < 10")
    case True
    then show ?thesis by (simp add: show_nat.simps [of n])
  next
    case False
    with "1" have "parse_digits 0 (show_nat (n div 10)) = Ok (n div 10)" by simp
    with False "1.prems" show ?thesis
      by (simp add: show_nat.simps [of n] parse_digits_append div_mult_mod_eq)
  qed
qed

text \<open>Printing an identifier and parsing it back gives the identifier.\<close>

lemma parse_show_u64: "parse_u64 (u64_to_string w) = Ok w"
proof -
  obtain c cs where s: "show_nat (unat w) = c # cs"
    by (cases "show_nat (unat w)") simp_all
  then obtain d where "d < 10" "c = digit_char d" using show_nat_digits [of c "unat w"] by auto
  then have c: "c \<noteq> CHR ''+''" "c \<noteq> CHR ''-''" using digit_char_not_sign [of d] by simp_all
  have "unat w < 2 ^ 64" using unat_bound [of w] by simp
  from parse_digits_show [OF this] c s show ?thesis
    by (simp add: parse_u64_def u64_to_string_def)
qed

lemma u64_to_string_inject [simp]: "u64_to_string v = u64_to_string w \<longleftrightarrow> v = w"
  by (metis parse_show_u64 sum.inject(2))

lemma parse_digits_first_bad:
  "digit_val c = None \<Longrightarrow> parse_digits acc (c # cs) = Err InvalidDigit"
  by simp

lemma parse_u64_first_bad:
  "digit_val c = None \<Longrightarrow> c \<noteq> CHR ''+'' \<Longrightarrow> parse_u64 (c # cs) = Err InvalidDigit"
  by (simp add: parse_u64_def)

section \<open>Byte images of strings and of 64-bit integers\<close>

text \<open>\<open>as_bytes\<close>: a string is the list of its bytes already, one character each.\<close>

definition as_bytes :: "string \<Rightarrow> u8 list" where
  "as_bytes s = map (\<lambda>c. of_nat (of_char c)) s"

lemma byte_of_char_inject: "of_nat (of_char c) = (of_nat (of_char d) :: u8) \<longleftrightarrow> c = d"
proof
  assume "of_nat (of_char c) = (of_nat (of_char d) :: u8)"
  then have "of_char c mod 256 = (of_char d mod 256 :: nat)"
    by (simp add: word_of_nat_eq_iff take_bit_eq_mod)
  then show "c = d" by simp
qed simp

lemma as_bytes_inject [simp]: "as_bytes s = as_bytes t \<longleftrightarrow> s = t"
  unfolding as_bytes_def by (rule inj_map_eq_map) (auto intro!: injI simp: byte_of_char_inject)

lemma length_as_bytes [simp]: "length (as_bytes s) = length s"
  by (simp add: as_bytes_def)

definition to_be_bytes :: "u64 \<Rightarrow> u8 list" where
  "to_be_bytes w = map (\<lambda>i. ucast (drop_bit (8 * (7 - i)) w)) [0..<8]"

fun be_val :: "u8 list \<Rightarrow> nat" where
  "be_val [] = 0"
| "be_val (b # bs) = unat b * 256 ^ length bs + be_val bs"

fun le_val :: "u8 list \<Rightarrow> nat" where
  "le_val [] = 0"
| "le_val (b # bs) = unat b + 256 * le_val bs"

definition from_be_bytes :: "u8 list \<Rightarrow> u64" where
  "from_be_bytes bs = word_of_nat (be_val bs)"

definition from_le_bytes :: "u8 list \<Rightarrow> u64" where
  "from_le_bytes bs = word_of_nat (le_val bs)"

text \<open>The order of a byte-keyed ordered store: lexicographic on the bytes.\<close>

fun lex_less :: "u8 list \<Rightarrow> u8 list \<Rightarrow> bool" where
  "lex_less _ [] = False"
| "lex_less [] (_ # _) = True"
| "lex_less (x # xs) (y # ys) = (x < y \<or> x = y \<and> lex_less xs ys)"

lemma length_to_be_bytes [simp]: "length (to_be_bytes w) = 8"
  by (simp add: to_be_bytes_def)

lemma be_val_bound: "be_val bs < 256 ^ length bs"
proof (induction bs)
  case Nil
  show ?case by simp
next
  case (Cons b bs)
  have "unat b \<le> 255" using unat_bound [of b] by simp
  then have "unat b * 256 ^ length bs \<le> 255 * 256 ^ length bs" by (rule mult_le_mono1)
  with Cons show ?case by (simp only: be_val.simps list.size power_Suc add_0_right add_Suc_right)
qed

lemma be_val_less_Cons:
  assumes "length xs = length ys"
  shows "be_val (x # xs) < be_val (y # ys) \<longleftrightarrow> x < y \<or> x = y \<and> be_val xs < be_val ys"
proof -
  let ?B = "256 ^ length ys :: nat"
  have bounds: "be_val xs < ?B" "be_val ys < ?B"
    using be_val_bound [of xs] be_val_bound [of ys] assms by auto
  consider "unat x < unat y" | "unat x = unat y" | "unat y < unat x" by linarith
  then show ?thesis
  proof cases
    case 1
    then have "Suc (unat x) * ?B \<le> unat y * ?B" by (intro mult_le_mono1) simp
    with bounds have "be_val (x # xs) < be_val (y # ys)" by (simp add: assms)
    with 1 show ?thesis by (simp add: word_less_nat_alt)
  next
    case 2
    then have "x = y" by (simp add: word_unat_eq_iff)
    then show ?thesis by (simp add: assms)
  next
    case 3
    then have "Suc (unat y) * ?B \<le> unat x * ?B" by (intro mult_le_mono1) simp
    with bounds have "\<not> be_val (x # xs) < be_val (y # ys)" by (simp add: assms)
    with 3 show ?thesis by (auto simp: word_less_nat_alt)
  qed
qed

lemma lex_less_be_val: "length xs = length ys \<Longrightarrow> lex_less xs ys \<longleftrightarrow> be_val xs < be_val ys"
proof (induction xs ys rule: lex_less.induct)
  case (3 x xs y ys)
  then show ?case using be_val_less_Cons [of xs ys x y] by (simp del: be_val.simps)
qed simp_all

lemma byte_of_u64: "unat (ucast (drop_bit n (w :: u64)) :: u8) = unat w div 2 ^ n mod 256"
proof -
  have "unat w < 2 ^ 64" using unat_bound [of w] by simp
  then show ?thesis
    unfolding unsigned_ucast_eq unsigned_drop_bit_eq by (simp add: take_bit_eq_mod drop_bit_eq_div)
qed

fun be_digits :: "nat \<Rightarrow> nat \<Rightarrow> nat list" where
  "be_digits 0 n = []"
| "be_digits (Suc k) n = be_digits k (n div 256) @ [n mod 256]"

lemma be_val_append: "be_val (xs @ ys) = be_val xs * 256 ^ length ys + be_val ys"
  by (induction xs) (simp_all add: algebra_simps power_add)

lemma be_val_digits:
  "map unat bs = be_digits k n \<Longrightarrow> be_val bs = n mod 256 ^ k"
proof (induction k arbitrary: bs n)
  case 0
  then show ?case by simp
next
  case (Suc k)
  then obtain cs c where bs: "bs = cs @ [c]" "map unat cs = be_digits k (n div 256)" "unat c = n mod 256"
    by (cases bs rule: rev_cases) auto
  have "be_val bs = (n div 256 mod 256 ^ k) * 256 + n mod 256"
    using Suc.IH [OF bs(2)] bs by (simp add: be_val_append)
  also have "\<dots> = n mod (256 * 256 ^ k)" by (simp add: mod_mult2_eq)
  finally show ?case by simp
qed

lemma be_digits_numeral [simp]:
  "be_digits (numeral k) n = be_digits (pred_numeral k) (n div 256) @ [n mod 256]"
  by (subst numeral_eq_Suc) (rule be_digits.simps(2))

lemma to_be_bytes_digits: "map unat (to_be_bytes w) = be_digits 8 (unat w)"
  by (simp add: to_be_bytes_def byte_of_u64 upt_rec flip: div_mult2_eq)
    (simp add: byte_of_u64 [of 0 w, simplified])

lemma be_val_to_be_bytes [simp]: "be_val (to_be_bytes w) = unat w"
proof -
  have "unat w < 256 ^ 8" using unat_bound [of w] by simp
  then show ?thesis using be_val_digits [OF to_be_bytes_digits [of w]] by simp
qed

lemma from_to_be_bytes [simp]: "from_be_bytes (to_be_bytes w) = w"
  by (simp add: from_be_bytes_def)

lemma to_be_bytes_inject [simp]: "to_be_bytes v = to_be_bytes w \<longleftrightarrow> v = w"
  by (metis from_to_be_bytes)

lemma to_be_bytes_order: "lex_less (to_be_bytes v) (to_be_bytes w) \<longleftrightarrow> v < w"
  by (simp add: lex_less_be_val word_less_nat_alt)

lemma le_val_bound: "le_val bs < 256 ^ length bs"
proof (induction bs)
  case (Cons b bs)
  have "unat b \<le> 255" using unat_bound [of b] by simp
  with Cons show ?case by simp
qed simp

lemma base_256_inject:
  "a < 256 \<Longrightarrow> c < 256 \<Longrightarrow> a + 256 * b = c + 256 * d \<longleftrightarrow> a = c \<and> b = d" for a b c d :: nat
proof
  assume *: "a < 256" "c < 256" "a + 256 * b = c + 256 * d"
  then have "(a + 256 * b) mod 256 = (c + 256 * d) mod 256" by (simp only:)
  with *(1,2) have "a = c" by simp
  with *(3) show "a = c \<and> b = d" by simp
qed simp

lemma le_val_inject: "length xs = length ys \<Longrightarrow> le_val xs = le_val ys \<longleftrightarrow> xs = ys"
proof (induction xs ys rule: list_induct2)
  case (Cons x xs y ys)
  have "unat x < 256" "unat y < 256" using unat_bound [of x] unat_bound [of y] by simp_all
  then have "unat x + 256 * le_val xs = unat y + 256 * le_val ys \<longleftrightarrow> unat x = unat y \<and> le_val xs = le_val ys"
    by (rule base_256_inject)
  with Cons show ?case by (simp add: word_unat_eq_iff)
qed simp

lemma from_le_bytes_inject:
  assumes "length xs = 8" "length ys = 8"
  shows "from_le_bytes xs = from_le_bytes ys \<longleftrightarrow> xs = ys"
proof -
  have "le_val xs < 2 ^ 64" "le_val ys < 2 ^ 64"
    using le_val_bound [of xs] le_val_bound [of ys] assms by simp_all
  then have "from_le_bytes xs = from_le_bytes ys \<longleftrightarrow> le_val xs = le_val ys"
    by (simp add: from_le_bytes_def word_unat_eq_iff unat_of_nat take_bit_nat_eq_self)
  with assms show ?thesis by (simp add: le_val_inject)
qed

end
