(* ===== verification/HiveTypes.thy ===== *)
theory HiveTypes
  imports RustStd
begin

text \<open>
  The data model of \<open>src/types.rs\<close>: nodes, attachments, tasks, goals, the cluster view, the
  actions the brain may propose and the commands of the replicated log. Structs are records
  (fields carry a prefix for the struct), enums are datatypes with the source's constructors.
  The type variable \<open>'j\<close> stands for \<open>serde_json::Value\<close>, which the types only carry.
\<close>

type_synonym NodeId = string
type_synonym TaskId = string
type_synonym AttachmentId = string
type_synonym GoalId = string

record NodeIdentity =
  ni_node_id :: NodeId
  ni_public_key :: "u8 list"
  ni_hostname :: string
  ni_enrolled_at :: timestamp

datatype NodeHealth = Healthy | Degraded string | Unreachable | Unknown

record NodeStatus =
  ns_node_id :: NodeId
  ns_hostname :: string
  ns_tags :: "string list"
  ns_health :: NodeHealth
  ns_last_heartbeat :: timestamp
  ns_cpu_usage :: f32
  ns_memory_usage :: f32
  ns_disk_usage :: f32

datatype 'j AttachmentKind =
    Directory string
  | File string
  | DockerContainer string
  | Service string "string option"
  | Webhook string
  | CustomAttachment string 'j

record 'j Attachment =
  at_id :: AttachmentId
  at_node_id :: NodeId
  at_kind :: "'j AttachmentKind"
  at_capabilities :: "string list"
  at_metadata :: "(string, string) hmap"
  at_created_at :: timestamp

datatype TaskStatus = Pending | Scheduled | Running | Completed | Failed string | Cancelled

datatype 'j TaskPayload =
    Echo string
  | SyncDirectory string string
  | RunCommand string "string list"
  | CheckService string
  | RestartService string
  | DockerRun string "string list"
  | CustomTask string 'j

record 'j Task =
  tk_id :: TaskId
  tk_target_node :: NodeId
  tk_payload :: "'j TaskPayload"
  tk_status :: TaskStatus
  tk_priority :: u8
  tk_created_at :: timestamp
  tk_updated_at :: timestamp
  tk_result :: "'j option"

record Goal =
  gl_id :: GoalId
  gl_description :: string
  gl_constraints :: "string list"
  gl_priority :: u8
  gl_active :: bool
  gl_created_at :: timestamp

record 'j ClusterView =
  cv_nodes :: "NodeStatus list"
  cv_tasks :: "'j Task list"
  cv_attachments :: "'j Attachment list"
  cv_goals :: "Goal list"
  cv_leader_id :: "NodeId option"
  cv_term :: u64

section \<open>Queries of the cluster view\<close>

definition cluster_view_new :: "'j ClusterView" where
  "cluster_view_new =
     \<lparr>cv_nodes = [], cv_tasks = [], cv_attachments = [], cv_goals = [],
      cv_leader_id = None, cv_term = 0\<rparr>"

definition node_by_id :: "'j ClusterView \<Rightarrow> string \<Rightarrow> NodeStatus option" where
  "node_by_id view i = find (\<lambda>n. ns_node_id n = i) (cv_nodes view)"

definition healthy_nodes :: "'j ClusterView \<Rightarrow> NodeStatus list" where
  "healthy_nodes view = filter (\<lambda>n. ns_health n = Healthy) (cv_nodes view)"

definition nodes_with_tag :: "'j ClusterView \<Rightarrow> string \<Rightarrow> NodeStatus list" where
  "nodes_with_tag view tag = filter (\<lambda>n. list_ex (\<lambda>t. t = tag) (ns_tags n)) (cv_nodes view)"

definition pending_tasks :: "'j ClusterView \<Rightarrow> 'j Task list" where
  "pending_tasks view = filter (\<lambda>t. tk_status t = Pending) (cv_tasks view)"

definition tasks_for_node :: "'j ClusterView \<Rightarrow> string \<Rightarrow> 'j Task list" where
  "tasks_for_node view i = filter (\<lambda>t. tk_target_node t = i) (cv_tasks view)"

section \<open>Actions and commands\<close>

datatype 'j BrainAction =
    ScheduleTask "'j TaskPayload" NodeId u8
  | RebalanceTask TaskId NodeId
  | CancelTask TaskId
  | UpdateGoalProgress GoalId u8 "string option"
  | CreateAttachment NodeId "'j AttachmentKind" "string list"
  | RemoveAttachment AttachmentId
  | MarkNodeDegraded NodeId string
  | RequestHumanApproval string string
  | NoOp string

record NodeMetrics =
  nm_cpu_usage :: f32
  nm_memory_usage :: f32
  nm_disk_usage :: f32

text \<open>\<open>NodeMetrics::default()\<close>: every field is \<open>0.0\<close>, whose bit pattern is 0.\<close>

definition node_metrics_default :: NodeMetrics where
  "node_metrics_default = \<lparr>nm_cpu_usage = 0, nm_memory_usage = 0, nm_disk_usage = 0\<rparr>"

datatype 'j ClusterCommand =
    RegisterNode NodeStatus
  | UpdateNodeHealth NodeId NodeHealth NodeMetrics
  | RemoveNode NodeId
  | PutTask "'j Task"
  | UpdateTaskStatus TaskId TaskStatus "'j option"
  | PutAttachment "'j Attachment"
  | RemoveAttachmentCmd AttachmentId
  | PutGoal Goal
  | RemoveGoal GoalId

record EnrollmentToken =
  et_token :: string
  et_cluster_id :: string
  et_expires_at :: timestamp
  et_allowed_tags :: "string list"

record PeerInfo =
  pi_node_id :: NodeId
  pi_addr :: string
  pi_is_voter :: bool

text \<open>The answer to an enrolment as the shared types have it; \<open>Enrollment\<close> uses its own.\<close>

record WireEnrollmentResponse =
  we_node_id :: NodeId
  we_cluster_id :: string
  we_peers :: "PeerInfo list"
  we_certificate :: "u8 list"

lemma node_by_id_None: "node_by_id view i = None \<longleftrightarrow> i \<notin> ns_node_id ` set (cv_nodes view)"
  by (auto simp: node_by_id_def find_None_iff)

lemma node_by_id_Some: "node_by_id view i = Some n \<Longrightarrow> n \<in> set (cv_nodes view) \<and> ns_node_id n = i"
  unfolding node_by_id_def by (drule find_Some_in_set) simp

end
