(* ===== verification/Json.thy ===== *)
theory Json
  imports RustStd
begin

text \<open>
  \<open>serde_json::Value\<close> as the program uses it. The type and its operations are those of a library,
  so definitions that use them take a record \<open>json_api\<close> of operations over an abstract type \<open>'j\<close>:
  the accessors \<open>get\<close>, \<open>as_str\<close> and \<open>as_u64\<close>, and the constructors the \<open>json!\<close> macro calls. The
  locale \<open>json_values\<close> states their documented behaviour; \<open>json_reference\<close> is one implementation
  of it, a plain tree of values, on which witnesses evaluate.
\<close>

record 'j json_api =
  js_get :: "'j \<Rightarrow> string \<Rightarrow> 'j option"
  js_as_str :: "'j \<Rightarrow> string option"
  js_as_u64 :: "'j \<Rightarrow> u64 option"
  js_obj :: "(string \<times> 'j) list \<Rightarrow> 'j"
  js_str :: "string \<Rightarrow> 'j"
  js_u64 :: "u64 \<Rightarrow> 'j"
  js_bool :: "bool \<Rightarrow> 'j"
  js_i32 :: "int \<Rightarrow> 'j"
  js_null :: "'j"

locale json_values =
  fixes J :: "'j json_api"
  assumes get_obj: "js_get J (js_obj J kvs) k = map_of kvs k"
    and as_str_str: "js_as_str J (js_str J s) = Some s"
    and as_str_obj: "js_as_str J (js_obj J kvs) = None"
    and as_u64_u64: "js_as_u64 J (js_u64 J n) = Some n"
    and as_u64_str: "js_as_u64 J (js_str J s) = None"
begin

lemma str_injective: "js_str J s = js_str J s' \<Longrightarrow> s = s'"
  by (metis as_str_str option.inject)

lemma str_not_obj: "js_str J s \<noteq> js_obj J kvs"
  by (metis as_str_str as_str_obj option.distinct(1))

lemma str_field: "map_of kvs k = Some (js_str J s) \<Longrightarrow>
  Option.bind (js_get J (js_obj J kvs) k) (js_as_str J) = Some s"
  by (simp add: get_obj as_str_str)

lemma u64_field: "map_of kvs k = Some (js_u64 J n) \<Longrightarrow>
  Option.bind (js_get J (js_obj J kvs) k) (js_as_u64 J) = Some n"
  by (simp add: get_obj as_u64_u64)

lemma missing_field: "map_of kvs k = None \<Longrightarrow>
  Option.bind (js_get J (js_obj J kvs) k) f = None"
  by (simp add: get_obj)

end

datatype json =
    JNull
  | JBool bool
  | JInt int
  | JStr string
  | JArr "json list"
  | JObj "(string \<times> json) list"

fun json_get :: "json \<Rightarrow> string \<Rightarrow> json option" where
  "json_get (JObj kvs) k = map_of kvs k"
| "json_get _ _ = None"

fun json_as_str :: "json \<Rightarrow> string option" where
  "json_as_str (JStr s) = Some s"
| "json_as_str _ = None"

fun json_as_u64 :: "json \<Rightarrow> u64 option" where
  "json_as_u64 (JInt i) = (if 0 \<le> i \<and> i < 2 ^ 64 then Some (word_of_int i) else None)"
| "json_as_u64 _ = None"

definition json_reference :: "json json_api" where
  "json_reference =
     \<lparr>js_get = json_get, js_as_str = json_as_str, js_as_u64 = json_as_u64, js_obj = JObj,
      js_str = JStr, js_u64 = (\<lambda>n. JInt (uint n)), js_bool = JBool, js_i32 = JInt, js_null = JNull\<rparr>"

interpretation jref: json_values json_reference
proof unfold_locales
  fix n :: u64
  show "js_as_u64 json_reference (js_u64 json_reference n) = Some n"
    using uint_bounded [of n] by (simp add: json_reference_def)
qed (simp_all add: json_reference_def)

end
