(* ===== verification/Planner.thy ===== *)
theory Planner
  imports HiveTypes Json Prompt
begin

text \<open>
  The brain of \<open>src/brain/\<close>: the trait \<open>Brain\<close>, \<open>LlmPlanner\<close> (\<open>planner.rs\<close>), \<open>NoOpBrain\<close> and the
  client of the language model (\<open>llm_client.rs\<close>). The model's service, the JSON of requests and
  responses and the \<open>{:?}\<close> text of an attachment kind are parameters; the system prompt is that of
  \<open>Prompt\<close>, and a response is any text at all.

  The locale \<open>typed_brain\<close> is what the daemon may rely on: a brain proposes only actions from the
  safe part of \<open>BrainAction\<close>, whatever the model answered.
\<close>

record LlmConfig =
  lc_api_key :: string
  lc_api_base :: "string option"
  lc_model :: string
  lc_max_tokens :: u16
  lc_temperature :: f32

text \<open>\<open>temperature: 0.1\<close> is the bit pattern of the nearest 32-bit float.\<close>

definition llm_config_default :: LlmConfig where
  "llm_config_default = \<lparr>lc_api_key = [], lc_api_base = None, lc_model = ''gpt-4o-mini'',
     lc_max_tokens = 2048, lc_temperature = 0x3DCCCCCD\<rparr>"

record GoalSummary =
  gs_id :: string
  gs_description :: string
  gs_priority :: u8

record NodeSummary =
  nd_node_id :: string
  nd_hostname :: string
  nd_tags :: "string list"
  nd_cpu_usage :: f32
  nd_memory_usage :: f32
  nd_disk_usage :: f32
  nd_task_count :: nat

record ClusterSummary =
  cs_node_count :: nat
  cs_healthy_nodes :: "NodeSummary list"
  cs_degraded_nodes :: "NodeSummary list"
  cs_pending_tasks :: nat
  cs_running_tasks :: nat
  cs_leader_id :: "string option"

record AttachmentSummary =
  as_id :: string
  as_node_id :: string
  as_kind :: string
  as_capabilities :: "string list"

record PlannerInput =
  pn_goals :: "GoalSummary list"
  pn_cluster :: ClusterSummary
  pn_attachments :: "AttachmentSummary list"

record 'j RawAction =
  rw_action_type :: string
  rw_fields :: 'j

record 'j PlannerOutput =
  po_reasoning :: string
  po_actions :: "'j RawAction list"

datatype plan_error =
    InputNotSerialised string
  | LlmFailed string
  | NoContent
  | OutputNotParsed string string

datatype parse_error =
    MissingTask
  | MissingTaskType
  | UnknownTaskType string
  | UnknownActionType string

section \<open>The client of the model\<close>

text \<open>The content of the first choice of a response.\<close>

definition llm_chat ::
  "(LlmConfig \<Rightarrow> string \<Rightarrow> string \<Rightarrow> 'w \<Rightarrow> (string + string option list) \<times> 'w) \<Rightarrow> LlmConfig
     \<Rightarrow> string \<Rightarrow> string \<Rightarrow> 'w \<Rightarrow> (plan_error + string) \<times> 'w" where
  "llm_chat request config system user w =
     st_then (st_map_err LlmFailed (request config system user w)) (\<lambda>choices w.
       (case choices of Some content # _ \<Rightarrow> Ok content | _ \<Rightarrow> Err NoContent, w))"

section \<open>The input of the model\<close>

definition summarise_goal :: "Goal \<Rightarrow> GoalSummary" where
  "summarise_goal g =
     \<lparr>gs_id = gl_id g, gs_description = gl_description g, gs_priority = gl_priority g\<rparr>"

definition open_on :: "NodeId \<Rightarrow> 'j Task \<Rightarrow> bool" where
  "open_on n t \<longleftrightarrow> tk_target_node t = n
     \<and> (case tk_status t of Running \<Rightarrow> True | Pending \<Rightarrow> True | _ \<Rightarrow> False)"

definition summarise_node :: "'j ClusterView \<Rightarrow> NodeStatus \<Rightarrow> NodeSummary" where
  "summarise_node cluster n =
     \<lparr>nd_node_id = ns_node_id n, nd_hostname = ns_hostname n, nd_tags = ns_tags n,
      nd_cpu_usage = ns_cpu_usage n, nd_memory_usage = ns_memory_usage n,
      nd_disk_usage = ns_disk_usage n,
      nd_task_count = length (filter (open_on (ns_node_id n)) (cv_tasks cluster))\<rparr>"

text \<open>The loop over the nodes with its two output vectors.\<close>

fun split_nodes ::
  "'j ClusterView \<Rightarrow> NodeStatus list \<Rightarrow> NodeSummary list \<times> NodeSummary list
     \<Rightarrow> NodeSummary list \<times> NodeSummary list" where
  "split_nodes cluster [] acc = acc"
| "split_nodes cluster (n # ns) (healthy, degraded) =
     split_nodes cluster ns
       (case ns_health n of
          Healthy \<Rightarrow> (healthy @ [summarise_node cluster n], degraded)
        | _ \<Rightarrow> (healthy, degraded @ [summarise_node cluster n]))"

definition build_input ::
  "('j AttachmentKind \<Rightarrow> string) \<Rightarrow> Goal list \<Rightarrow> 'j ClusterView \<Rightarrow> 'j Attachment list \<Rightarrow> PlannerInput" where
  "build_input debug_kind goals cluster attachments =
     (let goal_summaries = map summarise_goal (filter gl_active goals);
          (healthy, degraded) = split_nodes cluster (cv_nodes cluster) ([], []);
          cluster_summary =
            \<lparr>cs_node_count = length (cv_nodes cluster), cs_healthy_nodes = healthy,
             cs_degraded_nodes = degraded,
             cs_pending_tasks = length (filter (\<lambda>t. tk_status t = Pending) (cv_tasks cluster)),
             cs_running_tasks = length (filter (\<lambda>t. tk_status t = Running) (cv_tasks cluster)),
             cs_leader_id = cv_leader_id cluster\<rparr>;
          attachment_summaries = map (\<lambda>a. \<lparr>as_id = at_id a, as_node_id = at_node_id a,
             as_kind = debug_kind (at_kind a), as_capabilities = at_capabilities a\<rparr>) attachments
      in \<lparr>pn_goals = goal_summaries, pn_cluster = cluster_summary, pn_attachments = attachment_summaries\<rparr>)"

section \<open>Reading the answer\<close>

text \<open>\<open>obj.get(key).and_then(|v| v.as_str()).unwrap_or(default).to_string()\<close>.\<close>

definition str_field :: "'j json_api \<Rightarrow> 'j \<Rightarrow> string \<Rightarrow> string \<Rightarrow> string" where
  "str_field J obj key dflt =
     (case Option.bind (js_get J obj key) (js_as_str J) of Some s \<Rightarrow> s | None \<Rightarrow> dflt)"

text \<open>The same for numbers, with the cast \<open>as u8\<close>.\<close>

definition u8_field :: "'j json_api \<Rightarrow> 'j \<Rightarrow> string \<Rightarrow> u64 \<Rightarrow> u8" where
  "u8_field J obj key dflt =
     ucast (case Option.bind (js_get J obj key) (js_as_u64 J) of Some n \<Rightarrow> n | None \<Rightarrow> dflt)"

definition parse_payload :: "'j json_api \<Rightarrow> string \<Rightarrow> 'j \<Rightarrow> parse_error + 'j TaskPayload" where
  "parse_payload J task_type obj =
     (if task_type = ''Echo'' then Ok (Echo (str_field J obj ''message'' []))
      else if task_type = ''SyncDirectory''
        then Ok (SyncDirectory (str_field J obj ''src'' []) (str_field J obj ''dst'' []))
      else if task_type = ''CheckService'' then Ok (CheckService (str_field J obj ''service_name'' []))
      else if task_type = ''RestartService'' then Ok (RestartService (str_field J obj ''service_name'' []))
      else Err (UnknownTaskType task_type))"

definition parse_schedule :: "'j json_api \<Rightarrow> 'j \<Rightarrow> parse_error + 'j BrainAction" where
  "parse_schedule J flds =
     (case js_get J flds ''task'' of
        None \<Rightarrow> Err MissingTask
      | Some task_obj \<Rightarrow>
          (case Option.bind (js_get J task_obj ''type'') (js_as_str J) of
             None \<Rightarrow> Err MissingTaskType
           | Some task_type \<Rightarrow>
               try_then (parse_payload J task_type task_obj) (\<lambda>task.
                 Ok (ScheduleTask task (str_field J flds ''target_node'' []) (u8_field J flds ''priority'' 5)))))"

definition parse_action :: "'j json_api \<Rightarrow> 'j RawAction \<Rightarrow> parse_error + 'j BrainAction" where
  "parse_action J raw =
     (let ty = rw_action_type raw; flds = rw_fields raw in
      if ty = ''ScheduleTask'' then parse_schedule J flds
      else if ty = ''RebalanceTask''
        then Ok (RebalanceTask (str_field J flds ''task_id'' []) (str_field J flds ''to_node'' []))
      else if ty = ''CancelTask'' then Ok (CancelTask (str_field J flds ''task_id'' []))
      else if ty = ''UpdateGoalProgress''
        then Ok (UpdateGoalProgress (str_field J flds ''goal_id'' []) (u8_field J flds ''progress_percent'' 0)
               (Option.bind (js_get J flds ''notes'') (js_as_str J)))
      else if ty = ''MarkNodeDegraded''
        then Ok (MarkNodeDegraded (str_field J flds ''node_id'' []) (str_field J flds ''reason'' []))
      else if ty = ''RequestHumanApproval''
        then Ok (RequestHumanApproval (str_field J flds ''action_description'' [])
               (str_field J flds ''severity'' ''medium''))
      else if ty = ''NoOp'' then Ok (NoOp (str_field J flds ''reason'' []))
      else Err (UnknownActionType ty))"

fun parse_actions :: "'j json_api \<Rightarrow> 'j RawAction list \<Rightarrow> 'j BrainAction list" where
  "parse_actions J [] = []"
| "parse_actions J (raw # raws) =
     (case parse_action J raw of Inr a \<Rightarrow> [a] | Inl _ \<Rightarrow> []) @ parse_actions J raws"

section \<open>Brains\<close>

record ('j, 'w) brain_api =
  br_plan :: "Goal list \<Rightarrow> 'j ClusterView \<Rightarrow> 'j Attachment list \<Rightarrow> 'w \<Rightarrow> (plan_error + 'j BrainAction list) \<times> 'w"

text \<open>What \<open>LlmPlanner::plan\<close> calls: the service, and the JSON texts of its input and output.\<close>

record ('j, 'w) planner_env =
  pv_request :: "LlmConfig \<Rightarrow> string \<Rightarrow> string \<Rightarrow> 'w \<Rightarrow> (string + string option list) \<times> 'w"
  pv_render :: "PlannerInput \<Rightarrow> string + string"
  pv_parse :: "string \<Rightarrow> string + 'j PlannerOutput"
  pv_debug_kind :: "'j AttachmentKind \<Rightarrow> string"

definition user_message :: "string \<Rightarrow> string" where
  "user_message input_json =
     ''Current state:'' @ newline @ replicate 3 (CHR 0x60) @ ''json'' @ newline @ input_json @ newline
       @ replicate 3 (CHR 0x60) @ newline @ newline @ ''Analyze and propose actions.''"

definition llm_plan ::
  "'j json_api \<Rightarrow> ('j, 'w) planner_env \<Rightarrow> LlmConfig \<Rightarrow> Goal list \<Rightarrow> 'j ClusterView \<Rightarrow> 'j Attachment list
     \<Rightarrow> 'w \<Rightarrow> (plan_error + 'j BrainAction list) \<times> 'w" where
  "llm_plan J E config goals cluster attachments w =
     (if length (filter gl_active goals) = 0 then (Ok [NoOp ''No active goals''], w)
      else
        (case pv_render E (build_input (pv_debug_kind E) goals cluster attachments) of
           Inl e \<Rightarrow> (Err (InputNotSerialised e), w)
         | Inr input_json \<Rightarrow>
             st_then (llm_chat (pv_request E) config SYSTEM_PROMPT (user_message input_json) w) (\<lambda>response w.
               (case pv_parse E response of
                  Inl e \<Rightarrow> Err (OutputNotParsed e response)
                | Inr out \<Rightarrow> Ok (parse_actions J (po_actions out)), w))))"

definition llm_brain ::
  "'j json_api \<Rightarrow> ('j, 'w) planner_env \<Rightarrow> LlmConfig \<Rightarrow> ('j, 'w) brain_api" where
  "llm_brain J E config = \<lparr>br_plan = llm_plan J E config\<rparr>"

definition noop_brain :: "('j, 'w) brain_api" where
  "noop_brain = \<lparr>br_plan = (\<lambda>goals cluster attachments w.
     (Ok [NoOp ''NoOp brain - planning disabled''], w))\<rparr>"

section \<open>The safe actions\<close>

fun safe_payload :: "'j TaskPayload \<Rightarrow> bool" where
  "safe_payload (Echo _) = True"
| "safe_payload (SyncDirectory _ _) = True"
| "safe_payload (CheckService _) = True"
| "safe_payload (RestartService _) = True"
| "safe_payload _ = False"

fun safe_action :: "'j BrainAction \<Rightarrow> bool" where
  "safe_action (ScheduleTask p _ _) = safe_payload p"
| "safe_action (CreateAttachment _ _ _) = False"
| "safe_action (RemoveAttachment _) = False"
| "safe_action _ = True"

locale typed_brain =
  fixes B :: "('j, 'w) brain_api"
  assumes plan_safe: "br_plan B goals cluster attachments w = (Ok actions, w') \<Longrightarrow> list_all safe_action actions"
begin

lemma planned_action_safe:
  "br_plan B goals cluster attachments w = (Ok actions, w') \<Longrightarrow> a \<in> set actions \<Longrightarrow> safe_action a"
  using plan_safe by (fastforce simp: list_all_iff)

end

lemma parse_payload_safe: "parse_payload J ty obj = Ok p \<Longrightarrow> safe_payload p"
  by (auto simp: parse_payload_def split: if_splits)

lemma parse_action_safe: "parse_action J raw = Ok a \<Longrightarrow> safe_action a"
  by (auto simp: parse_action_def parse_schedule_def Let_def try_then_eq_Ok parse_payload_safe
      split: if_splits option.splits)

lemma parse_actions_safe: "list_all safe_action (parse_actions J raws)"
  by (induction raws) (auto dest: parse_action_safe split: sum.split)

text \<open>A plan is the idle one, or the actions read from what the model answered.\<close>

lemma llm_plan_cases:
  assumes "llm_plan J E config goals cluster attachments w = (Ok actions, w')"
  obtains (idle) "\<forall>g \<in> set goals. \<not> gl_active g" "actions = [NoOp ''No active goals'']" "w' = w"
  | (answered) input_json response out
      where "pv_render E (build_input (pv_debug_kind E) goals cluster attachments) = Ok input_json"
      "llm_chat (pv_request E) config SYSTEM_PROMPT (user_message input_json) w = (Ok response, w')"
      "pv_parse E response = Ok out" "actions = parse_actions J (po_actions out)"
proof (cases "filter gl_active goals = []")
  case True
  with assms idle show thesis by (auto simp: llm_plan_def filter_empty_conv)
next
  case False
  with assms obtain input_json where i: "pv_render E (build_input (pv_debug_kind E) goals cluster attachments) = Ok input_json"
    by (cases "pv_render E (build_input (pv_debug_kind E) goals cluster attachments)") (auto simp: llm_plan_def)
  with False assms obtain response where r:
    "llm_chat (pv_request E) config SYSTEM_PROMPT (user_message input_json) w = (Ok response, w')"
    "(case pv_parse E response of Inl e \<Rightarrow> Err (OutputNotParsed e response)
      | Inr out \<Rightarrow> Ok (parse_actions J (po_actions out))) = Ok actions"
    by (fastforce simp: llm_plan_def st_then_eq_Ok)
  show thesis
    by (cases "pv_parse E response") (use answered [OF i r(1)] r(2) in auto)
qed

lemma llm_plan_safe:
  assumes "llm_plan J E config goals cluster attachments w = (Ok actions, w')"
  shows "list_all safe_action actions"
  using assms by (cases rule: llm_plan_cases) (simp_all add: parse_actions_safe)

interpretation llm: typed_brain "llm_brain J E config"
  by unfold_locales (auto simp: llm_brain_def intro: llm_plan_safe)

interpretation noop: typed_brain noop_brain
  by unfold_locales (auto simp: noop_brain_def)

section \<open>The formats of the prompt\<close>

text \<open>The JSON object the prompt asks for, for each action it gives a format for; a \<open>u8\<close> is printed as a
  number. \<open>examples_in_prompt\<close> ties it to the text of the prompt.\<close>

fun render_payload :: "'j json_api \<Rightarrow> 'j TaskPayload \<Rightarrow> 'j" where
  "render_payload J (Echo m) = js_obj J [(''type'', js_str J ''Echo''), (''message'', js_str J m)]"
| "render_payload J (SyncDirectory src dst) =
     js_obj J [(''type'', js_str J ''SyncDirectory''), (''src'', js_str J src), (''dst'', js_str J dst)]"
| "render_payload J (CheckService s) =
     js_obj J [(''type'', js_str J ''CheckService''), (''service_name'', js_str J s)]"
| "render_payload J _ = js_null J"

fun render_action :: "'j json_api \<Rightarrow> 'j BrainAction \<Rightarrow> 'j RawAction" where
  "render_action J (ScheduleTask p n pr) = \<lparr>rw_action_type = ''ScheduleTask'', rw_fields =
     js_obj J [(''task'', render_payload J p), (''target_node'', js_str J n), (''priority'', js_u64 J (ucast pr))]\<rparr>"
| "render_action J (RebalanceTask i n) = \<lparr>rw_action_type = ''RebalanceTask'', rw_fields =
     js_obj J [(''task_id'', js_str J i), (''to_node'', js_str J n)]\<rparr>"
| "render_action J (CancelTask i) = \<lparr>rw_action_type = ''CancelTask'', rw_fields =
     js_obj J [(''task_id'', js_str J i)]\<rparr>"
| "render_action J (UpdateGoalProgress g p notes) = \<lparr>rw_action_type = ''UpdateGoalProgress'', rw_fields =
     js_obj J ([(''goal_id'', js_str J g), (''progress_percent'', js_u64 J (ucast p))]
       @ (case notes of Some s \<Rightarrow> [(''notes'', js_str J s)] | None \<Rightarrow> []))\<rparr>"
| "render_action J (MarkNodeDegraded n r) = \<lparr>rw_action_type = ''MarkNodeDegraded'', rw_fields =
     js_obj J [(''node_id'', js_str J n), (''reason'', js_str J r)]\<rparr>"
| "render_action J (RequestHumanApproval d s) = \<lparr>rw_action_type = ''RequestHumanApproval'', rw_fields =
     js_obj J [(''action_description'', js_str J d), (''severity'', js_str J s)]\<rparr>"
| "render_action J (NoOp r) = \<lparr>rw_action_type = ''NoOp'', rw_fields = js_obj J [(''reason'', js_str J r)]\<rparr>"
| "render_action J _ = \<lparr>rw_action_type = [], rw_fields = js_null J\<rparr>"

text \<open>The object of an action, with its type as its first field, as a JSON text in the spacing of the
  prompt, and its form: everything but the values under keys other than \<open>type\<close>.\<close>

definition raw_json :: "json RawAction \<Rightarrow> json" where
  "raw_json raw = (case rw_fields raw of JObj kvs \<Rightarrow> JObj ((''type'', JStr (rw_action_type raw)) # kvs) | j \<Rightarrow> j)"

definition quoted :: "string \<Rightarrow> string" where
  "quoted s = [CHR 0x22] @ s @ [CHR 0x22]"

fun comma_list :: "string list \<Rightarrow> string" where
  "comma_list [] = []"
| "comma_list [s] = s"
| "comma_list (s # ss) = s @ '', '' @ comma_list ss"

fun json_text :: "json \<Rightarrow> string" where
  "json_text JNull = ''null''"
| "json_text (JBool b) = (if b then ''true'' else ''false'')"
| "json_text (JInt i) = u64_to_string (word_of_int i)"
| "json_text (JStr s) = quoted s"
| "json_text (JArr js) = ''[ '' @ comma_list (map json_text js) @ '' ]''"
| "json_text (JObj kvs) = ''{ '' @ comma_list (map (\<lambda>(k, v). quoted k @ '': '' @ json_text v) kvs) @ '' }''"

fun form_of :: "json \<Rightarrow> json" where
  "form_of (JObj kvs) = JObj (map (\<lambda>(k, v). (k, if k = ''type'' then v else form_of v)) kvs)"
| "form_of (JStr s) = JStr []"
| "form_of (JInt i) = JInt 0"
| "form_of j = j"

text \<open>The examples in the prompt, one for each format.\<close>

definition prompt_examples :: "json BrainAction list" where
  "prompt_examples =
     [ScheduleTask (Echo ''...'') ''node_id'' 5, ScheduleTask (SyncDirectory ''/path'' ''/path'') ''node_id'' 5,
      ScheduleTask (CheckService ''...'') ''node_id'' 5, RebalanceTask ''...'' ''...'', CancelTask ''...'',
      UpdateGoalProgress ''...'' 50 (Some ''...''), MarkNodeDegraded ''...'' ''...'',
      RequestHumanApproval ''...'' ''low|medium|high'', NoOp ''...'']"

fun has_format :: "'j BrainAction \<Rightarrow> bool" where
  "has_format (ScheduleTask (Echo _) _ _) = True"
| "has_format (ScheduleTask (SyncDirectory _ _) _ _) = True"
| "has_format (ScheduleTask (CheckService _) _ _) = True"
| "has_format (RebalanceTask _ _) = True"
| "has_format (CancelTask _) = True"
| "has_format (UpdateGoalProgress _ _ (Some _)) = True"
| "has_format (MarkNodeDegraded _ _) = True"
| "has_format (RequestHumanApproval _ _) = True"
| "has_format (NoOp _) = True"
| "has_format _ = False"

lemma examples_in_prompt:
  "map (\<lambda>a. json_text (raw_json (render_action json_reference a))) prompt_examples =
     filter (\<lambda>l. starts_with l format_prefix) prompt_lines"
  by code_simp

lemma has_format_example:
  "has_format b \<longleftrightarrow> (\<exists>e \<in> set prompt_examples.
     form_of (raw_json (render_action json_reference b)) = form_of (raw_json (render_action json_reference e)))"
  by (cases b rule: has_format.cases) (auto simp: prompt_examples_def raw_json_def json_reference_def split: TaskPayload.splits)

lemma ucast_u8_u64 [simp]: "ucast (ucast (x :: u8) :: u64) = x"
  by (rule ucast_up_ucast_id) (simp add: is_up)

context json_values
begin

lemmas field_simps = str_field_def u8_field_def get_obj as_str_str as_u64_u64

lemma parse_render_action: "has_format a \<Longrightarrow> parse_action J (render_action J a) = Ok a"
  by (cases a rule: has_format.cases)
    (simp_all add: parse_action_def parse_schedule_def parse_payload_def field_simps)

lemma parse_render_actions: "list_all has_format as \<Longrightarrow> parse_actions J (map (render_action J) as) = as"
  by (induction as) (simp_all add: parse_render_action)

end

section \<open>The summary of the cluster\<close>

lemma split_nodes_filter:
  "split_nodes cluster ns (healthy, degraded) =
     (healthy @ map (summarise_node cluster) (filter (\<lambda>n. ns_health n = Healthy) ns),
      degraded @ map (summarise_node cluster) (filter (\<lambda>n. ns_health n \<noteq> Healthy) ns))"
proof (induction ns arbitrary: healthy degraded)
  case (Cons n ns)
  then show ?case by (cases "ns_health n") simp_all
qed simp

lemma length_filter_open:
  "length (filter (\<lambda>t. tk_status t = Pending) ts) + length (filter (\<lambda>t. tk_status t = Running) ts) =
     length (filter (\<lambda>t. tk_status t = Pending \<or> tk_status t = Running) ts)"
  by (induction ts) auto

text \<open>Counting by target, for targets listed once, counts what has one of these targets.\<close>

lemma sum_by_target:
  assumes "distinct ns"
  shows "sum_list (map (\<lambda>n. length (filter (\<lambda>t. f t = n \<and> Q t) ts)) ns) =
    length (filter (\<lambda>t. f t \<in> set ns \<and> Q t) ts)"
proof (induction ts)
  case (Cons t ts)
  have step: "length (filter (\<lambda>t. f t = n \<and> Q t) (t # ts)) =
      (if f t = n \<and> Q t then 1 else 0) + length (filter (\<lambda>t. f t = n \<and> Q t) ts)" for n
    by simp
  have one: "sum_list (map (\<lambda>n. if f t = n \<and> Q t then 1 else 0) ns) = (if f t \<in> set ns \<and> Q t then 1 else (0::nat))"
    using assms by (induction ns) auto
  have "sum_list (map (\<lambda>n. length (filter (\<lambda>t. f t = n \<and> Q t) (t # ts))) ns) =
      (if f t \<in> set ns \<and> Q t then 1 else 0) + length (filter (\<lambda>t. f t \<in> set ns \<and> Q t) ts)"
    unfolding step sum_list_addf one Cons.IH ..
  then show ?case by simp
qed simp

lemma sum_list_mset_cong: "mset xs = mset ys \<Longrightarrow> sum_list (map f xs) = sum_list (map f ys)"
  for f :: "'x \<Rightarrow> nat"
proof -
  assume "mset xs = mset ys"
  then have "mset (map f xs) = mset (map f ys)" by simp
  then have "sum_mset (mset (map f xs)) = sum_mset (mset (map f ys))" by (simp only:)
  then show ?thesis by (simp only: sum_mset_sum_list)
qed

lemma open_on_split: "open_on n t \<longleftrightarrow> tk_target_node t = n \<and> (tk_status t = Pending \<or> tk_status t = Running)"
  by (cases "tk_status t") (auto simp: open_on_def)

section \<open>Properties\<close>

text \<open>C30. Whatever text the language model returns, the planner proposes only actions of the seven kinds
  of its safe list, and tasks only of four kinds: never a command, a container, a custom tool or a
  change of attachments.\<close>

theorem planner_proposes_only_safe_actions:
  assumes "br_plan (llm_brain J E config) goals cluster attachments w = (Ok actions, w')"
  shows "list_all safe_action actions"
  using assms by (rule llm.plan_safe)

definition demo_env :: "string \<Rightarrow> json PlannerOutput \<Rightarrow> (json, nat) planner_env" where
  "demo_env answer out =
     \<lparr>pv_request = (\<lambda>config system user w. (Ok [Some answer], Suc w)), pv_render = (\<lambda>i. Ok ''{}''),
      pv_parse = (\<lambda>t. if t = answer then Ok out else Err ''not json''), pv_debug_kind = (\<lambda>k. ''kind'')\<rparr>"

definition demo_goal :: "bool \<Rightarrow> Goal" where
  "demo_goal active = \<lparr>gl_id = ''g'', gl_description = ''keep nginx running'', gl_constraints = [],
     gl_priority = 5, gl_active = active, gl_created_at = 0\<rparr>"

definition demo_output :: "json PlannerOutput" where
  "demo_output = \<lparr>po_reasoning = ''r'', po_actions =
     [\<lparr>rw_action_type = ''RunCommand'', rw_fields = JObj []\<rparr>,
      render_action json_reference (CancelTask ''t1''),
      \<lparr>rw_action_type = ''ScheduleTask'', rw_fields = JObj [(''task'', JObj [(''type'', JStr ''RunCommand'')])]\<rparr>]\<rparr>"

lemma demo_plan:
  "llm_plan json_reference (demo_env ''a'' demo_output) llm_config_default [demo_goal True] cluster_view_new [] 0
     = (Ok [CancelTask ''t1''], 1)"
  by (simp add: llm_plan_def demo_env_def demo_goal_def llm_chat_def demo_output_def parse_action_def
      parse_schedule_def parse_payload_def str_field_def json_reference_def)

theorem planner_proposes_only_safe_actions_witness:
  "br_plan (llm_brain json_reference (demo_env ''a'' demo_output) llm_config_default) [demo_goal True]
      cluster_view_new [] 0 = (Ok [CancelTask ''t1''], 1)
   \<and> list_all safe_action [CancelTask ''t1'' :: json BrainAction]"
proof -
  have p: "br_plan (llm_brain json_reference (demo_env ''a'' demo_output) llm_config_default) [demo_goal True]
      cluster_view_new [] 0 = (Ok [CancelTask ''t1''], 1)"
    by (simp add: llm_brain_def demo_plan)
  with planner_proposes_only_safe_actions [OF p] show ?thesis by blast
qed

text \<open>C31. The planner understands its own prompt. \<open>render_action\<close> writes the formats of the prompt: the
  nine examples, written as JSON texts, are the lines of the prompt that give the formats, character
  by character, and an action has a format (\<open>has_format\<close>) exactly when its object has the form of one
  of the examples, that is the same fields in the same order with the same types. Every list of
  such actions, with whatever values in the fields, is read back as it is, in order. The prompt has
  no format for \<open>RestartService\<close>, nor for progress without a note.\<close>

theorem prompt_formats_read_back:
  assumes "json_values J" and "list_all has_format actions"
  shows "parse_actions J (map (render_action J) actions) = actions
    \<and> map (\<lambda>a. json_text (raw_json (render_action json_reference a))) prompt_examples =
        filter (\<lambda>l. starts_with l format_prefix) prompt_lines
    \<and> (has_format b \<longleftrightarrow> (\<exists>e \<in> set prompt_examples.
        form_of (raw_json (render_action json_reference b)) = form_of (raw_json (render_action json_reference e))))"
  using json_values.parse_render_actions [OF assms] examples_in_prompt has_format_example by blast

theorem prompt_formats_read_back_witness:
  "parse_actions json_reference (map (render_action json_reference)
     [ScheduleTask (SyncDirectory ''/home/a'' ''/data/b'') ''node-1'' 200, UpdateGoalProgress ''g'' 50 (Some ''half'')]) =
     [ScheduleTask (SyncDirectory ''/home/a'' ''/data/b'') ''node-1'' 200, UpdateGoalProgress ''g'' 50 (Some ''half'')]"
proof -
  have "list_all has_format [ScheduleTask (SyncDirectory ''/home/a'' ''/data/b'') ''node-1'' 200,
      UpdateGoalProgress ''g'' 50 (Some ''half'') :: json BrainAction]" by simp
  from prompt_formats_read_back [OF jref.json_values_axioms this] show ?thesis by blast
qed

text \<open>C32. The parser accepts exactly the action types the prompt gives a format for. The list of action
  types in the same prompt names two more, \<open>CreateAttachment\<close> and \<open>RemoveAttachment\<close>, which are refused
  whatever their fields; every type with a format is in the list.\<close>

theorem parser_accepts_prompt_formats:
  assumes "json_values J"
  shows "((\<exists>flds a. parse_action J \<lparr>rw_action_type = ty, rw_fields = flds\<rparr> = Ok a) \<longleftrightarrow> ty \<in> set (action_formats prompt_lines))
    \<and> (ty \<in> set (listed_actions prompt_lines) \<and> ty \<notin> set (action_formats prompt_lines)
        \<longleftrightarrow> ty = ''CreateAttachment'' \<or> ty = ''RemoveAttachment'')
    \<and> set (action_formats prompt_lines) \<subseteq> set (listed_actions prompt_lines)"
proof -
  have "parse_action J (render_action J (ScheduleTask (Echo []) [] 5)) = Ok (ScheduleTask (Echo []) [] 5)"
    by (rule json_values.parse_render_action [OF assms]) simp
  then have schedule: "\<exists>flds a. parse_action J \<lparr>rw_action_type = ''ScheduleTask'', rw_fields = flds\<rparr> = Ok a"
    by (simp only: render_action.simps) blast
  have "(\<exists>flds a. parse_action J \<lparr>rw_action_type = ty, rw_fields = flds\<rparr> = Ok a) \<longleftrightarrow> ty \<in> set (action_formats prompt_lines)"
  proof (cases "ty = ''ScheduleTask''")
    case True
    with schedule show ?thesis by (simp add: formats_in_prompt)
  qed (auto simp: parse_action_def Let_def formats_in_prompt)
  moreover have "set (listed_actions prompt_lines) - set (action_formats prompt_lines) = {''CreateAttachment'', ''RemoveAttachment''}"
    "set (action_formats prompt_lines) \<subseteq> set (listed_actions prompt_lines)"
    by (simp_all add: formats_in_prompt listed_in_prompt insert_Diff_if)
  ultimately show ?thesis by blast
qed

theorem parser_accepts_prompt_formats_witness:
  "(\<exists>flds a. parse_action json_reference \<lparr>rw_action_type = ''NoOp'', rw_fields = flds\<rparr> = Ok a)
    \<and> \<not> (\<exists>flds a. parse_action json_reference \<lparr>rw_action_type = ''RemoveAttachment'', rw_fields = flds\<rparr> = Ok a)"
  using parser_accepts_prompt_formats [OF jref.json_values_axioms, of "''NoOp''"]
    parser_accepts_prompt_formats [OF jref.json_values_axioms, of "''RemoveAttachment''"]
  by (simp add: formats_in_prompt)

text \<open>An action that cannot be read is skipped and does not disturb the others; without an active
  goal the model is not asked at all, and the answer is a single idle action.\<close>

theorem unreadable_actions_are_skipped:
  "parse_actions J (as @ raw # bs) =
     (case parse_action J raw of
        Inr a \<Rightarrow> parse_actions J as @ a # parse_actions J bs
      | Inl _ \<Rightarrow> parse_actions J as @ parse_actions J bs)
   \<and> ((\<forall>g \<in> set goals. \<not> gl_active g) \<longrightarrow>
       llm_plan J E config goals cluster attachments w = (Ok [NoOp ''No active goals''], w))"
proof -
  have app: "parse_actions J (xs @ ys) = parse_actions J xs @ parse_actions J ys" for xs ys
    by (induction xs) auto
  show ?thesis by (auto simp: app llm_plan_def filter_empty_conv split: sum.split)
qed

theorem unreadable_actions_are_skipped_witness:
  "llm_plan json_reference (demo_env ''a'' demo_output) llm_config_default [demo_goal False]
     cluster_view_new [] 0 = (Ok [NoOp ''No active goals''], 0)"
  using unreadable_actions_are_skipped [where goals = "[demo_goal False]" and J = json_reference
      and E = "demo_env ''a'' demo_output" and config = llm_config_default and cluster = cluster_view_new
      and attachments = "[]" and w = 0]
  by (simp add: demo_goal_def)

text \<open>The input of the model is a faithful summary: every node is listed once, as healthy or not
  according to its health and in the order of the view, the goals are the active ones, and when
  node ids are distinct the task counts of the nodes add up to the pending and running tasks that
  are on nodes of the view.\<close>

theorem input_summarises_cluster:
  assumes "distinct (map ns_node_id (cv_nodes cluster))"
  shows "let inp = build_input debug_kind goals cluster attachments; c = pn_cluster inp in
      map nd_node_id (cs_healthy_nodes c) = map ns_node_id (healthy_nodes cluster)
    \<and> map nd_node_id (cs_degraded_nodes c) = map ns_node_id (filter (\<lambda>n. ns_health n \<noteq> Healthy) (cv_nodes cluster))
    \<and> length (cs_healthy_nodes c) + length (cs_degraded_nodes c) = cs_node_count c
    \<and> map gs_id (pn_goals inp) = map gl_id (filter gl_active goals)
    \<and> sum_list (map nd_task_count (cs_healthy_nodes c @ cs_degraded_nodes c)) =
        length (filter (\<lambda>t. tk_target_node t \<in> ns_node_id ` set (cv_nodes cluster)
          \<and> (tk_status t = Pending \<or> tk_status t = Running)) (cv_tasks cluster))
    \<and> cs_pending_tasks c + cs_running_tasks c =
        length (filter (\<lambda>t. tk_status t = Pending \<or> tk_status t = Running) (cv_tasks cluster))"
proof -
  let ?H = "filter (\<lambda>n. ns_health n = Healthy) (cv_nodes cluster)"
  let ?D = "filter (\<lambda>n. ns_health n \<noteq> Healthy) (cv_nodes cluster)"
  let ?count = "\<lambda>i. length (filter (open_on i) (cv_tasks cluster))"
  have "mset (?H @ ?D) = mset (cv_nodes cluster)" 
    using multiset_partition [of "mset (cv_nodes cluster)" "\<lambda>n. ns_health n = Healthy"] by simp
  then have "sum_list (map (\<lambda>n. ?count (ns_node_id n)) (?H @ ?D)) = sum_list (map (\<lambda>n. ?count (ns_node_id n)) (cv_nodes cluster))"
    by (rule sum_list_mset_cong)
  also have "\<dots> = sum_list (map ?count (map ns_node_id (cv_nodes cluster)))" by (simp add: comp_def)
  also have "\<dots> = length (filter (\<lambda>t. tk_target_node t \<in> set (map ns_node_id (cv_nodes cluster))
      \<and> (tk_status t = Pending \<or> tk_status t = Running)) (cv_tasks cluster))"
    using sum_by_target [OF assms, of tk_target_node "\<lambda>t. tk_status t = Pending \<or> tk_status t = Running" "cv_tasks cluster"]
    by (simp add: open_on_split cong: filter_cong)
  finally have counts: "sum_list (map (\<lambda>n. ?count (ns_node_id n)) (?H @ ?D)) = length (filter (\<lambda>t.
      tk_target_node t \<in> ns_node_id ` set (cv_nodes cluster)
      \<and> (tk_status t = Pending \<or> tk_status t = Running)) (cv_tasks cluster))"
    by simp
  have len: "length ?H + length ?D = length (cv_nodes cluster)" by (rule sum_length_filter_compl)
  show ?thesis
    using counts len
    by (simp add: build_input_def split_nodes_filter healthy_nodes_def summarise_goal_def
        summarise_node_def comp_def length_filter_open Let_def)
qed

theorem input_summarises_cluster_witness:
  "let c = pn_cluster (build_input (\<lambda>_. ''k'') [] ((cluster_view_new :: unit ClusterView)\<lparr>cv_nodes :=
      [\<lparr>ns_node_id = ''n1'', ns_hostname = ''h'', ns_tags = [], ns_health = Unreachable,
        ns_last_heartbeat = 0, ns_cpu_usage = 0, ns_memory_usage = 0, ns_disk_usage = 0\<rparr>]\<rparr>) [])
   in map nd_node_id (cs_degraded_nodes c) = [''n1''] \<and> cs_healthy_nodes c = []"
  using input_summarises_cluster [where goals = "[]" and attachments = "[]" and debug_kind = "\<lambda>_. ''k''"
      and cluster = "(cluster_view_new :: unit ClusterView)\<lparr>cv_nodes :=
      [\<lparr>ns_node_id = ''n1'', ns_hostname = ''h'', ns_tags = [], ns_health = Unreachable,
        ns_last_heartbeat = 0, ns_cpu_usage = 0, ns_memory_usage = 0, ns_disk_usage = 0\<rparr>]\<rparr>"]
  by (simp add: Let_def healthy_nodes_def)

text \<open>The cast \<open>as u8\<close> keeps the low eight bits: a priority of 300 becomes 44, a progress of 256
  becomes 0.\<close>

lemma numbers_are_truncated:
  "parse_action json_reference \<lparr>rw_action_type = ''UpdateGoalProgress'',
      rw_fields = JObj [(''goal_id'', JStr ''g''), (''progress_percent'', JInt 256)]\<rparr>
     = Ok (UpdateGoalProgress ''g'' 0 None)"
  "u8_field json_reference (JObj [(''priority'', JInt 300)]) ''priority'' 5 = 44"
  by (simp_all add: parse_action_def str_field_def u8_field_def json_reference_def)

end
