(* ===== verification/HiveState.thy ===== *)
theory HiveState
  imports HiveTypes
begin

text \<open>
  The replicated state machine of \<open>src/replicator/state_machine.rs\<close>: \<open>HiveState\<close> with its
  four tables, \<open>HiveState::apply\<close> (\<open>apply_command\<close>) and \<open>HiveState::to_cluster_view\<close>. The
  instant that \<open>Utc::now()\<close> returns inside \<open>apply\<close> is the argument \<open>now\<close>. \<open>SharedState\<close> is a
  \<open>HiveState\<close> behind a lock; each of its methods holds the lock for its whole body, so it is one
  atomic step on the state and its methods are the functions of this theory.

  The lemmas give the invariant of the tables (\<open>hive_wf\<close>), the tables as finite maps (\<open>hive_abs\<close>,
  with the effect of a command on them), agreement of replicas that apply the same log at different
  times, the meaning of the listings in a cluster view, and what each lookup returns, read off the log
  (\<open>logged_task\<close> and its like).
\<close>

record 'j HiveState =
  hs_nodes :: "(NodeId, NodeStatus) hmap"
  hs_tasks :: "(TaskId, 'j Task) hmap"
  hs_attachments :: "(AttachmentId, 'j Attachment) hmap"
  hs_goals :: "(GoalId, Goal) hmap"
  hs_last_applied_index :: u64

definition hive_new :: "'j HiveState" where
  "hive_new = \<lparr>hs_nodes = [], hs_tasks = [], hs_attachments = [], hs_goals = [],
     hs_last_applied_index = 0\<rparr>"

definition set_node_health ::
  "NodeHealth \<Rightarrow> NodeMetrics \<Rightarrow> timestamp \<Rightarrow> NodeStatus \<Rightarrow> NodeStatus" where
  "set_node_health h m now n =
     n\<lparr>ns_health := h, ns_cpu_usage := nm_cpu_usage m, ns_memory_usage := nm_memory_usage m,
       ns_disk_usage := nm_disk_usage m, ns_last_heartbeat := now\<rparr>"

definition set_task_status ::
  "TaskStatus \<Rightarrow> 'j option \<Rightarrow> timestamp \<Rightarrow> 'j Task \<Rightarrow> 'j Task" where
  "set_task_status st r now t = t\<lparr>tk_status := st, tk_result := r, tk_updated_at := now\<rparr>"

fun apply_command :: "timestamp \<Rightarrow> 'j ClusterCommand \<Rightarrow> 'j HiveState \<Rightarrow> 'j HiveState" where
  "apply_command now (RegisterNode status) s =
     s\<lparr>hs_nodes := hm_insert (ns_node_id status) status (hs_nodes s)\<rparr>"
| "apply_command now (UpdateNodeHealth i h m) s =
     s\<lparr>hs_nodes := hm_modify i (set_node_health h m now) (hs_nodes s)\<rparr>"
| "apply_command now (RemoveNode i) s = s\<lparr>hs_nodes := hm_remove i (hs_nodes s)\<rparr>"
| "apply_command now (PutTask t) s = s\<lparr>hs_tasks := hm_insert (tk_id t) t (hs_tasks s)\<rparr>"
| "apply_command now (UpdateTaskStatus i st r) s =
     s\<lparr>hs_tasks := hm_modify i (set_task_status st r now) (hs_tasks s)\<rparr>"
| "apply_command now (PutAttachment a) s =
     s\<lparr>hs_attachments := hm_insert (at_id a) a (hs_attachments s)\<rparr>"
| "apply_command now (RemoveAttachmentCmd i) s =
     s\<lparr>hs_attachments := hm_remove i (hs_attachments s)\<rparr>"
| "apply_command now (PutGoal g) s = s\<lparr>hs_goals := hm_insert (gl_id g) g (hs_goals s)\<rparr>"
| "apply_command now (RemoveGoal i) s = s\<lparr>hs_goals := hm_remove i (hs_goals s)\<rparr>"

definition to_cluster_view :: "NodeId option \<Rightarrow> u64 \<Rightarrow> 'j HiveState \<Rightarrow> 'j ClusterView" where
  "to_cluster_view leader term s =
     \<lparr>cv_nodes = hm_values (hs_nodes s), cv_tasks = hm_values (hs_tasks s),
      cv_attachments = hm_values (hs_attachments s), cv_goals = hm_values (hs_goals s),
      cv_leader_id = leader, cv_term = term\<rparr>"

definition set_last_applied_index :: "u64 \<Rightarrow> 'j HiveState \<Rightarrow> 'j HiveState" where
  "set_last_applied_index i s = s\<lparr>hs_last_applied_index := i\<rparr>"

text \<open>\<open>SharedState\<close>: the same state behind a lock that every call takes for its own length, so a call is
  the operation on the state the lock guards; its clones share that state. The storage restores it,
  applies to it and serialises it, the replicator reads it.\<close>

definition shared_new :: "'j HiveState" where
  "shared_new = hive_new"

definition shared_apply :: "timestamp \<Rightarrow> 'j ClusterCommand \<Rightarrow> 'j HiveState \<Rightarrow> 'j HiveState" where
  [simp]: "shared_apply now command inner = apply_command now command inner"

definition shared_snapshot :: "'j HiveState \<Rightarrow> 'j HiveState" where
  [simp]: "shared_snapshot inner = inner"

definition shared_to_cluster_view :: "NodeId option \<Rightarrow> u64 \<Rightarrow> 'j HiveState \<Rightarrow> 'j ClusterView" where
  [simp]: "shared_to_cluster_view leader_id term inner = to_cluster_view leader_id term inner"

definition shared_last_applied :: "'j HiveState \<Rightarrow> u64" where
  "shared_last_applied inner = hs_last_applied_index inner"

definition shared_restore :: "'j HiveState \<Rightarrow> 'j HiveState \<Rightarrow> 'j HiveState" where
  [simp]: "shared_restore state inner = state"

text \<open>A log of commands, each with the instant at which this replica applies it.\<close>

fun apply_log :: "(timestamp \<times> 'j ClusterCommand) list \<Rightarrow> 'j HiveState \<Rightarrow> 'j HiveState" where
  "apply_log [] s = s"
| "apply_log ((now, c) # cs) s = apply_log cs (apply_command now c s)"

lemma apply_log_append: "apply_log (xs @ ys) s = apply_log ys (apply_log xs s)"
  by (induction xs s rule: apply_log.induct) simp_all

section \<open>The invariant of the tables\<close>

definition hive_wf :: "'j HiveState \<Rightarrow> bool" where
  "hive_wf s \<longleftrightarrow> keyed ns_node_id (hs_nodes s) \<and> keyed tk_id (hs_tasks s)
     \<and> keyed at_id (hs_attachments s) \<and> keyed gl_id (hs_goals s)"

lemma hive_wf_new [simp, wf_intros]: "hive_wf hive_new"
  by (simp add: hive_wf_def hive_new_def)

lemma set_node_health_id [simp]: "ns_node_id (set_node_health h m now n) = ns_node_id n"
  by (simp add: set_node_health_def)

lemma set_task_status_fields [simp]:
  "tk_id (set_task_status st r now t) = tk_id t"
  "tk_status (set_task_status st r now t) = st"
  "tk_result (set_task_status st r now t) = r"
  "tk_target_node (set_task_status st r now t) = tk_target_node t"
  "tk_payload (set_task_status st r now t) = tk_payload t"
  by (simp_all add: set_task_status_def)

lemma hive_wf_apply [wf_intros]: "hive_wf s \<Longrightarrow> hive_wf (apply_command now c s)"
  by (cases c) (auto simp: hive_wf_def intro!: keyed_insert keyed_remove keyed_modify)

lemma hive_wf_apply_log [wf_intros]: "hive_wf s \<Longrightarrow> hive_wf (apply_log cs s)"
  by (induction cs s rule: apply_log.induct) (simp_all add: hive_wf_apply)

section \<open>The tables as finite maps\<close>

record 'j abs_hive =
  ah_nodes :: "NodeId \<rightharpoonup> NodeStatus"
  ah_tasks :: "TaskId \<rightharpoonup> 'j Task"
  ah_attachments :: "AttachmentId \<rightharpoonup> 'j Attachment"
  ah_goals :: "GoalId \<rightharpoonup> Goal"

definition hive_abs :: "'j HiveState \<Rightarrow> 'j abs_hive" where
  "hive_abs s = \<lparr>ah_nodes = hm_get (hs_nodes s), ah_tasks = hm_get (hs_tasks s),
     ah_attachments = hm_get (hs_attachments s), ah_goals = hm_get (hs_goals s)\<rparr>"

definition adjust :: "'k \<Rightarrow> ('v \<Rightarrow> 'v) \<Rightarrow> ('k \<rightharpoonup> 'v) \<Rightarrow> ('k \<rightharpoonup> 'v)" where
  "adjust k f m = m(k := map_option f (m k))"

fun abs_apply :: "timestamp \<Rightarrow> 'j ClusterCommand \<Rightarrow> 'j abs_hive \<Rightarrow> 'j abs_hive" where
  "abs_apply now (RegisterNode n) a = a\<lparr>ah_nodes := (ah_nodes a)(ns_node_id n \<mapsto> n)\<rparr>"
| "abs_apply now (UpdateNodeHealth i h m) a =
     a\<lparr>ah_nodes := adjust i (set_node_health h m now) (ah_nodes a)\<rparr>"
| "abs_apply now (RemoveNode i) a = a\<lparr>ah_nodes := (ah_nodes a)(i := None)\<rparr>"
| "abs_apply now (PutTask t) a = a\<lparr>ah_tasks := (ah_tasks a)(tk_id t \<mapsto> t)\<rparr>"
| "abs_apply now (UpdateTaskStatus i st r) a =
     a\<lparr>ah_tasks := adjust i (set_task_status st r now) (ah_tasks a)\<rparr>"
| "abs_apply now (PutAttachment x) a = a\<lparr>ah_attachments := (ah_attachments a)(at_id x \<mapsto> x)\<rparr>"
| "abs_apply now (RemoveAttachmentCmd i) a =
     a\<lparr>ah_attachments := (ah_attachments a)(i := None)\<rparr>"
| "abs_apply now (PutGoal g) a = a\<lparr>ah_goals := (ah_goals a)(gl_id g \<mapsto> g)\<rparr>"
| "abs_apply now (RemoveGoal i) a = a\<lparr>ah_goals := (ah_goals a)(i := None)\<rparr>"

lemma hm_get_insert_upd: "hm_get (hm_insert k v m) = (hm_get m)(k \<mapsto> v)"
  by (rule ext) simp

lemma hm_get_remove_upd: "hm_get (hm_remove k m) = (hm_get m)(k := None)"
  by (rule ext) simp

lemma hm_get_modify_upd: "hm_get (hm_modify k f m) = adjust k f (hm_get m)"
  by (rule ext) (simp add: adjust_def)

lemmas hm_get_upds = hm_get_insert_upd hm_get_remove_upd hm_get_modify_upd

lemma hive_abs_apply: "hive_abs (apply_command now c s) = abs_apply now c (hive_abs s)"
  by (cases c) (simp_all add: hive_abs_def hm_get_upds del: hm_get_simps hm_get_modify)

lemma hive_abs_apply_log:
  "hive_abs (apply_log cs s) = fold (\<lambda>(now, c). abs_apply now c) cs (hive_abs s)"
  by (induction cs s rule: apply_log.induct) (simp_all add: hive_abs_apply)

text \<open>States with the same abstraction are the same tables in another iteration order.\<close>

definition hive_equiv :: "'j HiveState \<Rightarrow> 'j HiveState \<Rightarrow> bool" where
  "hive_equiv s s' \<longleftrightarrow> hive_abs s = hive_abs s'"

lemma hive_equiv_refl [simp]: "hive_equiv s s"
  by (simp add: hive_equiv_def)

lemma hive_equiv_sym: "hive_equiv s s' \<Longrightarrow> hive_equiv s' s"
  by (simp add: hive_equiv_def)

lemma hive_equiv_trans: "hive_equiv a b \<Longrightarrow> hive_equiv b c \<Longrightarrow> hive_equiv a c"
  by (simp add: hive_equiv_def)

lemma hive_equiv_tables:
  "hive_equiv s s' \<longleftrightarrow> hm_equiv (hs_nodes s) (hs_nodes s') \<and> hm_equiv (hs_tasks s) (hs_tasks s')
     \<and> hm_equiv (hs_attachments s) (hs_attachments s') \<and> hm_equiv (hs_goals s) (hs_goals s')"
  by (auto simp: hive_equiv_def hive_abs_def hm_equiv_get fun_eq_iff)

lemma hive_equiv_apply:
  "hive_equiv s s' \<Longrightarrow> hive_equiv (apply_command now c s) (apply_command now c s')"
  by (simp add: hive_equiv_def hive_abs_apply)

lemma hive_equiv_apply_log: "hive_equiv s s' \<Longrightarrow> hive_equiv (apply_log cs s) (apply_log cs s')"
  by (simp add: hive_equiv_def hive_abs_apply_log)

section \<open>Agreement of replicas\<close>

text \<open>
  \<open>apply\<close> reads the replica's own clock, so replicas of one log differ in the two fields it
  stamps. \<open>erase_clock\<close> forgets exactly those.
\<close>

definition forget_heartbeat :: "NodeStatus \<Rightarrow> NodeStatus" where
  "forget_heartbeat n = n\<lparr>ns_last_heartbeat := 0\<rparr>"

definition forget_updated :: "'j Task \<Rightarrow> 'j Task" where
  "forget_updated t = t\<lparr>tk_updated_at := 0\<rparr>"

definition erase_clock :: "'j abs_hive \<Rightarrow> 'j abs_hive" where
  "erase_clock a =
     a\<lparr>ah_nodes := map_option forget_heartbeat \<circ> ah_nodes a,
       ah_tasks := map_option forget_updated \<circ> ah_tasks a\<rparr>"

lemma forget_set_node_health:
  assumes "forget_heartbeat n = forget_heartbeat n'"
  shows "forget_heartbeat (set_node_health h m t n) = forget_heartbeat (set_node_health h m t' n')"
  using assms by (cases n; cases n') (simp add: set_node_health_def forget_heartbeat_def)

lemma forget_set_task_status:
  assumes "forget_updated x = forget_updated x'"
  shows "forget_updated (set_task_status st r t x) = forget_updated (set_task_status st r t' x')"
  using assms by (cases x; cases x') (simp add: set_task_status_def forget_updated_def)

lemma erase_adjust:
  assumes "map_option g \<circ> m = map_option g \<circ> m'"
    and "\<And>v v'. g v = g v' \<Longrightarrow> g (f v) = g (f' v')"
  shows "map_option g \<circ> adjust k f m = map_option g \<circ> adjust k f' m'"
proof
  fix j
  have "map_option g (m j) = map_option g (m' j)" using assms(1) by (metis comp_apply)
  then show "(map_option g \<circ> adjust k f m) j = (map_option g \<circ> adjust k f' m') j"
    using assms(2) by (cases "m j"; cases "m' j") (auto simp: adjust_def)
qed

lemma erase_clock_eq:
  "erase_clock a = erase_clock b \<longleftrightarrow>
     map_option forget_heartbeat \<circ> ah_nodes a = map_option forget_heartbeat \<circ> ah_nodes b
     \<and> map_option forget_updated \<circ> ah_tasks a = map_option forget_updated \<circ> ah_tasks b
     \<and> ah_attachments a = ah_attachments b \<and> ah_goals a = ah_goals b"
  by (cases a; cases b) (auto simp: erase_clock_def)

lemma erase_clock_apply:
  assumes "erase_clock a = erase_clock b"
  shows "erase_clock (abs_apply t c a) = erase_clock (abs_apply t' c b)"
proof (cases c)
  case (UpdateNodeHealth i h m)
  then show ?thesis
    using assms erase_adjust [of forget_heartbeat "ah_nodes a" "ah_nodes b" "set_node_health h m t" "set_node_health h m t'",
        OF _ forget_set_node_health]
    by (simp add: erase_clock_eq)
next
  case (UpdateTaskStatus i st r)
  then show ?thesis
    using assms erase_adjust [of forget_updated "ah_tasks a" "ah_tasks b" "set_task_status st r t" "set_task_status st r t'",
        OF _ forget_set_task_status]
    by (simp add: erase_clock_eq)
qed (use assms in \<open>simp_all add: erase_clock_eq fun_upd_comp\<close>)

lemma erase_clock_apply_log:
  assumes "map snd cs = map snd cs'"
    and "erase_clock (hive_abs s) = erase_clock (hive_abs s')"
  shows "erase_clock (hive_abs (apply_log cs s)) = erase_clock (hive_abs (apply_log cs' s'))"
  using assms
proof (induction cs arbitrary: cs' s s')
  case Nil
  then show ?case by simp
next
  case (Cons e cs)
  then obtain t t' c ds where e: "e = (t, c)" "cs' = (t', c) # ds" "map snd cs = map snd ds"
    by (cases e) (auto simp: Cons_eq_map_conv)
  have "erase_clock (hive_abs (apply_command t c s)) = erase_clock (hive_abs (apply_command t' c s'))"
    unfolding hive_abs_apply by (rule erase_clock_apply [OF Cons.prems(2)])
  then show ?case using Cons.IH [OF e(3)] e by simp
qed

section \<open>Listings\<close>

lemma to_cluster_view_simps [simp]:
  "cv_nodes (to_cluster_view l t s) = hm_values (hs_nodes s)"
  "cv_tasks (to_cluster_view l t s) = hm_values (hs_tasks s)"
  "cv_attachments (to_cluster_view l t s) = hm_values (hs_attachments s)"
  "cv_goals (to_cluster_view l t s) = hm_values (hs_goals s)"
  "cv_leader_id (to_cluster_view l t s) = l"
  "cv_term (to_cluster_view l t s) = t"
  by (simp_all add: to_cluster_view_def)

lemma hive_wf_keyed:
  assumes "hive_wf s"
  shows "keyed ns_node_id (hs_nodes s)" "keyed tk_id (hs_tasks s)"
    "keyed at_id (hs_attachments s)" "keyed gl_id (hs_goals s)"
  using assms by (simp_all add: hive_wf_def)

lemma view_node_by_id: "hive_wf s \<Longrightarrow> node_by_id (to_cluster_view l t s) i = hm_get (hs_nodes s) i"
  by (simp add: node_by_id_def keyed_find hive_wf_keyed)

lemma view_find_task:
  "hive_wf s \<Longrightarrow> find (\<lambda>x. tk_id x = i) (cv_tasks (to_cluster_view l t s)) = hm_get (hs_tasks s) i"
  by (simp add: keyed_find hive_wf_keyed)

section \<open>What the log says\<close>

text \<open>The entries of a table read off the log, newest command first: the commands that decide the
  entry under an identifier, and the entry they leave, written out field by field.\<close>

fun puts_task :: "TaskId \<Rightarrow> 'j ClusterCommand \<Rightarrow> bool" where
  "puts_task i (PutTask t) \<longleftrightarrow> tk_id t = i"
| "puts_task i _ \<longleftrightarrow> False"

fun updates_task :: "TaskId \<Rightarrow> 'j ClusterCommand \<Rightarrow> bool" where
  "updates_task i (UpdateTaskStatus j st r) \<longleftrightarrow> j = i"
| "updates_task i _ \<longleftrightarrow> False"

fun seats_node :: "NodeId \<Rightarrow> 'j ClusterCommand \<Rightarrow> bool" where
  "seats_node i (RegisterNode n) \<longleftrightarrow> ns_node_id n = i"
| "seats_node i (RemoveNode j) \<longleftrightarrow> j = i"
| "seats_node i _ \<longleftrightarrow> False"

fun reports_node :: "NodeId \<Rightarrow> 'j ClusterCommand \<Rightarrow> bool" where
  "reports_node i (UpdateNodeHealth j h m) \<longleftrightarrow> j = i"
| "reports_node i _ \<longleftrightarrow> False"

fun places_attachment :: "AttachmentId \<Rightarrow> 'j ClusterCommand \<Rightarrow> bool" where
  "places_attachment i (PutAttachment a) \<longleftrightarrow> at_id a = i"
| "places_attachment i (RemoveAttachmentCmd j) \<longleftrightarrow> j = i"
| "places_attachment i _ \<longleftrightarrow> False"

fun places_goal :: "GoalId \<Rightarrow> 'j ClusterCommand \<Rightarrow> bool" where
  "places_goal i (PutGoal g) \<longleftrightarrow> gl_id g = i"
| "places_goal i (RemoveGoal j) \<longleftrightarrow> j = i"
| "places_goal i _ \<longleftrightarrow> False"

definition newest :: "('c \<Rightarrow> bool) \<Rightarrow> (timestamp \<times> 'c) list \<Rightarrow> (timestamp \<times> 'c) option" where
  "newest P cs = find (\<lambda>e. P (snd e)) (rev cs)"

definition since_newest :: "('c \<Rightarrow> bool) \<Rightarrow> (timestamp \<times> 'c) list \<Rightarrow> (timestamp \<times> 'c) list" where
  "since_newest P cs = rev (takeWhile (\<lambda>e. \<not> P (snd e)) (rev cs))"

lemma newest_simps [simp]:
  "newest P [] = None" "newest P (cs @ [e]) = (if P (snd e) then Some e else newest P cs)"
  by (simp_all add: newest_def)

lemma since_newest_simps [simp]:
  "since_newest P [] = []" "since_newest P (cs @ [e]) = (if P (snd e) then [] else since_newest P cs @ [e])"
  by (simp_all add: since_newest_def)

definition logged_task :: "(timestamp \<times> 'j ClusterCommand) list \<Rightarrow> TaskId \<Rightarrow> 'j Task option" where
  "logged_task cs i =
     (case newest (puts_task i) cs of
        Some (_, PutTask t) \<Rightarrow>
          (case newest (updates_task i) (since_newest (puts_task i) cs) of
             Some (now, UpdateTaskStatus _ st r) \<Rightarrow>
               Some \<lparr>tk_id = i, tk_target_node = tk_target_node t, tk_payload = tk_payload t, tk_status = st,
                 tk_priority = tk_priority t, tk_created_at = tk_created_at t, tk_updated_at = now, tk_result = r\<rparr>
           | _ \<Rightarrow> Some t)
      | _ \<Rightarrow> None)"

definition logged_node :: "(timestamp \<times> 'j ClusterCommand) list \<Rightarrow> NodeId \<Rightarrow> NodeStatus option" where
  "logged_node cs i =
     (case newest (seats_node i) cs of
        Some (_, RegisterNode n) \<Rightarrow>
          (case newest (reports_node i) (since_newest (seats_node i) cs) of
             Some (now, UpdateNodeHealth _ h m) \<Rightarrow>
               Some \<lparr>ns_node_id = i, ns_hostname = ns_hostname n, ns_tags = ns_tags n, ns_health = h,
                 ns_last_heartbeat = now, ns_cpu_usage = nm_cpu_usage m, ns_memory_usage = nm_memory_usage m,
                 ns_disk_usage = nm_disk_usage m\<rparr>
           | _ \<Rightarrow> Some n)
      | _ \<Rightarrow> None)"

definition logged_attachment :: "(timestamp \<times> 'j ClusterCommand) list \<Rightarrow> AttachmentId \<Rightarrow> 'j Attachment option" where
  "logged_attachment cs i = (case newest (places_attachment i) cs of Some (_, PutAttachment a) \<Rightarrow> Some a | _ \<Rightarrow> None)"

definition logged_goal :: "(timestamp \<times> 'j ClusterCommand) list \<Rightarrow> GoalId \<Rightarrow> Goal option" where
  "logged_goal cs i = (case newest (places_goal i) cs of Some (_, PutGoal g) \<Rightarrow> Some g | _ \<Rightarrow> None)"

lemma apply_log_snoc: "apply_log (cs @ [(now, c)]) s = apply_command now c (apply_log cs s)"
  by (simp add: apply_log_append)

text \<open>The newest command of a kind is of that kind.\<close>

lemma newest_task_cases:
  "newest (puts_task i) cs = None \<or> (\<exists>now t. newest (puts_task i) cs = Some (now, PutTask t) \<and> tk_id t = i)"
  "newest (updates_task i) cs = None \<or> (\<exists>now st r. newest (updates_task i) cs = Some (now, UpdateTaskStatus i st r))"
proof -
  show "newest (puts_task i) cs = None \<or> (\<exists>now t. newest (puts_task i) cs = Some (now, PutTask t) \<and> tk_id t = i)"
    by (induction cs rule: rev_induct) (auto elim: puts_task.elims)
  show "newest (updates_task i) cs = None \<or> (\<exists>now st r. newest (updates_task i) cs = Some (now, UpdateTaskStatus i st r))"
    by (induction cs rule: rev_induct) (auto elim: updates_task.elims)
qed

lemma newest_node_cases:
  "newest (seats_node i) cs = None \<or> (\<exists>now. newest (seats_node i) cs = Some (now, RemoveNode i))
     \<or> (\<exists>now n. newest (seats_node i) cs = Some (now, RegisterNode n) \<and> ns_node_id n = i)"
  "newest (reports_node i) cs = None \<or> (\<exists>now h m. newest (reports_node i) cs = Some (now, UpdateNodeHealth i h m))"
proof -
  show "newest (seats_node i) cs = None \<or> (\<exists>now. newest (seats_node i) cs = Some (now, RemoveNode i))
     \<or> (\<exists>now n. newest (seats_node i) cs = Some (now, RegisterNode n) \<and> ns_node_id n = i)"
    by (induction cs rule: rev_induct) (auto elim: seats_node.elims)
  show "newest (reports_node i) cs = None \<or> (\<exists>now h m. newest (reports_node i) cs = Some (now, UpdateNodeHealth i h m))"
    by (induction cs rule: rev_induct) (auto elim: reports_node.elims)
qed

lemma tasks_logged: "hm_get (hs_tasks (apply_log cs hive_new)) i = logged_task cs i"
proof (induction cs rule: rev_induct)
  case Nil
  show ?case by (simp add: logged_task_def hive_new_def hm_get_def)
next
  case (snoc e cs)
  obtain now c where e: "e = (now, c)" by fastforce
  from newest_task_cases(1) [of i cs] newest_task_cases(2) [of i "since_newest (puts_task i) cs"] snoc
  show ?case unfolding e apply_log_snoc
    by (cases c) (auto simp: logged_task_def set_task_status_def)
qed

lemma nodes_logged: "hm_get (hs_nodes (apply_log cs hive_new)) i = logged_node cs i"
proof (induction cs rule: rev_induct)
  case Nil
  show ?case by (simp add: logged_node_def hive_new_def hm_get_def)
next
  case (snoc e cs)
  obtain now c where e: "e = (now, c)" by fastforce
  from newest_node_cases(1) [of i cs] newest_node_cases(2) [of i "since_newest (seats_node i) cs"] snoc
  show ?case unfolding e apply_log_snoc
    by (cases c) (auto simp: logged_node_def set_node_health_def)
qed

lemma attachments_logged: "hm_get (hs_attachments (apply_log cs hive_new)) i = logged_attachment cs i"
proof (induction cs rule: rev_induct)
  case Nil
  show ?case by (simp add: logged_attachment_def hive_new_def hm_get_def)
next
  case (snoc e cs)
  then show ?case
    by (cases e; cases "snd e") (auto simp: logged_attachment_def apply_log_snoc)
qed

lemma goals_logged: "hm_get (hs_goals (apply_log cs hive_new)) i = logged_goal cs i"
proof (induction cs rule: rev_induct)
  case Nil
  show ?case by (simp add: logged_goal_def hive_new_def hm_get_def)
next
  case (snoc e cs)
  then show ?case
    by (cases e; cases "snd e") (auto simp: logged_goal_def apply_log_snoc)
qed

section \<open>Properties\<close>

text \<open>C40. In every state the log can lead to, each of the four tables stores every value under
  its own identifier and holds each identifier once.\<close>

theorem tables_stay_keyed: "hive_wf (apply_log cs hive_new)"
  by (simp add: hive_wf_apply_log)

text \<open>C8. The tables are what the log says. After any log of commands, each applied at its own instant,
  a lookup returns what can be read off the log: of a task the newest \<open>PutTask\<close> with its identifier,
  with the status, the result and the instant of the newest status update since; of a node its
  newest registration, unless it was removed since, with the health, the metrics and the instant
  of the newest report since; of an attachment and of a goal the newest that was put and not
  removed since. Nothing else in the log has an effect on the entry.\<close>

theorem tables_read_off_log:
  "hm_get (hs_tasks (apply_log cs hive_new)) i = logged_task cs i
    \<and> hm_get (hs_nodes (apply_log cs hive_new)) n = logged_node cs n
    \<and> hm_get (hs_attachments (apply_log cs hive_new)) a = logged_attachment cs a
    \<and> hm_get (hs_goals (apply_log cs hive_new)) g = logged_goal cs g"
  by (simp add: tasks_logged nodes_logged attachments_logged goals_logged)

text \<open>Two replicas that apply the same commands, each at its own instants, agree on
  everything but the two fields the code stamps from the local clock (\<open>last_heartbeat\<close> of a
  node, \<open>updated_at\<close> of a task).\<close>

theorem replicas_agree_up_to_clock:
  assumes "map snd cs = map snd cs'"
  shows "erase_clock (hive_abs (apply_log cs hive_new)) = erase_clock (hive_abs (apply_log cs' hive_new))"
  using assms by (rule erase_clock_apply_log) simp

theorem replicas_agree_up_to_clock_witness:
  "erase_clock (hive_abs (apply_log [(1, RemoveGoal ''g''), (2, RemoveNode ''n'')] hive_new)) =
   erase_clock (hive_abs (apply_log [(5, RemoveGoal ''g''), (9, RemoveNode ''n'' :: nat ClusterCommand)] hive_new))"
  by (rule replicas_agree_up_to_clock) simp

end
