(* ===== verification/Validator.thy ===== *)
theory Validator
  imports HiveState
begin

text \<open>
  The action validator of \<open>src/executor/validator.rs\<close>: the execution policy, its default, and
  \<open>ActionValidator::validate\<close> with its helper checks, each in the order the code runs them. An
  error is a value of \<open>validation_error\<close>, one constructor for each \<open>anyhow!\<close> of the file;
  \<open>validation_error_text\<close> is the message it formats.

  \<open>admissible\<close> is the policy read declaratively. The properties: the validator accepts exactly
  the admissible actions, whatever the order of the listings it is given; the path rules; which
  task payloads no policy admits; the task limit; and what the policy does not look at.
\<close>

record ExecutionPolicy =
  ep_allow_restart_services :: bool
  ep_allow_docker :: bool
  ep_allowed_sync_paths :: "string list"
  ep_blocked_sync_paths :: "string list"
  ep_require_approval_for_destructive :: bool
  ep_max_concurrent_tasks_per_node :: nat

definition execution_policy_default :: ExecutionPolicy where
  "execution_policy_default =
     \<lparr>ep_allow_restart_services = False, ep_allow_docker = False,
      ep_allowed_sync_paths = [''/home'', ''/data''],
      ep_blocked_sync_paths = [''/etc'', ''/var'', ''/usr'', ''/bin'', ''/sbin'', ''/root''],
      ep_require_approval_for_destructive = True, ep_max_concurrent_tasks_per_node = 5\<rparr>"

datatype validation_error =
    NodeNotFound string
  | TaskNotFound string
  | GoalNotFound string
  | AttachmentNotFound string
  | RestartNotAllowed
  | DockerNotAllowed
  | CommandNotAllowed string
  | CustomNotApproved string
  | PathBlocked string
  | PathNotAllowed string
  | DockerAttachmentNotAllowed
  | TooManyTasks string nat nat

definition quoted :: "string \<Rightarrow> string" where
  "quoted s = CHR 0x27 # s @ [CHR 0x27]"

fun validation_error_text :: "validation_error \<Rightarrow> string" where
  "validation_error_text (NodeNotFound i) = ''Node '' @ quoted i @ '' not found in cluster''"
| "validation_error_text (TaskNotFound i) = ''Task '' @ quoted i @ '' not found''"
| "validation_error_text (GoalNotFound i) = ''Goal '' @ quoted i @ '' not found''"
| "validation_error_text (AttachmentNotFound i) = ''Attachment '' @ quoted i @ '' not found''"
| "validation_error_text RestartNotAllowed = ''Policy: service restart not allowed''"
| "validation_error_text DockerNotAllowed = ''Policy: Docker execution not allowed''"
| "validation_error_text (CommandNotAllowed c) =
     ''Policy: arbitrary command execution not allowed: '' @ c"
| "validation_error_text (CustomNotApproved t) =
     ''Policy: custom tool '' @ quoted t @ '' not pre-approved''"
| "validation_error_text (PathBlocked p) = ''Policy: path '' @ quoted p @ '' is blocked''"
| "validation_error_text (PathNotAllowed p) =
     ''Policy: path '' @ quoted p @ '' not in allowed paths''"
| "validation_error_text DockerAttachmentNotAllowed = ''Policy: Docker attachments not allowed''"
| "validation_error_text (TooManyTasks i n k) =
     ''Policy: node '' @ quoted i @ '' has '' @ show_nat n @ '' active tasks (max: '' @ show_nat k @ '')''"

section \<open>The checks\<close>

definition validate_node_exists :: "string \<Rightarrow> 'j ClusterView \<Rightarrow> validation_error + unit" where
  "validate_node_exists i cluster =
     (if node_by_id cluster i = None then Err (NodeNotFound i) else Ok ())"

definition validate_task_exists :: "string \<Rightarrow> 'j ClusterView \<Rightarrow> validation_error + unit" where
  "validate_task_exists i cluster =
     (if \<not> list_ex (\<lambda>t. tk_id t = i) (cv_tasks cluster) then Err (TaskNotFound i) else Ok ())"

definition validate_goal_exists :: "string \<Rightarrow> 'j ClusterView \<Rightarrow> validation_error + unit" where
  "validate_goal_exists i cluster =
     (if \<not> list_ex (\<lambda>g. gl_id g = i) (cv_goals cluster) then Err (GoalNotFound i) else Ok ())"

definition validate_attachment_exists :: "string \<Rightarrow> 'j ClusterView \<Rightarrow> validation_error + unit" where
  "validate_attachment_exists i cluster =
     (if \<not> list_ex (\<lambda>a. at_id a = i) (cv_attachments cluster)
      then Err (AttachmentNotFound i) else Ok ())"

text \<open>The loop over the blocked prefixes returns at the first that matches.\<close>

fun check_blocked :: "string \<Rightarrow> string list \<Rightarrow> validation_error + unit" where
  "check_blocked path [] = Ok ()"
| "check_blocked path (b # bs) =
     (if starts_with path b then Err (PathBlocked path) else check_blocked path bs)"

definition validate_path_allowed :: "ExecutionPolicy \<Rightarrow> string \<Rightarrow> validation_error + unit" where
  "validate_path_allowed pol path =
     try_then (check_blocked path (ep_blocked_sync_paths pol)) (\<lambda>_.
       let allowed = ep_allowed_sync_paths pol = []
                     \<or> list_ex (\<lambda>p. starts_with path p) (ep_allowed_sync_paths pol)
       in if \<not> allowed then Err (PathNotAllowed path) else Ok ())"

fun validate_task_policy :: "ExecutionPolicy \<Rightarrow> 'j TaskPayload \<Rightarrow> validation_error + unit" where
  "validate_task_policy pol (Echo _) = Ok ()"
| "validate_task_policy pol (CheckService _) = Ok ()"
| "validate_task_policy pol (RestartService _) =
     (if \<not> ep_allow_restart_services pol then Err RestartNotAllowed else Ok ())"
| "validate_task_policy pol (DockerRun _ _) =
     (if \<not> ep_allow_docker pol then Err DockerNotAllowed else Ok ())"
| "validate_task_policy pol (SyncDirectory src dst) =
     try_then (validate_path_allowed pol src) (\<lambda>_.
     try_then (validate_path_allowed pol dst) (\<lambda>_. Ok ()))"
| "validate_task_policy pol (RunCommand command _) = Err (CommandNotAllowed command)"
| "validate_task_policy pol (CustomTask tool_id _) = Err (CustomNotApproved tool_id)"

fun validate_attachment_kind :: "ExecutionPolicy \<Rightarrow> 'j AttachmentKind \<Rightarrow> validation_error + unit" where
  "validate_attachment_kind pol (Directory path) = validate_path_allowed pol path"
| "validate_attachment_kind pol (File path) = validate_path_allowed pol path"
| "validate_attachment_kind pol (DockerContainer _) =
     (if \<not> ep_allow_docker pol then Err DockerAttachmentNotAllowed else Ok ())"
| "validate_attachment_kind pol (Service _ _) = Ok ()"
| "validate_attachment_kind pol (Webhook _) = Ok ()"
| "validate_attachment_kind pol (CustomAttachment _ _) = Ok ()"

definition counts_as_active :: "string \<Rightarrow> 'j Task \<Rightarrow> bool" where
  "counts_as_active i t \<longleftrightarrow>
     tk_target_node t = i \<and> (case tk_status t of Pending \<Rightarrow> True | Running \<Rightarrow> True | _ \<Rightarrow> False)"

definition active_tasks :: "string \<Rightarrow> 'j ClusterView \<Rightarrow> nat" where
  "active_tasks i cluster = length (filter (counts_as_active i) (cv_tasks cluster))"

definition validate_task_limit ::
  "ExecutionPolicy \<Rightarrow> string \<Rightarrow> 'j ClusterView \<Rightarrow> validation_error + unit" where
  "validate_task_limit pol i cluster =
     (let active = active_tasks i cluster in
      if active \<ge> ep_max_concurrent_tasks_per_node pol
      then Err (TooManyTasks i active (ep_max_concurrent_tasks_per_node pol)) else Ok ())"

fun validate :: "ExecutionPolicy \<Rightarrow> 'j BrainAction \<Rightarrow> 'j ClusterView \<Rightarrow> validation_error + unit" where
  "validate pol (ScheduleTask task target _) cluster =
     try_then (validate_node_exists target cluster) (\<lambda>_.
     try_then (validate_task_policy pol task) (\<lambda>_.
     try_then (validate_task_limit pol target cluster) (\<lambda>_. Ok ())))"
| "validate pol (RebalanceTask i to) cluster =
     try_then (validate_node_exists to cluster) (\<lambda>_.
     try_then (validate_task_exists i cluster) (\<lambda>_. Ok ()))"
| "validate pol (CancelTask i) cluster =
     try_then (validate_task_exists i cluster) (\<lambda>_. Ok ())"
| "validate pol (MarkNodeDegraded i _) cluster =
     try_then (validate_node_exists i cluster) (\<lambda>_. Ok ())"
| "validate pol (CreateAttachment i kind _) cluster =
     try_then (validate_node_exists i cluster) (\<lambda>_.
     try_then (validate_attachment_kind pol kind) (\<lambda>_. Ok ()))"
| "validate pol (RemoveAttachment i) cluster =
     try_then (validate_attachment_exists i cluster) (\<lambda>_. Ok ())"
| "validate pol (UpdateGoalProgress i _ _) cluster =
     try_then (validate_goal_exists i cluster) (\<lambda>_. Ok ())"
| "validate pol (RequestHumanApproval _ _) cluster = Ok ()"
| "validate pol (NoOp _) cluster = Ok ()"

section \<open>The policy, read declaratively\<close>

definition path_ok :: "ExecutionPolicy \<Rightarrow> string \<Rightarrow> bool" where
  "path_ok pol p \<longleftrightarrow> (\<forall>b \<in> set (ep_blocked_sync_paths pol). \<not> starts_with p b)
     \<and> (ep_allowed_sync_paths pol = [] \<or> (\<exists>a \<in> set (ep_allowed_sync_paths pol). starts_with p a))"

fun payload_ok :: "ExecutionPolicy \<Rightarrow> 'j TaskPayload \<Rightarrow> bool" where
  "payload_ok pol (SyncDirectory src dst) \<longleftrightarrow> path_ok pol src \<and> path_ok pol dst"
| "payload_ok pol (RestartService _) \<longleftrightarrow> ep_allow_restart_services pol"
| "payload_ok pol (DockerRun _ _) \<longleftrightarrow> ep_allow_docker pol"
| "payload_ok pol (RunCommand _ _) \<longleftrightarrow> False"
| "payload_ok pol (CustomTask _ _) \<longleftrightarrow> False"
| "payload_ok pol _ \<longleftrightarrow> True"

fun kind_ok :: "ExecutionPolicy \<Rightarrow> 'j AttachmentKind \<Rightarrow> bool" where
  "kind_ok pol (Directory p) \<longleftrightarrow> path_ok pol p"
| "kind_ok pol (File p) \<longleftrightarrow> path_ok pol p"
| "kind_ok pol (DockerContainer _) \<longleftrightarrow> ep_allow_docker pol"
| "kind_ok pol _ \<longleftrightarrow> True"

definition node_ids :: "'j ClusterView \<Rightarrow> string set" where
  "node_ids view = ns_node_id ` set (cv_nodes view)"

definition task_ids :: "'j ClusterView \<Rightarrow> string set" where
  "task_ids view = tk_id ` set (cv_tasks view)"

fun admissible :: "ExecutionPolicy \<Rightarrow> 'j ClusterView \<Rightarrow> 'j BrainAction \<Rightarrow> bool" where
  "admissible pol view (ScheduleTask task n _) \<longleftrightarrow>
     n \<in> node_ids view \<and> payload_ok pol task
     \<and> active_tasks n view < ep_max_concurrent_tasks_per_node pol"
| "admissible pol view (RebalanceTask i n) \<longleftrightarrow> n \<in> node_ids view \<and> i \<in> task_ids view"
| "admissible pol view (CancelTask i) \<longleftrightarrow> i \<in> task_ids view"
| "admissible pol view (MarkNodeDegraded n _) \<longleftrightarrow> n \<in> node_ids view"
| "admissible pol view (CreateAttachment n kind _) \<longleftrightarrow> n \<in> node_ids view \<and> kind_ok pol kind"
| "admissible pol view (RemoveAttachment i) \<longleftrightarrow> i \<in> at_id ` set (cv_attachments view)"
| "admissible pol view (UpdateGoalProgress i _ _) \<longleftrightarrow> i \<in> gl_id ` set (cv_goals view)"
| "admissible pol view (RequestHumanApproval _ _) \<longleftrightarrow> True"
| "admissible pol view (NoOp _) \<longleftrightarrow> True"

section \<open>Lemmas\<close>

lemma check_blocked_Ok: "is_ok (check_blocked p bs) \<longleftrightarrow> (\<forall>b \<in> set bs. \<not> starts_with p b)"
  by (induction p bs rule: check_blocked.induct) simp_all

lemma validate_path_allowed_Ok [simp]: "is_ok (validate_path_allowed pol p) \<longleftrightarrow> path_ok pol p"
  using check_blocked_Ok [of p "ep_blocked_sync_paths pol"]
  by (cases "check_blocked p (ep_blocked_sync_paths pol)")
    (auto simp: validate_path_allowed_def path_ok_def list_ex_iff Let_def)

lemma is_ok_try_unit [simp]:
  "is_ok (try_then r (\<lambda>_. s)) \<longleftrightarrow> is_ok r \<and> is_ok s" for r :: "'e + unit"
  by (cases r) simp_all

lemma validate_task_policy_Ok [simp]: "is_ok (validate_task_policy pol t) \<longleftrightarrow> payload_ok pol t"
  by (cases t) simp_all

lemma validate_attachment_kind_Ok [simp]: "is_ok (validate_attachment_kind pol k) \<longleftrightarrow> kind_ok pol k"
  by (cases k) simp_all

lemma validate_exists_Ok [simp]:
  "is_ok (validate_node_exists i v) \<longleftrightarrow> i \<in> node_ids v"
  "is_ok (validate_task_exists i v) \<longleftrightarrow> i \<in> task_ids v"
  "is_ok (validate_goal_exists i v) \<longleftrightarrow> i \<in> gl_id ` set (cv_goals v)"
  "is_ok (validate_attachment_exists i v) \<longleftrightarrow> i \<in> at_id ` set (cv_attachments v)"
  by (auto simp: validate_node_exists_def validate_task_exists_def validate_goal_exists_def
      validate_attachment_exists_def node_ids_def task_ids_def node_by_id_None list_ex_iff)

lemma validate_task_limit_Ok [simp]:
  "is_ok (validate_task_limit pol i v) \<longleftrightarrow> active_tasks i v < ep_max_concurrent_tasks_per_node pol"
  by (simp add: validate_task_limit_def Let_def)

lemma validate_is_ok: "is_ok (validate pol a v) \<longleftrightarrow> admissible pol v a"
  by (cases a) simp_all

lemma validate_Ok: "validate pol a v = Ok () \<longleftrightarrow> admissible pol v a"
  using validate_is_ok [of pol a v] by (simp add: is_ok_unit)

declare validate.simps [simp del]

lemma path_ok_not_blocked: "path_ok pol p \<Longrightarrow> b \<in> set (ep_blocked_sync_paths pol) \<Longrightarrow> p \<noteq> b @ t"
  by (auto simp: path_ok_def starts_with_append)

text \<open>Two views that list the same things in some order.\<close>

definition view_equiv :: "'j ClusterView \<Rightarrow> 'j ClusterView \<Rightarrow> bool" where
  "view_equiv v w \<longleftrightarrow> mset (cv_nodes v) = mset (cv_nodes w) \<and> mset (cv_tasks v) = mset (cv_tasks w)
     \<and> mset (cv_attachments v) = mset (cv_attachments w) \<and> mset (cv_goals v) = mset (cv_goals w)"

lemma view_equiv_sets:
  assumes "view_equiv v w"
  shows "set (cv_nodes v) = set (cv_nodes w)" "set (cv_tasks v) = set (cv_tasks w)"
    "set (cv_attachments v) = set (cv_attachments w)" "set (cv_goals v) = set (cv_goals w)"
  using assms by (auto simp: view_equiv_def dest: mset_eq_setD)

lemma view_equiv_checks:
  assumes "view_equiv v w"
  shows "validate_node_exists i v = validate_node_exists i w"
    and "validate_task_exists i v = validate_task_exists i w"
    and "validate_goal_exists i v = validate_goal_exists i w"
    and "validate_attachment_exists i v = validate_attachment_exists i w"
    and "validate_task_limit pol i v = validate_task_limit pol i w"
proof -
  note sets = view_equiv_sets [OF assms]
  show "validate_node_exists i v = validate_node_exists i w"
    by (simp add: validate_node_exists_def node_by_id_None sets)
  show "validate_task_exists i v = validate_task_exists i w"
    "validate_goal_exists i v = validate_goal_exists i w"
    "validate_attachment_exists i v = validate_attachment_exists i w"
    by (simp_all add: validate_task_exists_def validate_goal_exists_def
        validate_attachment_exists_def list_ex_iff sets)
  have "active_tasks i v = active_tasks i w"
    using assms unfolding active_tasks_def view_equiv_def by (blast intro: length_filter_perm)
  then show "validate_task_limit pol i v = validate_task_limit pol i w"
    by (simp add: validate_task_limit_def)
qed

lemma validate_view_equiv:
  assumes "view_equiv v w"
  shows "validate pol a v = validate pol a w"
  using view_equiv_checks [OF assms] by (cases a) (simp_all add: validate.simps)

lemma hive_equiv_views:
  assumes "hive_wf s" "hive_wf s'" "hive_equiv s s'"
  shows "view_equiv (to_cluster_view l t s) (to_cluster_view l' t' s')"
  using assms
  by (auto simp: view_equiv_def hive_equiv_tables hive_wf_def
      intro: hm_equiv_mset [OF keyed_hm_ok keyed_hm_ok])

text \<open>One policy permits no more than another. An empty allow-list permits every path.\<close>

definition policy_le :: "ExecutionPolicy \<Rightarrow> ExecutionPolicy \<Rightarrow> bool" where
  "policy_le p q \<longleftrightarrow>
     (ep_allow_restart_services p \<longrightarrow> ep_allow_restart_services q)
     \<and> (ep_allow_docker p \<longrightarrow> ep_allow_docker q)
     \<and> set (ep_blocked_sync_paths q) \<subseteq> set (ep_blocked_sync_paths p)
     \<and> (ep_allowed_sync_paths q = []
        \<or> ep_allowed_sync_paths p \<noteq> [] \<and> set (ep_allowed_sync_paths p) \<subseteq> set (ep_allowed_sync_paths q))
     \<and> ep_max_concurrent_tasks_per_node p \<le> ep_max_concurrent_tasks_per_node q"

lemma path_ok_mono: "policy_le p q \<Longrightarrow> path_ok p x \<Longrightarrow> path_ok q x"
  by (auto simp: policy_le_def path_ok_def)

lemma payload_ok_mono: "policy_le p q \<Longrightarrow> payload_ok p t \<Longrightarrow> payload_ok q t"
  by (cases t) (auto simp: policy_le_def intro: path_ok_mono [unfolded policy_le_def])

lemma kind_ok_mono: "policy_le p q \<Longrightarrow> kind_ok p k \<Longrightarrow> kind_ok q k"
  by (cases k) (auto simp: policy_le_def intro: path_ok_mono [unfolded policy_le_def])

lemma policy_le_max:
  "policy_le p q \<Longrightarrow> ep_max_concurrent_tasks_per_node p \<le> ep_max_concurrent_tasks_per_node q"
  by (simp add: policy_le_def)

lemma admissible_mono: "policy_le p q \<Longrightarrow> admissible p v a \<Longrightarrow> admissible q v a"
  by (cases a) (auto intro: payload_ok_mono kind_ok_mono dest: policy_le_max)

section \<open>Properties\<close>

text \<open>A small cluster for the witnesses: one node, one pending task on it.\<close>

definition demo_node :: NodeStatus where
  "demo_node = \<lparr>ns_node_id = ''node-1'', ns_hostname = ''host1'', ns_tags = [], ns_health = Healthy,
     ns_last_heartbeat = 0, ns_cpu_usage = 0, ns_memory_usage = 0, ns_disk_usage = 0\<rparr>"

definition demo_task :: "string \<Rightarrow> TaskStatus \<Rightarrow> unit Task" where
  "demo_task i st = \<lparr>tk_id = i, tk_target_node = ''node-1'', tk_payload = Echo ''hi'', tk_status = st,
     tk_priority = 5, tk_created_at = 0, tk_updated_at = 0, tk_result = None\<rparr>"

definition demo_view :: "unit Task list \<Rightarrow> unit ClusterView" where
  "demo_view ts = \<lparr>cv_nodes = [demo_node], cv_tasks = ts, cv_attachments = [], cv_goals = [],
     cv_leader_id = None, cv_term = 0\<rparr>"

lemmas demo_defs = demo_node_def demo_task_def demo_view_def node_ids_def task_ids_def
  active_tasks_def counts_as_active_def path_ok_def starts_with_def execution_policy_default_def

text \<open>C7. The validator accepts exactly the actions the policy admits in the given view: every
  node, task, goal or attachment the action refers to exists, the payload or the attachment kind is
  allowed, and the target of a new task has fewer pending or running tasks than the limit.\<close>

theorem validate_iff_admissible: "validate pol a v = Ok () \<longleftrightarrow> admissible pol v a"
  by (rule validate_Ok)

text \<open>No policy, however permissive, lets an arbitrary command or a custom tool through: such
  a task is refused with an error on every cluster view.\<close>

theorem command_never_admitted:
  "validate pol (ScheduleTask (RunCommand c args) n pr) v \<noteq> Ok ()
   \<and> validate pol (ScheduleTask (CustomTask t j) n pr) v \<noteq> Ok ()"
  by (simp add: validate_Ok)

text \<open>A directory synchronisation the validator accepts touches no path that extends a blocked
  prefix, on either side, and (with a non-empty allow-list) both paths extend an allowed one.\<close>

theorem sync_respects_paths:
  assumes "validate pol (ScheduleTask (SyncDirectory src dst) n pr) v = Ok ()"
  shows "(\<forall>b rest. b \<in> set (ep_blocked_sync_paths pol) \<longrightarrow> src \<noteq> b @ rest \<and> dst \<noteq> b @ rest)
    \<and> (ep_allowed_sync_paths pol = []
       \<or> (\<exists>a r a' r'. a \<in> set (ep_allowed_sync_paths pol) \<and> src = a @ r
            \<and> a' \<in> set (ep_allowed_sync_paths pol) \<and> dst = a' @ r'))"
proof -
  from assms have "path_ok pol src" "path_ok pol dst" by (simp_all add: validate_Ok)
  then show ?thesis unfolding path_ok_def starts_with_append by blast
qed

theorem sync_respects_paths_witness:
  "''/home/u'' \<noteq> ''/etc'' @ ''/x'' \<and>
   validate execution_policy_default
     (ScheduleTask (SyncDirectory ''/home/u'' ''/data/b'') ''node-1'' 5) (demo_view []) = Ok ()"
proof -
  have ok: "validate execution_policy_default
      (ScheduleTask (SyncDirectory ''/home/u'' ''/data/b'') ''node-1'' 5) (demo_view []) = Ok ()"
    by (simp add: validate_Ok demo_defs)
  have "''/etc'' \<in> set (ep_blocked_sync_paths execution_policy_default)"
    by (simp add: execution_policy_default_def)
  with sync_respects_paths [OF ok] have "''/home/u'' \<noteq> ''/etc'' @ ''/x''" by blast
  with ok show ?thesis by simp
qed

text \<open>The verdict, with its error and the numbers in it, depends only on what the view lists
  and not on the order in which a hash table happened to list it.\<close>

theorem verdict_ignores_listing_order:
  assumes "view_equiv v w"
  shows "validate pol a v = validate pol a w"
  using assms by (rule validate_view_equiv)

theorem verdict_ignores_listing_order_witness:
  "validate execution_policy_default (ScheduleTask (Echo ''x'') ''node-1'' 1)
     (demo_view [demo_task ''a'' Pending, demo_task ''b'' Running]) =
   validate execution_policy_default (ScheduleTask (Echo ''x'') ''node-1'' 1)
     (demo_view [demo_task ''b'' Running, demo_task ''a'' Pending])"
  by (rule verdict_ignores_listing_order) (simp add: view_equiv_def demo_view_def)

text \<open>Tightening a policy never admits more: if one policy grants no more than another, what
  it accepts the other accepts too. (An empty allow-list counts as the widest one.)\<close>

theorem tighter_policy_admits_less:
  assumes "policy_le p q" and "validate p a v = Ok ()"
  shows "validate q a v = Ok ()"
  using assms admissible_mono by (simp add: validate_Ok)

theorem tighter_policy_admits_less_witness:
  "validate (execution_policy_default\<lparr>ep_allow_docker := True\<rparr>)
     (CreateAttachment ''node-1'' (Directory ''/data/x'') []) (demo_view []) = Ok ()"
  by (rule tighter_policy_admits_less [of execution_policy_default])
    (simp_all add: policy_le_def validate_Ok demo_defs)

text \<open>The setting \<open>require_approval_for_destructive\<close> changes no verdict of the validator.\<close>

theorem approval_setting_ignored:
  "validate (pol\<lparr>ep_require_approval_for_destructive := b\<rparr>) a v = validate pol a v"
proof -
  let ?q = "pol\<lparr>ep_require_approval_for_destructive := b\<rparr>"
  have path: "validate_path_allowed ?q = validate_path_allowed pol"
    by (rule ext) (simp add: validate_path_allowed_def)
  have "validate_task_policy ?q t = validate_task_policy pol t" for t :: "'a TaskPayload"
    by (cases t) (simp_all add: path)
  moreover have "validate_attachment_kind ?q k = validate_attachment_kind pol k"
    for k :: "'a AttachmentKind"
    by (cases k) (simp_all add: path)
  ultimately show ?thesis
    by (cases a) (simp_all add: validate.simps validate_task_limit_def Let_def)
qed

text \<open>
  The path rules compare strings, so a path that leaves an allowed directory by \<open>..\<close> passes them:
  the default policy accepts a synchronisation from \<open>/home/../etc\<close>, whose target it blocks.
\<close>

lemma parent_components_escape_policy:
  "validate execution_policy_default
     (ScheduleTask (SyncDirectory ''/home/../etc'' ''/data'') ''node-1'' 5) (demo_view []) = Ok ()
   \<and> validate execution_policy_default
     (ScheduleTask (SyncDirectory ''/etc'' ''/data'') ''node-1'' 5) (demo_view [])
     = Err (PathBlocked ''/etc'')"
proof
  show "validate execution_policy_default
     (ScheduleTask (SyncDirectory ''/home/../etc'' ''/data'') ''node-1'' 5) (demo_view []) = Ok ()"
    by (simp add: validate_Ok demo_defs)
  show "validate execution_policy_default
     (ScheduleTask (SyncDirectory ''/etc'' ''/data'') ''node-1'' 5) (demo_view [])
     = Err (PathBlocked ''/etc'')"
    by (simp add: validate.simps validate_node_exists_def validate_path_allowed_def node_by_id_def
        demo_defs)
qed

end
