(* ===== verification/Config.thy ===== *)
theory Config
  imports Planner Validator
begin

text \<open>
  The configuration of a node, \<open>src/config.rs\<close>: the settings with their defaults and what the
  daemon derives from them. The environment variable of the API key, the name the operating system
  gives the host and the identifier \<open>Uuid::new_v4()\<close> makes are arguments; the TOML text of a
  configuration belongs to serde, so \<open>load\<close> and \<open>save\<close> take it as the parameter \<open>toml_api\<close>, and
  files are a map from paths to contents.
\<close>

record PeerConfig =
  pc_node_id :: string
  pc_addr :: string
  pc_is_voter :: bool

record LlmSettings =
  ls_enabled :: bool
  ls_api_base :: "string option"
  ls_api_key_env :: string
  ls_model :: string
  ls_max_tokens :: u16
  ls_temperature :: f32

record PolicySettings =
  ps_allow_restart_services :: bool
  ps_allow_docker :: bool
  ps_allowed_sync_paths :: "string list"
  ps_blocked_sync_paths :: "string list"
  ps_require_approval_for_destructive :: bool
  ps_max_concurrent_tasks_per_node :: nat

record NodeConfig =
  cf_node_id :: "string option"
  cf_hostname :: "string option"
  cf_tags :: "string list"
  cf_bind_addr :: string
  cf_bind_port :: u16
  cf_data_dir :: string
  cf_peers :: "PeerConfig list"
  cf_llm :: LlmSettings
  cf_policy :: PolicySettings
  cf_heartbeat_interval_secs :: u64
  cf_planning_interval_secs :: u64

section \<open>Defaults\<close>

text \<open>The temperature \<open>0.1\<close> is stored as the nearest 32-bit float.\<close>

definition llm_settings_default :: LlmSettings where
  "llm_settings_default =
     \<lparr>ls_enabled = False, ls_api_base = None, ls_api_key_env = ''OPENAI_API_KEY'',
      ls_model = ''gpt-4o-mini'', ls_max_tokens = 2048, ls_temperature = 0x3DCCCCCD\<rparr>"

definition policy_settings_default :: PolicySettings where
  "policy_settings_default =
     \<lparr>ps_allow_restart_services = False, ps_allow_docker = False,
      ps_allowed_sync_paths = [''/home'', ''/data''],
      ps_blocked_sync_paths = [''/etc'', ''/var'', ''/usr'', ''/bin'', ''/sbin'', ''/root''],
      ps_require_approval_for_destructive = True, ps_max_concurrent_tasks_per_node = 5\<rparr>"

definition node_config_default :: NodeConfig where
  "node_config_default =
     \<lparr>cf_node_id = None, cf_hostname = None, cf_tags = [], cf_bind_addr = ''0.0.0.0'',
      cf_bind_port = 9000, cf_data_dir = ''/var/lib/flockmind'', cf_peers = [],
      cf_llm = llm_settings_default, cf_policy = policy_settings_default,
      cf_heartbeat_interval_secs = 10, cf_planning_interval_secs = 30\<rparr>"

section \<open>Derived settings\<close>

text \<open>\<open>getenv\<close> is \<open>std::env::var\<close>; a variable that is not set, or not Unicode, counts as empty.\<close>

definition to_llm_config :: "(string \<Rightarrow> string option) \<Rightarrow> LlmSettings \<Rightarrow> LlmConfig" where
  "to_llm_config getenv s =
     (let api_key = (case getenv (ls_api_key_env s) of Some k \<Rightarrow> k | None \<Rightarrow> [])
      in \<lparr>lc_api_key = api_key, lc_api_base = ls_api_base s, lc_model = ls_model s,
          lc_max_tokens = ls_max_tokens s, lc_temperature = ls_temperature s\<rparr>)"

definition to_execution_policy :: "PolicySettings \<Rightarrow> ExecutionPolicy" where
  "to_execution_policy s =
     \<lparr>ep_allow_restart_services = ps_allow_restart_services s, ep_allow_docker = ps_allow_docker s,
      ep_allowed_sync_paths = ps_allowed_sync_paths s, ep_blocked_sync_paths = ps_blocked_sync_paths s,
      ep_require_approval_for_destructive = ps_require_approval_for_destructive s,
      ep_max_concurrent_tasks_per_node = ps_max_concurrent_tasks_per_node s\<rparr>"

definition effective_node_id :: "string \<Rightarrow> NodeConfig \<Rightarrow> string" where
  "effective_node_id uuid c = (case cf_node_id c of Some i \<Rightarrow> i | None \<Rightarrow> uuid)"

text \<open>\<open>os_hostname\<close> is what \<open>hostname::get\<close> returns, made printable; None when it fails.\<close>

definition effective_hostname :: "string option \<Rightarrow> NodeConfig \<Rightarrow> string" where
  "effective_hostname os_hostname c =
     (case cf_hostname c of Some h \<Rightarrow> h
      | None \<Rightarrow> (case os_hostname of Some h \<Rightarrow> h | None \<Rightarrow> ''unknown''))"

definition listen_addr :: "NodeConfig \<Rightarrow> string" where
  "listen_addr c = cf_bind_addr c @ '':'' @ show_nat (unat (cf_bind_port c))"

section \<open>Files\<close>

text \<open>The TOML text of a configuration and the files, over a world \<open>'w\<close>. A path is printed as
  \<open>{:?}\<close> prints it, by \<open>tm_debug\<close>.\<close>

record 'w toml_api =
  tm_render :: "NodeConfig \<Rightarrow> string + string"
  tm_parse :: "string \<Rightarrow> string + NodeConfig"
  tm_read :: "string \<Rightarrow> 'w \<Rightarrow> string + string"
  tm_write :: "string \<Rightarrow> string \<Rightarrow> 'w \<Rightarrow> (string + unit) \<times> 'w"
  tm_exists :: "string \<Rightarrow> 'w \<Rightarrow> bool"
  tm_debug :: "string \<Rightarrow> string"

datatype config_error = ConfigIo string | ConfigToml string | ConfigExists string

fun config_error_text :: "config_error \<Rightarrow> string" where
  "config_error_text (ConfigIo e) = e"
| "config_error_text (ConfigToml e) = e"
| "config_error_text (ConfigExists p) = ''Config file already exists: '' @ p"

definition config_load :: "'w toml_api \<Rightarrow> string \<Rightarrow> 'w \<Rightarrow> config_error + NodeConfig" where
  "config_load T path w =
     try_then (map_err ConfigIo (tm_read T path w)) (\<lambda>content.
       map_err ConfigToml (tm_parse T content))"

definition config_save ::
  "'w toml_api \<Rightarrow> NodeConfig \<Rightarrow> string \<Rightarrow> 'w \<Rightarrow> (config_error + unit) \<times> 'w" where
  "config_save T c path w =
     st_then (map_err ConfigToml (tm_render T c), w) (\<lambda>content w.
       st_map_err ConfigIo (tm_write T path content w))"

text \<open>The command \<open>init\<close> of \<open>src/main.rs\<close>, and the configuration its command \<open>run\<close> starts with.\<close>

definition init_config :: "'w toml_api \<Rightarrow> string \<Rightarrow> 'w \<Rightarrow> (config_error + unit) \<times> 'w" where
  "init_config T path w =
     (if tm_exists T path w then (Err (ConfigExists (tm_debug T path)), w)
      else st_then (config_save T node_config_default path w) (\<lambda>_ w. (Ok (), w)))"

definition run_config :: "'w toml_api \<Rightarrow> string \<Rightarrow> 'w \<Rightarrow> config_error + NodeConfig" where
  "run_config T path w =
     (if tm_exists T path w then config_load T path w else Ok node_config_default)"

section \<open>Lemmas\<close>

text \<open>The two declarations of the default policy and of the default model agree.\<close>

lemma default_policy: "to_execution_policy policy_settings_default = execution_policy_default"
  by (simp add: to_execution_policy_def policy_settings_default_def execution_policy_default_def)

lemma default_llm: "getenv ''OPENAI_API_KEY'' = None \<Longrightarrow>
    to_llm_config getenv llm_settings_default = llm_config_default"
  by (simp add: to_llm_config_def llm_settings_default_def llm_config_default_def)

text \<open>An existing file is never overwritten by \<open>init\<close>.\<close>

lemma init_keeps_existing:
  "tm_exists T path w \<Longrightarrow> init_config T path w = (Err (ConfigExists (tm_debug T path)), w)"
  by (simp add: init_config_def)

end
