(* ===== verification/Replicator.thy ===== *)
theory Replicator
  imports Validator
begin

text \<open>
  The trait \<open>Replicator\<close> of \<open>src/replicator/mod.rs\<close> and what its clients rely on. A replicator is
  a record of operations on a world \<open>'w\<close>; every call returns the world as it is when the call
  returns, with what the rest of the cluster has done meanwhile.

  Replicas apply one log at different instants (see \<open>HiveState\<close>), so states are compared up to
  the two fields stamped from the local clock: \<open>evolves cs s s'\<close> says that \<open>s'\<close> is \<open>s\<close> after the
  commands \<open>cs\<close>, up to those fields and the iteration order of the tables. The locale
  \<open>replicator\<close> is the contract under interference: a snapshot shows the local state, a write that
  succeeds has committed the command once, among others, and one that fails may have. \<open>quiet_replicator\<close> is the contract when
  nobody else writes.
\<close>

datatype replicator_error =
    WriteFailed string
  | PeerIdInvalid IntErrorKind
  | MembershipFailed string

fun int_error_text :: "IntErrorKind \<Rightarrow> string" where
  "int_error_text EmptyNumber = ''cannot parse integer from empty string''"
| "int_error_text InvalidDigit = ''invalid digit found in string''"
| "int_error_text PosOverflow = ''number too large to fit in target type''"

fun replicator_error_text :: "replicator_error \<Rightarrow> string" where
  "replicator_error_text (WriteFailed e) = ''Raft write failed: '' @ e"
| "replicator_error_text (PeerIdInvalid k) = int_error_text k"
| "replicator_error_text (MembershipFailed e) = e"

record ('j, 'w) replicator_api =
  rp_apply :: "'j ClusterCommand \<Rightarrow> 'w \<Rightarrow> (replicator_error + unit) \<times> 'w"
  rp_snapshot :: "'w \<Rightarrow> 'j ClusterView \<times> 'w"
  rp_is_leader :: "'w \<Rightarrow> bool \<times> 'w"
  rp_leader_id :: "'w \<Rightarrow> NodeId option \<times> 'w"
  rp_add_peer :: "PeerInfo \<Rightarrow> 'w \<Rightarrow> (replicator_error + unit) \<times> 'w"

section \<open>Evolution of a state under commands\<close>

definition evolves :: "'j ClusterCommand list \<Rightarrow> 'j HiveState \<Rightarrow> 'j HiveState \<Rightarrow> bool" where
  "evolves cs s s' \<longleftrightarrow> (hive_wf s \<longrightarrow> hive_wf s')
     \<and> erase_clock (hive_abs s') = erase_clock (hive_abs (apply_log (map (Pair 0) cs) s))"

lemma evolves_apply_log: "evolves (map snd log) s (apply_log log s)"
  unfolding evolves_def by (auto intro: hive_wf_apply_log erase_clock_apply_log simp: comp_def)

lemma evolves_command: "evolves [c] s (apply_command now c s)"
  using evolves_apply_log [of "[(now, c)]" s] by simp

lemma evolves_refl [simp]: "evolves [] s s"
  by (simp add: evolves_def)

lemma evolves_trans:
  assumes "evolves cs a b" and "evolves ds b c"
  shows "evolves (cs @ ds) a c"
proof -
  have "erase_clock (hive_abs (apply_log (map (Pair 0) ds) b)) =
      erase_clock (hive_abs (apply_log (map (Pair 0) ds) (apply_log (map (Pair 0) cs) a)))"
    using assms(1) by (intro erase_clock_apply_log) (simp_all add: evolves_def)
  with assms show ?thesis by (simp add: evolves_def apply_log_append)
qed

lemma evolves_wf: "evolves cs s s' \<Longrightarrow> hive_wf s \<Longrightarrow> hive_wf s'"
  by (simp add: evolves_def)

lemma evolves_equiv: "hive_equiv s s' \<Longrightarrow> (hive_wf s \<longrightarrow> hive_wf s') \<Longrightarrow> evolves [] s s'"
  by (simp add: evolves_def hive_equiv_def)

text \<open>What a state says of one task, one goal, one attachment, one node, up to the clock.\<close>

definition task_of :: "'j HiveState \<Rightarrow> TaskId \<Rightarrow> 'j Task option" where
  "task_of s i = map_option forget_updated (hm_get (hs_tasks s) i)"

definition node_of :: "'j HiveState \<Rightarrow> NodeId \<Rightarrow> NodeStatus option" where
  "node_of s i = map_option forget_heartbeat (hm_get (hs_nodes s) i)"

definition same_hive :: "'j HiveState \<Rightarrow> 'j HiveState \<Rightarrow> bool" where
  "same_hive s s' \<longleftrightarrow> erase_clock (hive_abs s) = erase_clock (hive_abs s')"

lemma same_hive_lookups:
  "same_hive s s' \<longleftrightarrow> (\<forall>i. task_of s i = task_of s' i) \<and> (\<forall>i. node_of s i = node_of s' i)
     \<and> (\<forall>i. hm_get (hs_attachments s) i = hm_get (hs_attachments s') i)
     \<and> (\<forall>i. hm_get (hs_goals s) i = hm_get (hs_goals s') i)"
  by (auto simp: same_hive_def erase_clock_eq hive_abs_def task_of_def node_of_def fun_eq_iff)

lemma evolves_same: "evolves cs s s' \<Longrightarrow> same_hive s' (apply_log (map (Pair 0) cs) s)"
  by (simp add: evolves_def same_hive_def)

lemma evolves_none_same: "evolves [] s s' \<Longrightarrow> same_hive s' s"
  by (simp add: evolves_def same_hive_def)

lemma forget_updated_keeps [simp]:
  "tk_id (forget_updated t) = tk_id t" "tk_target_node (forget_updated t) = tk_target_node t"
  "tk_status (forget_updated t) = tk_status t" "tk_payload (forget_updated t) = tk_payload t"
  "tk_result (forget_updated t) = tk_result t" "tk_priority (forget_updated t) = tk_priority t"
  by (simp_all add: forget_updated_def)

lemma forget_heartbeat_keeps [simp]:
  "ns_node_id (forget_heartbeat n) = ns_node_id n" "ns_health (forget_heartbeat n) = ns_health n"
  by (simp_all add: forget_heartbeat_def)

lemma task_of_apply:
  "task_of (apply_command now c s) i =
     (case c of
        PutTask t \<Rightarrow> if i = tk_id t then Some (forget_updated t) else task_of s i
      | UpdateTaskStatus j st r \<Rightarrow>
          if i = j then map_option (\<lambda>t. t\<lparr>tk_status := st, tk_result := r\<rparr>) (task_of s i)
          else task_of s i
      | _ \<Rightarrow> task_of s i)"
  by (cases c) (auto simp: task_of_def option.map_comp comp_def set_task_status_def forget_updated_def
      intro!: option.map_cong)

text \<open>The commands that can change what a state says of a task.\<close>

fun touches_task :: "TaskId \<Rightarrow> 'j ClusterCommand \<Rightarrow> bool" where
  "touches_task i (PutTask t) \<longleftrightarrow> tk_id t = i"
| "touches_task i (UpdateTaskStatus j _ _) \<longleftrightarrow> j = i"
| "touches_task i _ \<longleftrightarrow> False"

lemma task_of_untouched: "\<not> touches_task i c \<Longrightarrow> task_of (apply_command now c s) i = task_of s i"
  unfolding task_of_apply by (cases c) auto

lemma task_of_untouched_log:
  "\<forall>c \<in> set (map snd log). \<not> touches_task i c \<Longrightarrow> task_of (apply_log log s) i = task_of s i"
  by (induction log s rule: apply_log.induct) (simp_all add: task_of_untouched)

section \<open>Verdicts on states\<close>

definition state_verdict ::
  "ExecutionPolicy \<Rightarrow> 'j BrainAction \<Rightarrow> 'j HiveState \<Rightarrow> validation_error + unit" where
  "state_verdict pol a s = validate pol a (to_cluster_view None 0 s)"

text \<open>Leader and term of a view do not matter to the validator.\<close>

lemma validate_state: "validate pol a (to_cluster_view l t s) = state_verdict pol a s"
  unfolding state_verdict_def by (rule validate_view_equiv) (simp add: view_equiv_def)

definition active_on :: "NodeId \<Rightarrow> 'j HiveState \<Rightarrow> nat" where
  "active_on n s = active_tasks n (to_cluster_view None 0 s)"

lemma active_on_view: "active_tasks n (to_cluster_view l t s) = active_on n s"
  by (simp add: active_on_def active_tasks_def)

lemma counts_as_active_forget [simp]: "counts_as_active n (forget_updated t) = counts_as_active n t"
  by (simp add: counts_as_active_def)

lemma active_on_keys:
  "hive_wf s \<Longrightarrow> active_on n s = card {i. \<exists>t. task_of s i = Some t \<and> counts_as_active n t}"
proof -
  assume "hive_wf s"
  then have "hm_ok (hs_tasks s)" by (rule keyed_hm_ok [OF hive_wf_keyed(2)])
  from hm.count_values [OF this, of "counts_as_active n"]
  have "active_on n s = card {i. \<exists>t. hm_get (hs_tasks s) i = Some t \<and> counts_as_active n t}"
    by (simp add: active_on_def active_tasks_def hm_values_def hm.keys_where_def)
  also have "{i. \<exists>t. hm_get (hs_tasks s) i = Some t \<and> counts_as_active n t} =
      {i. \<exists>t. task_of s i = Some t \<and> counts_as_active n t}"
    by (auto simp: task_of_def)
  finally show ?thesis .
qed

lemma active_on_same: "same_hive s s' \<Longrightarrow> hive_wf s \<Longrightarrow> hive_wf s' \<Longrightarrow> active_on n s = active_on n s'"
  by (simp add: active_on_keys same_hive_lookups)

lemma state_ids:
  assumes "hive_wf s"
  shows "node_ids (to_cluster_view l t s) = {i. node_of s i \<noteq> None}"
    "task_ids (to_cluster_view l t s) = {i. task_of s i \<noteq> None}"
    "at_id ` set (hm_values (hs_attachments s)) = {i. hm_get (hs_attachments s) i \<noteq> None}"
    "gl_id ` set (hm_values (hs_goals s)) = {i. hm_get (hs_goals s) i \<noteq> None}"
proof -
  have keys: "key ` set (hm_values m) = {i. hm_get m i \<noteq> None}" if "keyed key m" for key and m :: "(string, 'x) hmap"
  proof (rule set_eqI)
    fix i
    have "i \<in> key ` set (hm_values m) \<longleftrightarrow> (\<exists>v \<in> set (hm_values m). key v = i)" by blast
    then show "i \<in> key ` set (hm_values m) \<longleftrightarrow> i \<in> {i. hm_get m i \<noteq> None}"
      by (simp add: keyed_bex_id [OF that])
  qed
  show "node_ids (to_cluster_view l t s) = {i. node_of s i \<noteq> None}"
    "task_ids (to_cluster_view l t s) = {i. task_of s i \<noteq> None}"
    "at_id ` set (hm_values (hs_attachments s)) = {i. hm_get (hs_attachments s) i \<noteq> None}"
    "gl_id ` set (hm_values (hs_goals s)) = {i. hm_get (hs_goals s) i \<noteq> None}"
    using keys hive_wf_keyed [OF assms]
    by (simp_all add: node_ids_def task_ids_def node_of_def task_of_def)
qed

text \<open>A verdict is the same on states that agree up to the clock.\<close>

lemma state_verdict_Ok: "state_verdict pol a s = Ok () \<longleftrightarrow> admissible pol (to_cluster_view None 0 s) a"
  by (simp add: state_verdict_def validate_Ok)

lemma state_verdict_same:
  assumes "same_hive s s'" "hive_wf s" "hive_wf s'"
  shows "state_verdict pol a s = Ok () \<longleftrightarrow> state_verdict pol a s' = Ok ()"
proof -
  note ids = state_ids [OF assms(2)] state_ids [OF assms(3)]
  have "active_on n s = active_on n s'" for n by (rule active_on_same [OF assms])
  then show ?thesis
    using assms(1) unfolding state_verdict_Ok same_hive_lookups
    by (cases a) (simp_all add: ids active_on_view)
qed

section \<open>The contract\<close>

locale replicator =
  fixes R :: "('j, 'w) replicator_api" and hive :: "'w \<Rightarrow> 'j HiveState"
  assumes snapshot_shows: "rp_snapshot R w = (v, w') \<Longrightarrow> \<exists>l t. v = to_cluster_view l t (hive w')"
    and snapshot_evolves: "rp_snapshot R w = (v, w') \<Longrightarrow> \<exists>cs. evolves cs (hive w) (hive w')"
    and apply_commits: "rp_apply R c w = (Ok (), w') \<Longrightarrow>
      \<exists>cs ds. evolves (cs @ c # ds) (hive w) (hive w')"
    and apply_fails: "rp_apply R c w = (Err e, w') \<Longrightarrow> \<exists>cs. evolves cs (hive w) (hive w')"
    and leader_evolves: "rp_is_leader R w = (b, w') \<Longrightarrow> \<exists>cs. evolves cs (hive w) (hive w')"

locale quiet_replicator = replicator R hive
  for R :: "('j, 'w) replicator_api" and hive :: "'w \<Rightarrow> 'j HiveState" +
  assumes snapshot_quiet: "rp_snapshot R w = (v, w') \<Longrightarrow> evolves [] (hive w) (hive w')"
    and apply_quiet: "rp_apply R c w = (Ok (), w') \<Longrightarrow> evolves [c] (hive w) (hive w')"
    and fail_quiet: "rp_apply R c w = (Err e, w') \<Longrightarrow>
      evolves [] (hive w) (hive w') \<or> evolves [c] (hive w) (hive w')"
    and leader_quiet: "rp_is_leader R w = (b, w') \<Longrightarrow> evolves [] (hive w) (hive w')"

context replicator
begin

lemma snapshot_verdict:
  assumes "rp_snapshot R w = (v, w')"
  shows "validate pol a v = state_verdict pol a (hive w')"
  using snapshot_shows [OF assms] by (auto simp: validate_state)

lemma apply_evolves: "rp_apply R c w = (r, w') \<Longrightarrow> \<exists>cs. evolves cs (hive w) (hive w')"
  using apply_commits [of c w w'] apply_fails [of c w] by (cases r) auto

end

end
