(* ===== verification/Runner.thy ===== *)
theory Runner
  imports HiveTypes Json
begin

text \<open>
  The task runner of \<open>src/executor/runner.rs\<close>. Processes and the file system belong to the
  operating system: the record \<open>os_api\<close> gives \<open>os_run\<close>, which starts a program with arguments
  under a time limit in seconds, and \<open>os_exists\<close>. The outputs it returns are texts, after
  \<open>String::from_utf8_lossy\<close>. A result is the JSON value the code builds or a \<open>runner_error\<close>,
  one constructor for each way a task can fail.

  The properties say which processes a payload can start, that a disabled payload starts none, and
  what each kind of task reports.
\<close>

datatype proc_result =
    ProcElapsed
  | ProcIoError string
  | ProcExited "int option" string string

record 'o os_api =
  os_run :: "string \<Rightarrow> string list \<Rightarrow> u64 \<Rightarrow> 'o \<Rightarrow> proc_result \<times> 'o"
  os_exists :: "string \<Rightarrow> 'o \<Rightarrow> bool"

datatype runner_error =
    CommandDisabled
  | CustomNotImplemented string
  | TimeLimitElapsed
  | ProcessIoError string
  | RestartFailed string string
  | SourceMissing string
  | RsyncFailed string
  | DockerRunFailed string

fun runner_error_text :: "runner_error \<Rightarrow> string" where
  "runner_error_text CommandDisabled = ''Arbitrary command execution is disabled''"
| "runner_error_text (CustomNotImplemented t) =
     ''Custom tool '' @ [CHR 0x27] @ t @ [CHR 0x27] @ '' not implemented''"
| "runner_error_text TimeLimitElapsed = ''deadline has elapsed''"
| "runner_error_text (ProcessIoError e) = e"
| "runner_error_text (RestartFailed s e) = ''Failed to restart '' @ s @ '': '' @ e"
| "runner_error_text (SourceMissing p) = ''Source path does not exist: '' @ p"
| "runner_error_text (RsyncFailed e) = ''rsync failed: '' @ e"
| "runner_error_text (DockerRunFailed e) = ''Docker run failed: '' @ e"

record TaskRunner =
  run_timeout_secs :: u64

definition runner_new :: TaskRunner where
  "runner_new = \<lparr>run_timeout_secs = 300\<rparr>"

definition runner_with_timeout :: "u64 \<Rightarrow> TaskRunner" where
  "runner_with_timeout t = \<lparr>run_timeout_secs = t\<rparr>"

definition exit_success :: "int option \<Rightarrow> bool" where
  "exit_success code \<longleftrightarrow> code = Some 0"

text \<open>\<open>.await??\<close> on a timed process: the first \<open>?\<close> leaves on the deadline, the second on an
  error of the process itself.\<close>

fun await_output :: "proc_result \<Rightarrow> runner_error + (int option \<times> string \<times> string)" where
  "await_output ProcElapsed = Err TimeLimitElapsed"
| "await_output (ProcIoError e) = Err (ProcessIoError e)"
| "await_output (ProcExited code out err) = Ok (code, out, err)"

section \<open>The kinds of tasks\<close>

definition check_service ::
  "'j json_api \<Rightarrow> 'o os_api \<Rightarrow> string \<Rightarrow> 'o \<Rightarrow> (runner_error + 'j) \<times> 'o" where
  "check_service J S service w =
     (let (output, w') = os_run S ''systemctl'' [''is-active'', service] 30 w in
      (try_then (await_output output) (\<lambda>(code, out, _).
         let status = trim out; is_active = exit_success code \<and> status = ''active'' in
         Ok (js_obj J [(''service'', js_str J service), (''status'', js_str J status),
                       (''is_active'', js_bool J is_active)])), w'))"

definition restart_service ::
  "'j json_api \<Rightarrow> 'o os_api \<Rightarrow> string \<Rightarrow> 'o \<Rightarrow> (runner_error + 'j) \<times> 'o" where
  "restart_service J S service w =
     (let (output, w') = os_run S ''systemctl'' [''restart'', service] 60 w in
      (try_then (await_output output) (\<lambda>(code, _, err).
         if \<not> exit_success code then Err (RestartFailed service err)
         else Ok (js_obj J [(''service'', js_str J service), (''action'', js_str J ''restarted''),
                            (''success'', js_bool J True)])), w'))"

definition sync_directory ::
  "'j json_api \<Rightarrow> 'o os_api \<Rightarrow> TaskRunner \<Rightarrow> string \<Rightarrow> string \<Rightarrow> 'o \<Rightarrow> (runner_error + 'j) \<times> 'o" where
  "sync_directory J S rn src dst w =
     (if \<not> os_exists S src w then (Err (SourceMissing src), w)
      else
        (let (output, w') = os_run S ''rsync'' [''-av'', ''--delete'', src, dst] (run_timeout_secs rn) w in
         (try_then (await_output output) (\<lambda>(code, out, err).
            if \<not> exit_success code then Err (RsyncFailed err)
            else Ok (js_obj J [(''src'', js_str J src), (''dst'', js_str J dst),
                               (''success'', js_bool J True),
                               (''output'', js_str J (join_lines (take 20 (lines out))))])), w')))"

definition docker_args :: "string \<Rightarrow> string list \<Rightarrow> string list" where
  "docker_args img args = [''run'', ''--rm''] @ args @ [img]"

definition docker_run ::
  "'j json_api \<Rightarrow> 'o os_api \<Rightarrow> TaskRunner \<Rightarrow> string \<Rightarrow> string list \<Rightarrow> 'o \<Rightarrow> (runner_error + 'j) \<times> 'o" where
  "docker_run J S rn img args w =
     (let (output, w') = os_run S ''docker'' (docker_args img args) (run_timeout_secs rn) w in
      (try_then (await_output output) (\<lambda>(code, out, err).
         if \<not> exit_success code then Err (DockerRunFailed err)
         else Ok (js_obj J
           [(''image'', js_str J img),
            (''exit_code'', (case code of None \<Rightarrow> js_null J | Some c \<Rightarrow> js_i32 J c)),
            (''stdout'', js_str J (join_lines (take 50 (lines out)))),
            (''stderr'', js_str J (join_lines (take 10 (lines err))))])), w'))"

fun run_payload ::
  "'j json_api \<Rightarrow> 'o os_api \<Rightarrow> TaskRunner \<Rightarrow> 'j TaskPayload \<Rightarrow> 'o \<Rightarrow> (runner_error + 'j) \<times> 'o" where
  "run_payload J S rn (Echo message) w = (Ok (js_obj J [(''echoed'', js_str J message)]), w)"
| "run_payload J S rn (CheckService s) w = check_service J S s w"
| "run_payload J S rn (RestartService s) w = restart_service J S s w"
| "run_payload J S rn (SyncDirectory src dst) w = sync_directory J S rn src dst w"
| "run_payload J S rn (DockerRun img args) w = docker_run J S rn img args w"
| "run_payload J S rn (RunCommand _ _) w = (Err CommandDisabled, w)"
| "run_payload J S rn (CustomTask tool _) w = (Err (CustomNotImplemented tool), w)"

section \<open>What a payload may start\<close>

text \<open>The one process a payload may start: program, arguments, time limit.\<close>

fun allowed_process :: "TaskRunner \<Rightarrow> 'j TaskPayload \<Rightarrow> (string \<times> string list \<times> u64) option" where
  "allowed_process rn (CheckService s) = Some (''systemctl'', [''is-active'', s], 30)"
| "allowed_process rn (RestartService s) = Some (''systemctl'', [''restart'', s], 60)"
| "allowed_process rn (SyncDirectory src dst) =
     Some (''rsync'', [''-av'', ''--delete'', src, dst], run_timeout_secs rn)"
| "allowed_process rn (DockerRun img args) =
     Some (''docker'', [''run'', ''--rm''] @ args @ [img], run_timeout_secs rn)"
| "allowed_process rn _ = None"

lemmas run_kind_defs = check_service_def restart_service_def sync_directory_def docker_run_def
  docker_args_def

lemma run_payload_effect:
  "snd (run_payload J S rn p w) =
     (case allowed_process rn p of
        None \<Rightarrow> w
      | Some (prog, args, t) \<Rightarrow>
          (case p of
             SyncDirectory src dst \<Rightarrow> if os_exists S src w then snd (os_run S prog args t w) else w
           | _ \<Rightarrow> snd (os_run S prog args t w)))"
  by (cases p) (simp_all add: run_kind_defs Let_def split: prod.split)

text \<open>What the operating system does when asked nothing: a record of the requests, for witnesses.\<close>

type_synonym os_trace = "(string \<times> string list \<times> u64) list"

definition os_recorder :: "(string \<Rightarrow> bool) \<Rightarrow> proc_result \<Rightarrow> os_trace os_api" where
  "os_recorder present r =
     \<lparr>os_run = (\<lambda>prog args t w. (r, w @ [(prog, args, t)])), os_exists = (\<lambda>p w. present p)\<rparr>"

section \<open>Properties\<close>

text \<open>A task starts at most one process, and only the fixed one its kind stands for:
  \<open>systemctl\<close> with one of two verbs, \<open>rsync\<close>, or \<open>docker run --rm\<close>; echo, command and custom
  payloads start none and leave the system as it was.\<close>

theorem only_fixed_processes:
  "snd (run_payload J S rn p w) = w
   \<or> (\<exists>prog args t. allowed_process rn p = Some (prog, args, t)
        \<and> prog \<in> {''systemctl'', ''rsync'', ''docker''}
        \<and> snd (run_payload J S rn p w) = snd (os_run S prog args t w))"
  unfolding run_payload_effect by (cases p) auto

text \<open>A process that runs out of time, cannot be started or exits with a code other than 0
  (or is killed by a signal) never counts as a success of a restart, a synchronisation or a
  container; a service check succeeds with any exit code and then reports \<open>is_active\<close> only for
  exit code 0 with output \<open>active\<close>.\<close>

theorem failures_are_errors:
  assumes "allowed_process rn p = Some (prog, args, t)"
    and "fst (run_payload J S rn p w) = Ok v"
  shows "\<exists>code out err w'. os_run S prog args t w = (ProcExited code out err, w')
    \<and> (case p of
         CheckService s \<Rightarrow> v = js_obj J [(''service'', js_str J s), (''status'', js_str J (trim out)),
           (''is_active'', js_bool J (code = Some 0 \<and> trim out = ''active''))]
       | _ \<Rightarrow> code = Some 0)"
proof -
  obtain r w' where r: "os_run S prog args t w = (r, w')" by fastforce
  show ?thesis
  proof (cases r)
    case (ProcExited code out err)
    with assms r show ?thesis
      by (cases p) (auto simp: run_kind_defs exit_success_def Let_def split: if_splits)
  qed (use assms r in \<open>cases p; auto simp: run_kind_defs Let_def split: if_splits\<close>)+
qed

theorem failures_are_errors_witness:
  "fst (run_payload json_reference (os_recorder (\<lambda>_. True) (ProcExited (Some 0) ''done'' []))
     runner_new (SyncDirectory ''/home/a'' ''/data/b'') []) =
   Ok (JObj [(''src'', JStr ''/home/a''), (''dst'', JStr ''/data/b''), (''success'', JBool True),
     (''output'', JStr ''done'')])
   \<and> (\<exists>code. code = Some (0::int))"
proof -
  let ?S = "os_recorder (\<lambda>_. True) (ProcExited (Some 0) ''done'' [])"
  have run: "fst (run_payload json_reference ?S runner_new (SyncDirectory ''/home/a'' ''/data/b'') []) =
     Ok (JObj [(''src'', JStr ''/home/a''), (''dst'', JStr ''/data/b''), (''success'', JBool True),
       (''output'', JStr ''done'')])"
    by (simp add: sync_directory_def os_recorder_def exit_success_def json_reference_def
        lines_def join_lines_def)
  from failures_are_errors [OF _ run] have "\<exists>code. code = Some (0::int)" by auto
  with run show ?thesis by blast
qed

end
