(* ===== verification/HiveExec.thy ===== *)
theory HiveExec
  imports Replicator Runner
begin

text \<open>
  \<open>HiveExecutor\<close> of \<open>src/executor/mod.rs\<close>, over any replicator and any operating system. The
  identifiers \<open>Uuid::new_v4()\<close> makes and the instants \<open>Utc::now()\<close> returns are arguments. An action
  is validated on one snapshot and carried out afterwards; rebalancing takes a second snapshot.

  The lemmas relate each operation to the contract of the replicator: what has been committed when
  it returns, and, when nobody else writes, the exact state it leaves.
\<close>

datatype exec_error =
    ExecInvalid validation_error
  | ExecReplicator replicator_error
  | WrongNode TaskId NodeId NodeId
  | TaskFailed

fun exec_error_text :: "exec_error \<Rightarrow> string" where
  "exec_error_text (ExecInvalid e) = validation_error_text e"
| "exec_error_text (ExecReplicator e) = replicator_error_text e"
| "exec_error_text (WrongNode i target n) =
     ''Task '' @ i @ '' targeted at '' @ target @ '', but this is node '' @ n"
| "exec_error_text TaskFailed = ''Task failed''"

definition commit ::
  "('j, 'w) replicator_api \<Rightarrow> 'j ClusterCommand \<Rightarrow> 'w \<Rightarrow> (exec_error + unit) \<times> 'w" where
  "commit R c w = st_map_err ExecReplicator (rp_apply R c w)"

definition new_task :: "string \<Rightarrow> timestamp \<Rightarrow> timestamp \<Rightarrow> 'j TaskPayload \<Rightarrow> NodeId \<Rightarrow> u8 \<Rightarrow> 'j Task" where
  "new_task uuid created updated payload target priority =
     \<lparr>tk_id = uuid, tk_target_node = target, tk_payload = payload, tk_status = Pending,
      tk_priority = priority, tk_created_at = created, tk_updated_at = updated, tk_result = None\<rparr>"

definition new_attachment ::
  "string \<Rightarrow> timestamp \<Rightarrow> NodeId \<Rightarrow> 'j AttachmentKind \<Rightarrow> string list \<Rightarrow> 'j Attachment" where
  "new_attachment uuid created n kind caps =
     \<lparr>at_id = uuid, at_node_id = n, at_kind = kind, at_capabilities = caps, at_metadata = [],
      at_created_at = created\<rparr>"

definition moved_task :: "timestamp \<Rightarrow> NodeId \<Rightarrow> 'j Task \<Rightarrow> 'j Task" where
  "moved_task now to_node t =
     t\<lparr>tk_target_node := to_node, tk_status := Pending, tk_updated_at := now\<rparr>"

text \<open>The branches of \<open>execute\<close> after the validation. \<open>t1\<close> and \<open>t2\<close> are the instants the branch
  reads, in this order.\<close>

fun perform ::
  "('j, 'w) replicator_api \<Rightarrow> string \<Rightarrow> timestamp \<Rightarrow> timestamp \<Rightarrow> 'j BrainAction \<Rightarrow> 'w
     \<Rightarrow> (exec_error + unit) \<times> 'w" where
  "perform R uuid t1 t2 (ScheduleTask task target priority) w =
     commit R (PutTask (new_task uuid t1 t2 task target priority)) w"
| "perform R uuid t1 t2 (CancelTask i) w = commit R (UpdateTaskStatus i Cancelled None) w"
| "perform R uuid t1 t2 (RebalanceTask i to_node) w =
     (let (view, w) = rp_snapshot R w in
      case find (\<lambda>t. tk_id t = i) (cv_tasks view) of
        None \<Rightarrow> (Ok (), w)
      | Some t \<Rightarrow> commit R (PutTask (moved_task t1 to_node t)) w)"
| "perform R uuid t1 t2 (MarkNodeDegraded i reason) w =
     commit R (UpdateNodeHealth i (Degraded reason) node_metrics_default) w"
| "perform R uuid t1 t2 (CreateAttachment n kind caps) w =
     commit R (PutAttachment (new_attachment uuid t1 n kind caps)) w"
| "perform R uuid t1 t2 (RemoveAttachment i) w = commit R (RemoveAttachmentCmd i) w"
| "perform R uuid t1 t2 (UpdateGoalProgress _ _ _) w = (Ok (), w)"
| "perform R uuid t1 t2 (RequestHumanApproval _ _) w = (Ok (), w)"
| "perform R uuid t1 t2 (NoOp _) w = (Ok (), w)"

definition execute ::
  "('j, 'w) replicator_api \<Rightarrow> ExecutionPolicy \<Rightarrow> string \<Rightarrow> timestamp \<Rightarrow> timestamp \<Rightarrow> 'j BrainAction
     \<Rightarrow> 'w \<Rightarrow> (exec_error + unit) \<times> 'w" where
  "execute R pol uuid t1 t2 action w =
     (let (view, w) = rp_snapshot R w in
      case validate pol action view of
        Inl e \<Rightarrow> (Err (ExecInvalid e), w)
      | Inr _ \<Rightarrow> perform R uuid t1 t2 action w)"

fun task_outcome :: "runner_error + 'j \<Rightarrow> TaskStatus \<times> 'j option" where
  "task_outcome (Inr v) = (Completed, Some v)"
| "task_outcome (Inl e) = (Failed (runner_error_text e), None)"

definition run_task ::
  "'j json_api \<Rightarrow> 'w os_api \<Rightarrow> ('j, 'w) replicator_api \<Rightarrow> NodeId \<Rightarrow> 'j Task \<Rightarrow> 'w
     \<Rightarrow> (exec_error + 'j) \<times> 'w" where
  "run_task J S R node_id task w =
     (if tk_target_node task \<noteq> node_id
      then (Err (WrongNode (tk_id task) (tk_target_node task) node_id), w)
      else
        st_then (commit R (UpdateTaskStatus (tk_id task) Running None) w) (\<lambda>_ w.
          let (result, w) = run_payload J S runner_new (tk_payload task) w;
              (status, result_value) = task_outcome result
          in st_then (commit R (UpdateTaskStatus (tk_id task) status result_value) w) (\<lambda>_ w.
               (case result_value of Some v \<Rightarrow> Ok v | None \<Rightarrow> Err TaskFailed, w))))"

section \<open>What an action stands for\<close>

text \<open>The commands an action amounts to, in a state that holds the task it may move.\<close>

fun action_commands ::
  "string \<Rightarrow> timestamp \<Rightarrow> timestamp \<Rightarrow> 'j BrainAction \<Rightarrow> 'j HiveState \<Rightarrow> 'j ClusterCommand list" where
  "action_commands uuid t1 t2 (ScheduleTask task target priority) s =
     [PutTask (new_task uuid t1 t2 task target priority)]"
| "action_commands uuid t1 t2 (CancelTask i) s = [UpdateTaskStatus i Cancelled None]"
| "action_commands uuid t1 t2 (RebalanceTask i to_node) s =
     (case hm_get (hs_tasks s) i of None \<Rightarrow> [] | Some t \<Rightarrow> [PutTask (moved_task t1 to_node t)])"
| "action_commands uuid t1 t2 (MarkNodeDegraded i reason) s =
     [UpdateNodeHealth i (Degraded reason) node_metrics_default]"
| "action_commands uuid t1 t2 (CreateAttachment n kind caps) s =
     [PutAttachment (new_attachment uuid t1 n kind caps)]"
| "action_commands uuid t1 t2 (RemoveAttachment i) s = [RemoveAttachmentCmd i]"
| "action_commands uuid t1 t2 _ s = []"

lemma forget_moved: "forget_updated t = forget_updated t' \<Longrightarrow> moved_task now n t = moved_task now n t'"
  by (cases t; cases t') (simp add: moved_task_def forget_updated_def)

text \<open>The commands depend on the state only up to the clock.\<close>

lemma action_commands_same:
  assumes "same_hive s s'"
  shows "action_commands uuid t1 t2 a s = action_commands uuid t1 t2 a s'"
proof (cases a)
  case (RebalanceTask i n)
  from assms have "map_option forget_updated (hm_get (hs_tasks s) i) =
      map_option forget_updated (hm_get (hs_tasks s') i)"
    by (simp add: same_hive_lookups task_of_def)
  then show ?thesis
    using forget_moved by (cases "hm_get (hs_tasks s) i"; cases "hm_get (hs_tasks s') i")
      (auto simp: RebalanceTask)
qed simp_all

lemma commit_Ok: "commit R c w = (Ok (), w') \<longleftrightarrow> rp_apply R c w = (Ok (), w')"
  by (simp add: commit_def)

lemma commit_Err: "commit R c w = (Err e, w') \<longleftrightarrow> (\<exists>d. e = ExecReplicator d \<and> rp_apply R c w = (Err d, w'))"
  by (auto simp: commit_def st_map_err_def map_err_eq_Err prod_eq_iff)

lemma perform_not_invalid: "perform R uuid t1 t2 a w = (Err e, w') \<Longrightarrow> \<exists>d. e = ExecReplicator d"
  by (cases a) (auto simp: commit_Err Let_def split: prod.splits option.splits)

lemma execute_cases:
  assumes "execute R pol uuid t1 t2 a w = (r, w')"
  obtains (invalid) e v where "rp_snapshot R w = (v, w')" "validate pol a v = Err e" "r = Err (ExecInvalid e)"
  | (valid) v w1 where "rp_snapshot R w = (v, w1)" "validate pol a v = Ok ()"
      "perform R uuid t1 t2 a w1 = (r, w')"
  using assms by (auto simp: execute_def Let_def split: prod.splits sum.splits)

section \<open>Lemmas under the contract\<close>

text \<open>An operating system whose processes do not write to this replica's state themselves; under
  interference others may meanwhile.\<close>

locale node_env = replicator R hive
  for R :: "('j, 'w) replicator_api" and hive :: "'w \<Rightarrow> 'j HiveState" +
  fixes S :: "'w os_api"
  assumes run_evolves: "os_run S prog args t w = (r, w') \<Longrightarrow> \<exists>cs. evolves cs (hive w) (hive w')"

locale quiet_env = quiet_replicator R hive
  for R :: "('j, 'w) replicator_api" and hive :: "'w \<Rightarrow> 'j HiveState" +
  fixes S :: "'w os_api"
  assumes run_quiet: "os_run S prog args t w = (r, w') \<Longrightarrow> evolves [] (hive w) (hive w')"

sublocale quiet_env \<subseteq> node_env
  by unfold_locales (blast intro: run_quiet)

context replicator
begin

lemma snapshot_find_task:
  assumes "rp_snapshot R w = (v, w')" and "hive_wf (hive w')"
  shows "find (\<lambda>t. tk_id t = i) (cv_tasks v) = hm_get (hs_tasks (hive w')) i"
  using snapshot_shows [OF assms(1)] view_find_task [OF assms(2)] by auto

end

context quiet_replicator
begin

text \<open>When nobody else writes: the outcome is decided by the state at the call, and the state
  afterwards is that state after the action's commands.\<close>

lemma perform_quiet:
  assumes "perform R uuid t1 t2 a w = (Ok (), w')" and wf: "hive_wf (hive w)"
  shows "evolves (action_commands uuid t1 t2 a (hive w)) (hive w) (hive w')"
proof (cases a)
  case (RebalanceTask i n)
  obtain v w1 where v: "rp_snapshot R w = (v, w1)" by fastforce
  have e: "evolves [] (hive w) (hive w1)" by (rule snapshot_quiet [OF v])
  have same: "action_commands uuid t1 t2 a (hive w) = action_commands uuid t1 t2 a (hive w1)"
    using action_commands_same evolves_none_same [OF e] by metis
  have "evolves (action_commands uuid t1 t2 a (hive w1)) (hive w1) (hive w')"
    using assms(1) snapshot_find_task [OF v evolves_wf [OF e wf]] apply_quiet
    by (auto simp: RebalanceTask v commit_Ok split: option.splits)
  with evolves_trans [OF e] same show ?thesis by fastforce
qed (use assms(1) apply_quiet in \<open>simp_all add: commit_Ok\<close>)

lemma execute_quiet_Ok:
  assumes "execute R pol uuid t1 t2 a w = (Ok (), w')" and wf: "hive_wf (hive w)"
  shows "state_verdict pol a (hive w) = Ok ()
    \<and> evolves (action_commands uuid t1 t2 a (hive w)) (hive w) (hive w')"
  using assms(1)
proof (cases rule: execute_cases)
  case (valid v w1)
  have e: "evolves [] (hive w) (hive w1)" by (rule snapshot_quiet [OF valid(1)])
  then have same: "same_hive (hive w1) (hive w)" and wf1: "hive_wf (hive w1)"
    using evolves_wf [OF e wf] by (simp_all add: evolves_none_same)
  have "state_verdict pol a (hive w1) = Ok ()"
    using valid(2) snapshot_verdict [OF valid(1)] by simp
  moreover have "evolves (action_commands uuid t1 t2 a (hive w1)) (hive w) (hive w')"
    using evolves_trans [OF e perform_quiet [OF valid(3) wf1]] by simp
  ultimately show ?thesis
    using state_verdict_same [OF same wf1 wf] action_commands_same [OF same] by simp
qed simp

lemma execute_quiet_Invalid:
  assumes "execute R pol uuid t1 t2 a w = (Err (ExecInvalid e), w')" and wf: "hive_wf (hive w)"
  shows "state_verdict pol a (hive w) \<noteq> Ok () \<and> state_verdict pol a (hive w') = Err e
    \<and> same_hive (hive w') (hive w)"
  using assms(1)
proof (cases rule: execute_cases)
  case (invalid d v)
  have e: "evolves [] (hive w) (hive w')" by (rule snapshot_quiet [OF invalid(1)])
  have "state_verdict pol a (hive w') = Err e"
    using invalid snapshot_verdict [OF invalid(1)] by simp
  moreover have "state_verdict pol a (hive w') = Ok () \<longleftrightarrow> state_verdict pol a (hive w) = Ok ()"
    by (rule state_verdict_same [OF evolves_none_same [OF e] evolves_wf [OF e wf] wf])
  ultimately show ?thesis using evolves_none_same [OF e] by auto
next
  case (valid v w1)
  show ?thesis using perform_not_invalid [OF valid(3)] by simp
qed

text \<open>Whatever the outcome, either nothing was written or the state admitted the action and its
  commands were.\<close>

lemma commit_quiet:
  assumes "commit R c w = (r, w')"
  shows "evolves [] (hive w) (hive w') \<or> evolves [c] (hive w) (hive w')"
  using assms apply_quiet [of c w w'] fail_quiet [of c w _ w']
  by (cases r) (auto simp: commit_Ok commit_Err)

lemma perform_quiet_any:
  assumes "perform R uuid t1 t2 a w = (r, w')" and wf: "hive_wf (hive w)"
  shows "evolves [] (hive w) (hive w') \<or> evolves (action_commands uuid t1 t2 a (hive w)) (hive w) (hive w')"
proof (cases a)
  case (RebalanceTask i n)
  obtain v w1 where v: "rp_snapshot R w = (v, w1)" by fastforce
  have e: "evolves [] (hive w) (hive w1)" by (rule snapshot_quiet [OF v])
  have same: "action_commands uuid t1 t2 a (hive w) = action_commands uuid t1 t2 a (hive w1)"
    using action_commands_same evolves_none_same [OF e] by metis
  have "evolves [] (hive w1) (hive w') \<or> evolves (action_commands uuid t1 t2 a (hive w1)) (hive w1) (hive w')"
    using assms(1) snapshot_find_task [OF v evolves_wf [OF e wf]] commit_quiet
    by (auto simp: RebalanceTask v split: option.splits)
  with evolves_trans [OF e] same show ?thesis by fastforce
qed (use assms(1) commit_quiet in auto)

lemma execute_quiet_any:
  assumes "execute R pol uuid t1 t2 a w = (r, w')" and wf: "hive_wf (hive w)"
  shows "evolves [] (hive w) (hive w') \<or>
    state_verdict pol a (hive w) = Ok () \<and> evolves (action_commands uuid t1 t2 a (hive w)) (hive w) (hive w')"
  using assms(1)
proof (cases rule: execute_cases)
  case (invalid e v)
  then show ?thesis using snapshot_quiet by blast
next
  case (valid v w1)
  have e: "evolves [] (hive w) (hive w1)" by (rule snapshot_quiet [OF valid(1)])
  then have same: "same_hive (hive w1) (hive w)" and wf1: "hive_wf (hive w1)"
    using evolves_wf [OF e wf] by (simp_all add: evolves_none_same)
  have ok: "state_verdict pol a (hive w) = Ok ()"
    using valid(2) snapshot_verdict [OF valid(1)] state_verdict_same [OF same wf1 wf] by simp
  from perform_quiet_any [OF valid(3) wf1] show ?thesis
    using evolves_trans [OF e] ok action_commands_same [OF same] by fastforce
qed

end

section \<open>Running a task\<close>

lemma reply_iff [simp]:
  "Inr v = (case result of Inr v \<Rightarrow> Inr v | Inl _ \<Rightarrow> Inl e) \<longleftrightarrow> result = Inr v"
  "Inl d = (case result of Inr v \<Rightarrow> Inr v | Inl _ \<Rightarrow> Inl e) \<longleftrightarrow> d = e \<and> (\<exists>x. result = Inl x)"
  by (cases result; auto)+

lemma run_task_wrong_node:
  "tk_target_node task \<noteq> n \<Longrightarrow>
     run_task J S R n task w = (Err (WrongNode (tk_id task) (tk_target_node task) n), w)"
  by (simp add: run_task_def)

text \<open>A run that reaches its end: the three steps, and how the returned value goes with the status.\<close>

lemma run_task_steps:
  assumes "run_task J S R n task w = (r, w')" and "tk_target_node task = n"
    and "\<forall>d. r \<noteq> Err (ExecReplicator d)"
  obtains w1 w2 result where "rp_apply R (UpdateTaskStatus (tk_id task) Running None) w = (Ok (), w1)"
    and "run_payload J S runner_new (tk_payload task) w1 = (result, w2)"
    and "rp_apply R (UpdateTaskStatus (tk_id task) (fst (task_outcome result)) (snd (task_outcome result))) w2
           = (Ok (), w')"
    and "r = (case result of Inr v \<Rightarrow> Ok v | Inl _ \<Rightarrow> Err TaskFailed)"
proof -
  note n = assms(2)
  obtain r1 w1 where s1: "commit R (UpdateTaskStatus (tk_id task) Running None) w = (r1, w1)" by fastforce
  have r1: "r1 = Ok ()"
    using assms(1,3) s1 n by (cases r1) (auto simp: run_task_def commit_Err)
  obtain result w2 where s2: "run_payload J S runner_new (tk_payload task) w1 = (result, w2)" by fastforce
  obtain r3 w3 where s3: "commit R (UpdateTaskStatus (tk_id task) (fst (task_outcome result))
      (snd (task_outcome result))) w2 = (r3, w3)" by fastforce
  have rest: "st_then (r3, w3) (\<lambda>_ w. (case snd (task_outcome result) of Some v \<Rightarrow> Ok v | None \<Rightarrow> Err TaskFailed, w))
      = (r, w')"
    using assms(1) s1 r1 s2 s3 n by (simp add: run_task_def Let_def split: prod.splits)
  have r3: "r3 = Ok ()" using rest assms(3) s3 by (cases r3) (auto simp: commit_Err)
  have w3: "w3 = w'" using rest r3 by simp
  have r: "r = (case result of Inr v \<Rightarrow> Ok v | Inl _ \<Rightarrow> Err TaskFailed)"
    using rest r3 by (cases result) simp_all
  show thesis
    by (rule that [OF _ s2 _ r]) (use s1 s3 r1 r3 w3 in \<open>simp_all add: commit_Ok\<close>)
qed

lemma run_task_errors:
  assumes "run_task J S R n task w = (Err e, w')"
  shows "e = TaskFailed \<or> (\<exists>d. e = ExecReplicator d)
    \<or> e = WrongNode (tk_id task) (tk_target_node task) n \<and> tk_target_node task \<noteq> n \<and> w' = w"
proof (cases "tk_target_node task = n")
  case True
  show ?thesis
  proof (cases "\<exists>d. e = ExecReplicator d")
    case False
    then have "\<forall>d. Err e \<noteq> (Err (ExecReplicator d) :: exec_error + 'a)" by simp
    from run_task_steps [OF assms True this] show ?thesis by (metis isl_def sum.case_eq_if sum.inject(1) sum.simps(4))
  qed blast
next
  case False
  from run_task_wrong_node [OF this, of J S R w] assms False show ?thesis by simp
qed

context node_env
begin

lemma run_payload_evolves:
  assumes "run_payload J S rn p w = (r, w')"
  shows "\<exists>cs. evolves cs (hive w) (hive w')"
proof -
  have "w' = snd (run_payload J S rn p w)" using assms by simp
  moreover have "\<exists>cs. evolves cs (hive w) (hive (snd (os_run S prog args t w)))" for prog args t
    using run_evolves by (metis prod.collapse)
  moreover have "\<exists>cs. evolves cs (hive w) (hive w)" by (rule exI [of _ "[]"]) simp
  ultimately show ?thesis
    by (auto simp: run_payload_effect split: option.split TaskPayload.split if_split)
qed

text \<open>Whatever others do meanwhile, a run that returns has marked the task as running and then with
  its outcome.\<close>

lemma run_task_commits:
  assumes "run_task J S R n task w = (r, w')" and "tk_target_node task = n"
    and "\<forall>d. r \<noteq> Err (ExecReplicator d)"
  shows "\<exists>cs ds es result. evolves (cs @ UpdateTaskStatus (tk_id task) Running None # ds
      @ UpdateTaskStatus (tk_id task) (fst (task_outcome result)) (snd (task_outcome result)) # es) (hive w) (hive w')
    \<and> r = (case result of Inr v \<Rightarrow> Ok v | Inl _ \<Rightarrow> Err TaskFailed)"
proof -
  obtain w1 w2 result where steps:
    "rp_apply R (UpdateTaskStatus (tk_id task) Running None) w = (Ok (), w1)"
    "run_payload J S runner_new (tk_payload task) w1 = (result, w2)"
    "rp_apply R (UpdateTaskStatus (tk_id task) (fst (task_outcome result)) (snd (task_outcome result))) w2
       = (Ok (), w')"
    "r = (case result of Inr v \<Rightarrow> Ok v | Inl _ \<Rightarrow> Err TaskFailed)"
    by (rule run_task_steps [OF assms])
  obtain cs ds where a: "evolves (cs @ UpdateTaskStatus (tk_id task) Running None # ds) (hive w) (hive w1)"
    using apply_commits [OF steps(1)] by blast
  obtain es where b: "evolves es (hive w1) (hive w2)" using run_payload_evolves [OF steps(2)] by blast
  obtain fs gs where c: "evolves (fs @ UpdateTaskStatus (tk_id task) (fst (task_outcome result))
      (snd (task_outcome result)) # gs) (hive w2) (hive w')"
    using apply_commits [OF steps(3)] by blast
  have "evolves (cs @ UpdateTaskStatus (tk_id task) Running None # (ds @ es @ fs)
      @ UpdateTaskStatus (tk_id task) (fst (task_outcome result)) (snd (task_outcome result)) # gs) (hive w) (hive w')"
    using evolves_trans [OF evolves_trans [OF a b] c] by simp
  with steps(4) show ?thesis by blast
qed

end

context quiet_env
begin

lemma run_payload_quiet:
  assumes "run_payload J S rn p w = (r, w')"
  shows "evolves [] (hive w) (hive w')"
proof -
  have "w' = snd (run_payload J S rn p w)" using assms by simp
  moreover have "evolves [] (hive w) (hive (snd (os_run S prog args t w)))" for prog args t
    using run_quiet by (metis prod.collapse)
  ultimately show ?thesis
    by (auto simp: run_payload_effect split: option.split TaskPayload.split if_split)
qed

lemma run_task_quiet:
  assumes "run_task J S R n task w = (r, w')" and "tk_target_node task = n"
    and "\<forall>d. r \<noteq> Err (ExecReplicator d)"
  shows "\<exists>result. evolves [UpdateTaskStatus (tk_id task) Running None,
       UpdateTaskStatus (tk_id task) (fst (task_outcome result)) (snd (task_outcome result))] (hive w) (hive w')
    \<and> r = (case result of Inr v \<Rightarrow> Ok v | Inl _ \<Rightarrow> Err TaskFailed)"
proof -
  obtain w1 w2 result where steps:
    "rp_apply R (UpdateTaskStatus (tk_id task) Running None) w = (Ok (), w1)"
    "run_payload J S runner_new (tk_payload task) w1 = (result, w2)"
    "rp_apply R (UpdateTaskStatus (tk_id task) (fst (task_outcome result)) (snd (task_outcome result))) w2
       = (Ok (), w')"
    "r = (case result of Inr v \<Rightarrow> Ok v | Inl _ \<Rightarrow> Err TaskFailed)"
    by (rule run_task_steps [OF assms])
  from evolves_trans [OF evolves_trans [OF apply_quiet [OF steps(1)] run_payload_quiet [OF steps(2)]]
      apply_quiet [OF steps(3)]] steps(4)
  show ?thesis by auto
qed

end

text \<open>What two status updates in a row leave of a task.\<close>

lemma task_after_updates:
  assumes "same_hive s' (apply_log log s)" and "hm_get (hs_tasks s) i = Some t"
    and "map snd log = [UpdateTaskStatus i Running None, UpdateTaskStatus i st r]"
  shows "\<exists>t'. hm_get (hs_tasks s') i = Some t' \<and> tk_status t' = st \<and> tk_result t' = r
    \<and> tk_payload t' = tk_payload t \<and> tk_target_node t' = tk_target_node t"
proof -
  obtain n1 n2 where log: "log = [(n1, UpdateTaskStatus i Running None), (n2, UpdateTaskStatus i st r)]"
    using assms(3) by (auto simp: Cons_eq_map_conv map_eq_Cons_conv)
  have "task_of s' i = task_of (apply_log log s) i"
    using assms(1) by (simp add: same_hive_lookups)
  also have "\<dots> = Some ((forget_updated t)\<lparr>tk_status := st, tk_result := r\<rparr>)"
    using assms(2) by (simp add: log task_of_apply del: apply_command.simps) (simp add: task_of_def)
  finally obtain t' where t': "hm_get (hs_tasks s') i = Some t'"
    "forget_updated t' = (forget_updated t)\<lparr>tk_status := st, tk_result := r\<rparr>"
    by (auto simp: task_of_def)
  from t'(2) have "tk_status (forget_updated t') = st \<and> tk_result (forget_updated t') = r
      \<and> tk_payload (forget_updated t') = tk_payload (forget_updated t)
      \<and> tk_target_node (forget_updated t') = tk_target_node (forget_updated t)"
    by simp
  with t'(1) show ?thesis by simp
qed

end
