(* ===== verification/SledStore.thy ===== *)
theory SledStore
  imports HiveState
begin

text \<open>
  The storage of \<open>src/replicator/storage.rs\<close>: the Raft log and the metadata in two trees of a
  sled database, and the state machine behind them. sled, serde_json, bincode and the types of
  openraft that the code only carries (votes, memberships) are parameters: \<open>tree_api\<close> holds the
  operations of a tree, \<open>storage_codec\<close> the serialisations, over an abstract type \<open>'b\<close> of stored
  values, \<open>'m\<close> of memberships and \<open>'v\<close> of votes. The keys are the bytes the code computes.

  \<open>SledStorage\<close> shares its trees and its state with the readers and snapshot builders it hands
  out and copies only the snapshot counter, so the shared part is the record \<open>store\<close> and the
  counter is an argument of the operations that use it. The record contains what the process
  holds (\<open>sto_hive\<close>) and what is on disk (the trees); a restart keeps the trees only.
  \<open>unwrap\<close> on a key of the wrong length is the result \<open>KeyPanic\<close>.
\<close>

type_synonym bytes = "u8 list"

record LogId =
  li_term :: u64
  li_node :: u64
  li_index :: u64

datatype ('j, 'm) EntryPayload = Blank | Normal "'j ClusterCommand" | Membership 'm

record ('j, 'm) Entry =
  en_log_id :: LogId
  en_payload :: "('j, 'm) EntryPayload"

record 'm StoredMembership =
  sm_log_id :: "LogId option"
  sm_membership :: 'm

record 'm SnapshotMeta =
  me_last_log_id :: "LogId option"
  me_last_membership :: "'m StoredMembership"
  me_snapshot_id :: string

record ('m, 'b) Snapshot =
  sp_meta :: "'m SnapshotMeta"
  sp_data :: 'b

record LogState =
  lg_last_purged :: "LogId option"
  lg_last_log_id :: "LogId option"

datatype error_subject = SubjLogs | SubjVote | SubjStateMachine | SubjSnapshot string "LogId option"
datatype error_verb = VerbRead | VerbWrite

datatype storage_error = IoError error_subject error_verb string | KeyPanic

datatype range_bound = Included u64 | Excluded u64 | Unbounded

section \<open>The parameters\<close>

text \<open>A tree: \<open>get\<close>, \<open>insert\<close>, \<open>remove\<close>, \<open>flush\<close>, \<open>last\<close>, and the iterators \<open>range(k..)\<close> and
  \<open>range(..=k)\<close>, whose items may each be an error.\<close>

record ('b, 't) tree_api =
  tr_get :: "'t \<Rightarrow> bytes \<Rightarrow> string + 'b option"
  tr_insert :: "bytes \<Rightarrow> 'b \<Rightarrow> 't \<Rightarrow> (string + unit) \<times> 't"
  tr_remove :: "bytes \<Rightarrow> 't \<Rightarrow> (string + unit) \<times> 't"
  tr_flush :: "'t \<Rightarrow> (string + unit) \<times> 't"
  tr_last :: "'t \<Rightarrow> string + (bytes \<times> 'b) option"
  tr_range_from :: "bytes \<Rightarrow> 't \<Rightarrow> (string + bytes \<times> 'b) list"
  tr_range_upto :: "bytes \<Rightarrow> 't \<Rightarrow> (string + bytes \<times> 'b) list"

record ('j, 'm, 'v, 'b) storage_codec =
  enc_entry :: "('j, 'm) Entry \<Rightarrow> 'b"
  dec_entry :: "'b \<Rightarrow> string + ('j, 'm) Entry"
  enc_hive :: "'j HiveState \<Rightarrow> 'b"
  dec_hive :: "'b \<Rightarrow> string + 'j HiveState"
  enc_vote :: "'v \<Rightarrow> 'b"
  dec_vote :: "'b \<Rightarrow> string + 'v"
  enc_log_id :: "LogId \<Rightarrow> 'b"
  dec_log_id :: "'b \<Rightarrow> string + LogId"
  enc_membership :: "'m StoredMembership \<Rightarrow> 'b"
  dec_membership :: "'b \<Rightarrow> string + 'm StoredMembership"
  default_membership :: "'m StoredMembership"
  enc_u64 :: "u64 \<Rightarrow> 'b"
  dec_u64 :: "'b \<Rightarrow> string + u64"
  leader_text :: "u64 \<Rightarrow> u64 \<Rightarrow> string"

record ('j, 't) store =
  sto_log :: 't
  sto_meta :: 't
  sto_hive :: "'j HiveState"

section \<open>Keys and metadata\<close>

definition KEY_VOTE :: bytes where "KEY_VOTE = as_bytes ''vote''"
definition KEY_LAST_PURGED :: bytes where "KEY_LAST_PURGED = as_bytes ''last_purged''"
definition KEY_LAST_APPLIED :: bytes where "KEY_LAST_APPLIED = as_bytes ''last_applied''"
definition KEY_MEMBERSHIP :: bytes where "KEY_MEMBERSHIP = as_bytes ''membership''"
definition KEY_SNAPSHOT_IDX :: bytes where "KEY_SNAPSHOT_IDX = as_bytes ''snapshot_idx''"
definition KEY_STATE_SNAPSHOT :: bytes where "KEY_STATE_SNAPSHOT = as_bytes ''state_snapshot''"

lemmas meta_key_defs = KEY_VOTE_def KEY_LAST_PURGED_def KEY_LAST_APPLIED_def KEY_MEMBERSHIP_def
  KEY_SNAPSHOT_IDX_def KEY_STATE_SNAPSHOT_def

lemma meta_keys_distinct:
  "distinct [KEY_VOTE, KEY_LAST_PURGED, KEY_LAST_APPLIED, KEY_MEMBERSHIP, KEY_SNAPSHOT_IDX,
     KEY_STATE_SNAPSHOT]"
  by (simp add: meta_key_defs)

lemma meta_keys_distinct_rev:
  "distinct [KEY_STATE_SNAPSHOT, KEY_SNAPSHOT_IDX, KEY_MEMBERSHIP, KEY_LAST_APPLIED, KEY_LAST_PURGED,
     KEY_VOTE]"
  by (simp add: meta_key_defs)

lemmas meta_keys_neq [simp] = meta_keys_distinct [simplified] meta_keys_distinct_rev [simplified]

definition log_key :: "u64 \<Rightarrow> bytes" where
  "log_key index = to_be_bytes index"

text \<open>\<open>get(key).ok().flatten().and_then(|v| decode(&v).ok())\<close>.\<close>

definition meta_get :: "('b, 't) tree_api \<Rightarrow> bytes \<Rightarrow> ('b \<Rightarrow> string + 'x) \<Rightarrow> 't \<Rightarrow> 'x option" where
  "meta_get T k dec m =
     (case tr_get T m k of
        Inr (Some b) \<Rightarrow> (case dec b of Inr x \<Rightarrow> Some x | Inl _ \<Rightarrow> None)
      | _ \<Rightarrow> None)"

definition meta_insert ::
  "('b, 't) tree_api \<Rightarrow> bytes \<Rightarrow> 'b \<Rightarrow> ('j, 't) store \<Rightarrow> (string + unit) \<times> ('j, 't) store" where
  "meta_insert T k b s = (case tr_insert T k b (sto_meta s) of (r, m) \<Rightarrow> (r, s\<lparr>sto_meta := m\<rparr>))"

definition meta_flush ::
  "('b, 't) tree_api \<Rightarrow> ('j, 't) store \<Rightarrow> (string + unit) \<times> ('j, 't) store" where
  "meta_flush T s = (case tr_flush T (sto_meta s) of (r, m) \<Rightarrow> (r, s\<lparr>sto_meta := m\<rparr>))"

definition get_vote ::
  "('b, 't) tree_api \<Rightarrow> ('j, 'm, 'v, 'b) storage_codec \<Rightarrow> ('j, 't) store \<Rightarrow> 'v option" where
  "get_vote T C s = meta_get T KEY_VOTE (dec_vote C) (sto_meta s)"

definition set_vote ::
  "('b, 't) tree_api \<Rightarrow> ('j, 'm, 'v, 'b) storage_codec \<Rightarrow> 'v \<Rightarrow> ('j, 't) store
     \<Rightarrow> (string + unit) \<times> ('j, 't) store" where
  "set_vote T C v s = st_then (meta_insert T KEY_VOTE (enc_vote C v) s) (\<lambda>_. meta_flush T)"

definition get_last_purged ::
  "('b, 't) tree_api \<Rightarrow> ('j, 'm, 'v, 'b) storage_codec \<Rightarrow> ('j, 't) store \<Rightarrow> LogId option" where
  "get_last_purged T C s = meta_get T KEY_LAST_PURGED (dec_log_id C) (sto_meta s)"

definition set_last_purged ::
  "('b, 't) tree_api \<Rightarrow> ('j, 'm, 'v, 'b) storage_codec \<Rightarrow> LogId \<Rightarrow> ('j, 't) store
     \<Rightarrow> (string + unit) \<times> ('j, 't) store" where
  "set_last_purged T C i s = meta_insert T KEY_LAST_PURGED (enc_log_id C i) s"

definition get_last_applied ::
  "('b, 't) tree_api \<Rightarrow> ('j, 'm, 'v, 'b) storage_codec \<Rightarrow> ('j, 't) store \<Rightarrow> LogId option" where
  "get_last_applied T C s = meta_get T KEY_LAST_APPLIED (dec_log_id C) (sto_meta s)"

definition set_last_applied ::
  "('b, 't) tree_api \<Rightarrow> ('j, 'm, 'v, 'b) storage_codec \<Rightarrow> LogId \<Rightarrow> ('j, 't) store
     \<Rightarrow> (string + unit) \<times> ('j, 't) store" where
  "set_last_applied T C i s = meta_insert T KEY_LAST_APPLIED (enc_log_id C i) s"

definition get_membership ::
  "('b, 't) tree_api \<Rightarrow> ('j, 'm, 'v, 'b) storage_codec \<Rightarrow> ('j, 't) store \<Rightarrow> 'm StoredMembership" where
  "get_membership T C s =
     (case meta_get T KEY_MEMBERSHIP (dec_membership C) (sto_meta s) of
        None \<Rightarrow> default_membership C | Some m \<Rightarrow> m)"

definition set_membership ::
  "('b, 't) tree_api \<Rightarrow> ('j, 'm, 'v, 'b) storage_codec \<Rightarrow> 'm StoredMembership \<Rightarrow> ('j, 't) store
     \<Rightarrow> (string + unit) \<times> ('j, 't) store" where
  "set_membership T C m s = meta_insert T KEY_MEMBERSHIP (enc_membership C m) s"

definition save_state_snapshot ::
  "('b, 't) tree_api \<Rightarrow> ('j, 'm, 'v, 'b) storage_codec \<Rightarrow> ('j, 't) store
     \<Rightarrow> (string + unit) \<times> ('j, 't) store" where
  "save_state_snapshot T C s =
     st_then (meta_insert T KEY_STATE_SNAPSHOT (enc_hive C (shared_snapshot (sto_hive s))) s) (\<lambda>_. meta_flush T)"

text \<open>\<open>SledStorage::new\<close> on the two opened trees; the shared state it is given is restored from
  the stored one when there is one that parses. It returns the snapshot counter and the store.\<close>

definition storage_new ::
  "('b, 't) tree_api \<Rightarrow> ('j, 'm, 'v, 'b) storage_codec \<Rightarrow> 't \<Rightarrow> 't \<Rightarrow> 'j HiveState
     \<Rightarrow> string + (u64 \<times> ('j, 't) store)" where
  "storage_new T C log_tree meta_tree state =
     try_then (tr_get T meta_tree KEY_SNAPSHOT_IDX) (\<lambda>v.
       let snapshot_idx = (case v of None \<Rightarrow> 0
             | Some b \<Rightarrow> (case dec_u64 C b of Inr n \<Rightarrow> n | Inl _ \<Rightarrow> 0)) in
       try_then (tr_get T meta_tree KEY_STATE_SNAPSHOT) (\<lambda>d.
         let restored = (case d of None \<Rightarrow> state
               | Some b \<Rightarrow> (case dec_hive C b of Inr h \<Rightarrow> shared_restore h state | Inl _ \<Rightarrow> state)) in
         Inr (snapshot_idx, \<lparr>sto_log = log_tree, sto_meta = meta_tree, sto_hive = restored\<rparr>)))"

section \<open>The log\<close>

fun range_start :: "range_bound \<Rightarrow> u64" where
  "range_start (Included s) = s"
| "range_start (Excluded s) = s + 1"
| "range_start Unbounded = 0"

fun range_end :: "range_bound \<Rightarrow> u64 option" where
  "range_end (Included e) = Some (e + 1)"
| "range_end (Excluded e) = Some e"
| "range_end Unbounded = None"

definition past_end :: "u64 option \<Rightarrow> u64 \<Rightarrow> bool" where
  "past_end stop index = (case stop of None \<Rightarrow> False | Some e \<Rightarrow> e \<le> index)"

fun read_items ::
  "('j, 'm, 'v, 'b) storage_codec \<Rightarrow> u64 option \<Rightarrow> (string + bytes \<times> 'b) list
     \<Rightarrow> storage_error + ('j, 'm) Entry list" where
  "read_items C stop [] = Inr []"
| "read_items C stop (Inl e # items) = Inl (IoError SubjLogs VerbRead e)"
| "read_items C stop (Inr (key, v) # items) =
     (if length key \<noteq> 8 then Inl KeyPanic
      else if past_end stop (from_be_bytes key) then Inr []
      else try_then (map_err (IoError SubjLogs VerbRead) (dec_entry C v)) (\<lambda>entry.
             try_then (read_items C stop items) (\<lambda>es. Inr (entry # es))))"

definition try_get_log_entries ::
  "('b, 't) tree_api \<Rightarrow> ('j, 'm, 'v, 'b) storage_codec \<Rightarrow> range_bound \<Rightarrow> range_bound
     \<Rightarrow> ('j, 't) store \<Rightarrow> storage_error + ('j, 'm) Entry list" where
  "try_get_log_entries T C start stop s =
     read_items C (range_end stop) (tr_range_from T (log_key (range_start start)) (sto_log s))"

definition get_log_state ::
  "('b, 't) tree_api \<Rightarrow> ('j, 'm, 'v, 'b) storage_codec \<Rightarrow> ('j, 't) store
     \<Rightarrow> storage_error + LogState" where
  "get_log_state T C s =
     (let last_purged = get_last_purged T C s in
      try_then (map_err (IoError SubjLogs VerbRead) (tr_last T (sto_log s))) (\<lambda>r.
        Inr \<lparr>lg_last_purged = last_purged,
             lg_last_log_id =
               (case r of None \<Rightarrow> None
                | Some (_, v) \<Rightarrow>
                    (case dec_entry C v of Inr e \<Rightarrow> Some (en_log_id e) | Inl _ \<Rightarrow> None))\<rparr>))"

definition save_vote ::
  "('b, 't) tree_api \<Rightarrow> ('j, 'm, 'v, 'b) storage_codec \<Rightarrow> 'v \<Rightarrow> ('j, 't) store
     \<Rightarrow> (storage_error + unit) \<times> ('j, 't) store" where
  "save_vote T C v s = st_map_err (IoError SubjVote VerbWrite) (set_vote T C v s)"

definition read_vote ::
  "('b, 't) tree_api \<Rightarrow> ('j, 'm, 'v, 'b) storage_codec \<Rightarrow> ('j, 't) store
     \<Rightarrow> storage_error + 'v option" where
  "read_vote T C s = Inr (get_vote T C s)"

fun insert_entries ::
  "('b, 't) tree_api \<Rightarrow> ('j, 'm, 'v, 'b) storage_codec \<Rightarrow> ('j, 'm) Entry list \<Rightarrow> 't
     \<Rightarrow> (storage_error + unit) \<times> 't" where
  "insert_entries T C [] l = (Inr (), l)"
| "insert_entries T C (entry # entries) l =
     st_then (st_map_err (IoError SubjLogs VerbWrite)
        (tr_insert T (log_key (li_index (en_log_id entry))) (enc_entry C entry) l))
       (\<lambda>_. insert_entries T C entries)"

definition on_log :: "('t \<Rightarrow> 'r \<times> 't) \<Rightarrow> ('j, 't) store \<Rightarrow> 'r \<times> ('j, 't) store" where
  "on_log f s = (case f (sto_log s) of (r, l) \<Rightarrow> (r, s\<lparr>sto_log := l\<rparr>))"

definition append_to_log ::
  "('b, 't) tree_api \<Rightarrow> ('j, 'm, 'v, 'b) storage_codec \<Rightarrow> ('j, 'm) Entry list \<Rightarrow> ('j, 't) store
     \<Rightarrow> (storage_error + unit) \<times> ('j, 't) store" where
  "append_to_log T C entries s =
     on_log (\<lambda>l. st_then (insert_entries T C entries l)
       (\<lambda>_ l. st_map_err (IoError SubjLogs VerbWrite) (tr_flush T l))) s"

fun ok_keys :: "(string + bytes \<times> 'b) list \<Rightarrow> bytes list" where
  "ok_keys [] = []"
| "ok_keys (Inl _ # items) = ok_keys items"
| "ok_keys (Inr (k, _) # items) = k # ok_keys items"

fun remove_keys ::
  "('b, 't) tree_api \<Rightarrow> bytes list \<Rightarrow> 't \<Rightarrow> (storage_error + unit) \<times> 't" where
  "remove_keys T [] l = (Inr (), l)"
| "remove_keys T (k # ks) l =
     st_then (st_map_err (IoError SubjLogs VerbWrite) (tr_remove T k l)) (\<lambda>_. remove_keys T ks)"

definition delete_conflict_logs_since ::
  "('b, 't) tree_api \<Rightarrow> LogId \<Rightarrow> ('j, 't) store \<Rightarrow> (storage_error + unit) \<times> ('j, 't) store" where
  "delete_conflict_logs_since T i s =
     on_log (\<lambda>l. remove_keys T (ok_keys (tr_range_from T (log_key (li_index i)) l)) l) s"

definition purge_logs_upto ::
  "('b, 't) tree_api \<Rightarrow> ('j, 'm, 'v, 'b) storage_codec \<Rightarrow> LogId \<Rightarrow> ('j, 't) store
     \<Rightarrow> (storage_error + unit) \<times> ('j, 't) store" where
  "purge_logs_upto T C i s =
     st_then (st_map_err (IoError SubjLogs VerbWrite) (set_last_purged T C i s)) (\<lambda>_.
       on_log (\<lambda>l. remove_keys T (ok_keys (tr_range_upto T (log_key (li_index i)) l)) l))"

section \<open>The state machine\<close>

definition last_applied_state ::
  "('b, 't) tree_api \<Rightarrow> ('j, 'm, 'v, 'b) storage_codec \<Rightarrow> ('j, 't) store
     \<Rightarrow> storage_error + (LogId option \<times> 'm StoredMembership)" where
  "last_applied_state T C s = Inr (get_last_applied T C s, get_membership T C s)"

text \<open>One turn of the loop of \<open>apply_to_state_machine\<close>, at the instant \<open>now\<close>.\<close>

definition apply_entry ::
  "('b, 't) tree_api \<Rightarrow> ('j, 'm, 'v, 'b) storage_codec \<Rightarrow> timestamp \<Rightarrow> ('j, 'm) Entry \<Rightarrow> ('j, 't) store
     \<Rightarrow> (storage_error + unit) \<times> ('j, 't) store" where
  "apply_entry T C now entry s =
     st_then (st_map_err (IoError SubjStateMachine VerbWrite) (set_last_applied T C (en_log_id entry) s))
       (\<lambda>_ s.
          case en_payload entry of
            Blank \<Rightarrow> (Inr (), s)
          | Normal cmd \<Rightarrow> (Inr (), s\<lparr>sto_hive := shared_apply now cmd (sto_hive s)\<rparr>)
          | Membership mem \<Rightarrow>
              st_map_err (IoError SubjStateMachine VerbWrite)
                (set_membership T C \<lparr>sm_log_id = Some (en_log_id entry), sm_membership = mem\<rparr> s))"

fun apply_entries ::
  "('b, 't) tree_api \<Rightarrow> ('j, 'm, 'v, 'b) storage_codec \<Rightarrow> (timestamp \<times> ('j, 'm) Entry) list
     \<Rightarrow> ('j, 't) store \<Rightarrow> (storage_error + unit list) \<times> ('j, 't) store" where
  "apply_entries T C [] s = (Inr [], s)"
| "apply_entries T C ((now, entry) # entries) s =
     st_then (apply_entry T C now entry s) (\<lambda>_ s.
       st_then (apply_entries T C entries s) (\<lambda>rs s. (Inr (() # rs), s)))"

definition apply_to_state_machine ::
  "('b, 't) tree_api \<Rightarrow> ('j, 'm, 'v, 'b) storage_codec \<Rightarrow> (timestamp \<times> ('j, 'm) Entry) list
     \<Rightarrow> ('j, 't) store \<Rightarrow> (storage_error + unit list) \<times> ('j, 't) store" where
  "apply_to_state_machine T C entries s =
     st_then (apply_entries T C entries s) (\<lambda>results s.
       st_then (st_map_err (IoError SubjStateMachine VerbWrite) (save_state_snapshot T C s))
         (\<lambda>_ s. (Inr results, s)))"

section \<open>Snapshots\<close>

text \<open>A reader or builder copies the counter and shares the rest.\<close>

definition get_snapshot_builder :: "u64 \<Rightarrow> u64" where
  "get_snapshot_builder snapshot_idx = snapshot_idx"

definition get_log_reader :: "u64 \<Rightarrow> u64" where
  "get_log_reader snapshot_idx = snapshot_idx"

text \<open>\<open>build_snapshot\<close> first serialises the state and then reads the metadata, with no lock over
  both: it is two steps on the shared store, the second on the store as it is by then. The result
  of the insertion of the counter is ignored.\<close>

definition snapshot_state ::
  "('j, 'm, 'v, 'b) storage_codec \<Rightarrow> ('j, 't) store \<Rightarrow> 'b" where
  "snapshot_state C s = enc_hive C (shared_snapshot (sto_hive s))"

definition snapshot_id_text ::
  "('j, 'm, 'v, 'b) storage_codec \<Rightarrow> LogId option \<Rightarrow> u64 \<Rightarrow> string" where
  "snapshot_id_text C last_applied idx =
     (case last_applied of None \<Rightarrow> [] | Some l \<Rightarrow> leader_text C (li_term l) (li_node l)) @ ''-'' @
     u64_to_string (case last_applied of None \<Rightarrow> 0 | Some l \<Rightarrow> li_index l) @ ''-'' @
     u64_to_string idx"

definition snapshot_meta ::
  "('b, 't) tree_api \<Rightarrow> ('j, 'm, 'v, 'b) storage_codec \<Rightarrow> 'b \<Rightarrow> u64 \<Rightarrow> ('j, 't) store
     \<Rightarrow> ('m, 'b) Snapshot \<times> u64 \<times> ('j, 't) store" where
  "snapshot_meta T C data idx s =
     (let last_applied = get_last_applied T C s;
          membership = get_membership T C s;
          idx = idx + 1;
          s = snd (meta_insert T KEY_SNAPSHOT_IDX (enc_u64 C idx) s)
      in (\<lparr>sp_meta = \<lparr>me_last_log_id = last_applied, me_last_membership = membership,
             me_snapshot_id = snapshot_id_text C last_applied idx\<rparr>, sp_data = data\<rparr>, idx, s))"

definition build_snapshot ::
  "('b, 't) tree_api \<Rightarrow> ('j, 'm, 'v, 'b) storage_codec \<Rightarrow> u64 \<Rightarrow> ('j, 't) store
     \<Rightarrow> ('m, 'b) Snapshot \<times> u64 \<times> ('j, 't) store" where
  "build_snapshot T C idx s = snapshot_meta T C (snapshot_state C s) idx s"

text \<open>The signature in the error of \<open>install_snapshot\<close> carries the snapshot's id and last log id.\<close>

definition install_snapshot ::
  "('b, 't) tree_api \<Rightarrow> ('j, 'm, 'v, 'b) storage_codec \<Rightarrow> 'm SnapshotMeta \<Rightarrow> 'b \<Rightarrow> ('j, 't) store
     \<Rightarrow> (storage_error + unit) \<times> ('j, 't) store" where
  "install_snapshot T C meta data s =
     (case dec_hive C data of
        Inl e \<Rightarrow> (Inl (IoError (SubjSnapshot (me_snapshot_id meta) (me_last_log_id meta)) VerbRead e), s)
      | Inr hive_state \<Rightarrow>
          st_then (case me_last_log_id meta of
              None \<Rightarrow> (Inr (), s\<lparr>sto_hive := shared_restore hive_state (sto_hive s)\<rparr>)
            | Some log_id \<Rightarrow> st_map_err (IoError SubjStateMachine VerbWrite)
                (set_last_applied T C log_id (s\<lparr>sto_hive := shared_restore hive_state (sto_hive s)\<rparr>)))
           (\<lambda>_ s. st_then (st_map_err (IoError SubjStateMachine VerbWrite)
                (set_membership T C (me_last_membership meta) s))
             (\<lambda>_ s. st_map_err (IoError SubjStateMachine VerbWrite) (save_state_snapshot T C s))))"

definition get_current_snapshot :: "('j, 't) store \<Rightarrow> storage_error + ('m, 'b) Snapshot option" where
  "get_current_snapshot s = Inr None"

end
