(* ===== verification/SledRefines.thy ===== *)
theory SledRefines
  imports SledStore
begin

text \<open>
  What \<open>SledStorage\<close> promises to openraft. The locale \<open>sled_tree\<close> states what is documented of a
  sled tree (a map ordered by the bytes of its keys; a failed write may have taken effect or not),
  \<open>sled_storage\<close> adds that the serialisations of log ids, votes, memberships and counters can be
  read back. Nothing is assumed of the JSON of entries and states: \<open>entry_storable\<close> and
  \<open>hive_storable\<close> say of one value that it can be read back (a float that is not finite cannot),
  and are premises where they matter.

  The log refines a finite map from indices to entries (\<open>log_abs\<close>, \<open>abs_log_step\<close>), reading a
  range returns exactly its entries in order, and applying, restarting and installing snapshots
  keep state, last applied log id and membership together.
\<close>

section \<open>The contract of the tree and of the codecs\<close>

definition key_sorted :: "(bytes \<times> 'b) list \<Rightarrow> bool" where
  "key_sorted items = sorted_wrt (\<lambda>x y. lex_less (fst x) (fst y)) items"

locale sled_tree =
  fixes T :: "('b, 't) tree_api" and content :: "'t \<Rightarrow> bytes \<rightharpoonup> 'b"
  assumes get_ok: "tr_get T t k = Inr x \<Longrightarrow> x = content t k"
    and insert_ok: "tr_insert T k b t = (Inr (), t') \<Longrightarrow> content t' = (content t)(k \<mapsto> b)"
    and insert_err: "tr_insert T k b t = (Inl e, t') \<Longrightarrow>
      content t' = content t \<or> content t' = (content t)(k \<mapsto> b)"
    and remove_ok: "tr_remove T k t = (Inr (), t') \<Longrightarrow> content t' = (content t)(k := None)"
    and remove_err: "tr_remove T k t = (Inl e, t') \<Longrightarrow>
      content t' = content t \<or> content t' = (content t)(k := None)"
    and flush_keeps: "tr_flush T t = (r, t') \<Longrightarrow> content t' = content t"
    and last_none: "tr_last T t = Inr None \<Longrightarrow> content t = Map.empty"
    and last_some: "tr_last T t = Inr (Some (k, b)) \<Longrightarrow>
      content t k = Some b \<and> (\<forall>j \<in> dom (content t). \<not> lex_less k j)"
    and range_from_ok: "tr_range_from T k t = map Inr items \<Longrightarrow>
      key_sorted items \<and> set items = {(j, b). content t j = Some b \<and> \<not> lex_less j k}"
    and range_upto_ok: "tr_range_upto T k t = map Inr items \<Longrightarrow>
      key_sorted items \<and> set items = {(j, b). content t j = Some b \<and> \<not> lex_less k j}"

locale sled_storage = sled_tree T content
  for T :: "('b, 't) tree_api" and content :: "'t \<Rightarrow> bytes \<rightharpoonup> 'b" +
  fixes C :: "('j, 'm, 'v, 'b) storage_codec"
  assumes log_id_codec: "dec_log_id C (enc_log_id C i) = Inr i"
    and vote_codec: "dec_vote C (enc_vote C v) = Inr v"
    and membership_codec: "dec_membership C (enc_membership C m) = Inr m"
    and u64_codec: "dec_u64 C (enc_u64 C n) = Inr n"

definition entry_storable :: "('j, 'm, 'v, 'b) storage_codec \<Rightarrow> ('j, 'm) Entry \<Rightarrow> bool" where
  "entry_storable C e \<longleftrightarrow> dec_entry C (enc_entry C e) = Inr e"

definition hive_storable :: "('j, 'm, 'v, 'b) storage_codec \<Rightarrow> 'j HiveState \<Rightarrow> bool" where
  "hive_storable C h \<longleftrightarrow> (\<exists>h'. dec_hive C (enc_hive C h) = Inr h' \<and> hive_equiv h' h)"

text \<open>No iterator over the tree meets an error.\<close>

definition iterates :: "('b, 't) tree_api \<Rightarrow> bool" where
  "iterates T \<longleftrightarrow> (\<forall>k t. list_all is_ok (tr_range_from T k t) \<and> list_all is_ok (tr_range_upto T k t))"

section \<open>The abstract log\<close>

definition en_index :: "('j, 'm) Entry \<Rightarrow> u64" where
  "en_index e = li_index (en_log_id e)"

definition log_abs ::
  "('t \<Rightarrow> bytes \<rightharpoonup> 'b) \<Rightarrow> ('j, 'm, 'v, 'b) storage_codec \<Rightarrow> 't \<Rightarrow> u64 \<rightharpoonup> ('j, 'm) Entry" where
  "log_abs content C t i =
     Option.bind (content t (log_key i))
       (\<lambda>b. case dec_entry C b of Inr e \<Rightarrow> Some e | Inl _ \<Rightarrow> None)"

text \<open>Every key of the log tree is the index of the entry stored under it.\<close>

definition log_wf ::
  "('t \<Rightarrow> bytes \<rightharpoonup> 'b) \<Rightarrow> ('j, 'm, 'v, 'b) storage_codec \<Rightarrow> 't \<Rightarrow> bool" where
  "log_wf content C t \<longleftrightarrow>
     (\<forall>k b. content t k = Some b \<longrightarrow> (\<exists>e. dec_entry C b = Inr e \<and> k = log_key (en_index e)))"

datatype ('j, 'm) log_op =
    LogAppend "('j, 'm) Entry list"
  | LogDeleteSince LogId
  | LogPurgeUpto LogId

fun log_step ::
  "('b, 't) tree_api \<Rightarrow> ('j, 'm, 'v, 'b) storage_codec \<Rightarrow> ('j, 'm) log_op \<Rightarrow> ('j, 't) store
     \<Rightarrow> (storage_error + unit) \<times> ('j, 't) store" where
  "log_step T C (LogAppend es) s = append_to_log T C es s"
| "log_step T C (LogDeleteSince i) s = delete_conflict_logs_since T i s"
| "log_step T C (LogPurgeUpto i) s = purge_logs_upto T C i s"

fun log_run ::
  "('b, 't) tree_api \<Rightarrow> ('j, 'm, 'v, 'b) storage_codec \<Rightarrow> ('j, 'm) log_op list \<Rightarrow> ('j, 't) store
     \<Rightarrow> (storage_error + unit) \<times> ('j, 't) store" where
  "log_run T C [] s = (Inr (), s)"
| "log_run T C (op # ops) s = st_then (log_step T C op s) (\<lambda>_. log_run T C ops)"

fun abs_append :: "('j, 'm) Entry list \<Rightarrow> (u64 \<rightharpoonup> ('j, 'm) Entry) \<Rightarrow> (u64 \<rightharpoonup> ('j, 'm) Entry)" where
  "abs_append [] m = m"
| "abs_append (e # es) m = abs_append es (m(en_index e \<mapsto> e))"

fun abs_log_step :: "('j, 'm) log_op \<Rightarrow> (u64 \<rightharpoonup> ('j, 'm) Entry) \<Rightarrow> (u64 \<rightharpoonup> ('j, 'm) Entry)" where
  "abs_log_step (LogAppend es) m = abs_append es m"
| "abs_log_step (LogDeleteSince i) m = m |` {j. j < li_index i}"
| "abs_log_step (LogPurgeUpto i) m = m |` {j. li_index i < j}"

fun op_entries :: "('j, 'm) log_op \<Rightarrow> ('j, 'm) Entry list" where
  "op_entries (LogAppend es) = es"
| "op_entries _ = []"

lemma log_key_inject [simp]: "log_key i = log_key j \<longleftrightarrow> i = j"
  by (simp add: log_key_def)

lemma log_key_order: "lex_less (log_key i) (log_key j) \<longleftrightarrow> i < j"
  by (simp add: log_key_def to_be_bytes_order)

lemma log_key_length [simp]: "length (log_key i) = 8"
  by (simp add: log_key_def)

lemma from_log_key [simp]: "from_be_bytes (log_key i) = i"
  by (simp add: log_key_def)

lemma log_abs_Some:
  "log_abs content C t i = Some e \<longleftrightarrow> (\<exists>b. content t (log_key i) = Some b \<and> dec_entry C b = Inr e)"
  by (cases "content t (log_key i)") (auto simp: log_abs_def split: sum.splits)

lemma log_abs_index: "log_wf content C t \<Longrightarrow> log_abs content C t i = Some e \<Longrightarrow> en_index e = i"
  by (fastforce simp: log_abs_Some log_wf_def)

lemma log_wf_None: "log_wf content C t \<Longrightarrow> log_abs content C t i = None \<longleftrightarrow> content t (log_key i) = None"
  by (cases "content t (log_key i)") (fastforce simp: log_wf_def log_abs_def)+

lemma all_ok_map: "list_all is_ok xs \<Longrightarrow> \<exists>ys. xs = map Inr ys"
proof (induction xs)
  case (Cons x xs)
  then obtain ys y where "xs = map Inr ys" "x = Inr y" by (cases x) auto
  then show ?case by (intro exI [of _ "y # ys"]) simp
qed simp

lemma iterates_ranges:
  assumes "iterates T"
  obtains items where "tr_range_from T k t = map Inr items"
  using assms all_ok_map unfolding iterates_def by blast

lemma iterates_ranges_upto:
  assumes "iterates T"
  obtains items where "tr_range_upto T k t = map Inr items"
  using assms all_ok_map unfolding iterates_def by blast

lemma ok_keys_map [simp]: "ok_keys (map Inr items) = map fst items"
  by (induction items) auto

text \<open>Reading the items of an iterator over well-formed keys.\<close>

lemma past_end_mono: "past_end stop i \<Longrightarrow> i \<le> j \<Longrightarrow> past_end stop j"
  by (auto simp: past_end_def split: option.splits)

definition good_items :: "('j, 'm, 'v, 'b) storage_codec \<Rightarrow> (bytes \<times> 'b) list \<Rightarrow> bool" where
  "good_items C items \<longleftrightarrow>
     (\<forall>(k, b) \<in> set items. \<exists>e. dec_entry C b = Inr e \<and> k = log_key (en_index e))"

definition item_entry :: "('j, 'm, 'v, 'b) storage_codec \<Rightarrow> bytes \<times> 'b \<Rightarrow> ('j, 'm) Entry" where
  "item_entry C item = projr (dec_entry C (snd item))"

lemma good_item:
  assumes "good_items C items" and "item \<in> set items"
  shows "fst item = log_key (en_index (item_entry C item))"
    and "dec_entry C (snd item) = Inr (item_entry C item)"
  using assms by (auto simp: good_items_def item_entry_def)

lemma takeWhile_eq_filter:
  "sorted_wrt R xs \<Longrightarrow> (\<And>x y. R x y \<Longrightarrow> \<not> P x \<Longrightarrow> \<not> P y) \<Longrightarrow> takeWhile P xs = filter P xs"
proof (induction xs)
  case (Cons a xs)
  show ?case
  proof (cases "P a")
    case False
    then have "\<forall>x \<in> set xs. \<not> P x" using Cons.prems(1) Cons.prems(2) [of a] by simp
    with False show ?thesis by simp
  qed (use Cons in simp)
qed simp

lemma read_items_takeWhile:
  assumes "good_items C items"
  shows "read_items C stop (map Inr items) =
    Inr (map (item_entry C) (takeWhile (\<lambda>x. \<not> past_end stop (from_be_bytes (fst x))) items))"
  using assms
proof (induction items)
  case (Cons item items)
  have "good_items C items" using Cons.prems by (simp add: good_items_def)
  moreover obtain e where "fst item = log_key (en_index e)" "dec_entry C (snd item) = Inr e"
    using good_item [OF Cons.prems, of item] by simp
  ultimately show ?case using Cons.IH by (cases item) (simp add: item_entry_def)
qed simp

lemma read_items_sorted:
  assumes "key_sorted items" and "good_items C items"
  shows "\<exists>es. read_items C stop (map Inr items) = Inr es \<and> sorted_wrt (<) (map en_index es)
    \<and> set es = {e. \<exists>b. (log_key (en_index e), b) \<in> set items \<and> dec_entry C b = Inr e
                       \<and> \<not> past_end stop (en_index e)}"
proof -
  let ?P = "\<lambda>x. \<not> past_end stop (en_index (item_entry C x))"
  let ?es = "map (item_entry C) (filter ?P items)"
  note good = good_item [OF assms(2)]
  have order: "sorted_wrt (\<lambda>x y. en_index (item_entry C x) < en_index (item_entry C y)) items"
    using assms(1) unfolding key_sorted_def
    by (rule sorted_wrt_mono_rel [rotated]) (simp add: good(1) log_key_order)
  then have "takeWhile ?P items = filter ?P items"
    by (rule takeWhile_eq_filter) (auto intro: past_end_mono less_imp_le)
  moreover have "takeWhile (\<lambda>x. \<not> past_end stop (from_be_bytes (fst x))) items = takeWhile ?P items"
    by (rule takeWhile_cong) (simp_all add: good(1))
  ultimately have "read_items C stop (map Inr items) = Inr ?es"
    by (simp add: read_items_takeWhile [OF assms(2)])
  moreover have "sorted_wrt (<) (map en_index ?es)"
    using order by (simp add: sorted_wrt_map sorted_wrt_filter)
  moreover have "set ?es = {e. \<exists>b. (log_key (en_index e), b) \<in> set items \<and> dec_entry C b = Inr e
                       \<and> \<not> past_end stop (en_index e)}"
  proof (intro set_eqI iffI)
    fix e
    assume "e \<in> set ?es"
    then obtain k b where kb: "(k, b) \<in> set items" "e = item_entry C (k, b)" "?P (k, b)" by auto
    with good [OF kb(1)] show "e \<in> {e. \<exists>b. (log_key (en_index e), b) \<in> set items \<and> dec_entry C b = Inr e
        \<and> \<not> past_end stop (en_index e)}" by auto
  next
    fix e
    assume "e \<in> {e. \<exists>b. (log_key (en_index e), b) \<in> set items \<and> dec_entry C b = Inr e
        \<and> \<not> past_end stop (en_index e)}"
    then obtain b where b: "(log_key (en_index e), b) \<in> set items" "dec_entry C b = Inr e"
      "\<not> past_end stop (en_index e)" by blast
    then have "item_entry C (log_key (en_index e), b) = e" by (simp add: item_entry_def)
    with b(1,3) show "e \<in> set ?es" by (auto intro!: image_eqI [of e])
  qed
  ultimately show ?thesis by blast
qed

context sled_tree
begin

lemma insert_entries_ok:
  assumes "insert_entries T C es t = (Inr (), t')"
    and "\<forall>e \<in> set es. entry_storable C e" and "log_wf content C t"
  shows "log_wf content C t' \<and> log_abs content C t' = abs_append es (log_abs content C t)"
  using assms
proof (induction es arbitrary: t)
  case Nil
  then show ?case by simp
next
  case (Cons e es)
  then obtain t1 where t1: "tr_insert T (log_key (en_index e)) (enc_entry C e) t = (Inr (), t1)"
    and rest: "insert_entries T C es t1 = (Inr (), t')"
    by (auto simp: st_then_eq_Ok en_index_def)
  have c: "content t1 = (content t)(log_key (en_index e) \<mapsto> enc_entry C e)" by (rule insert_ok [OF t1])
  have e: "dec_entry C (enc_entry C e) = Inr e" using Cons.prems(2) by (simp add: entry_storable_def)
  have "log_wf content C t1" using Cons.prems(3) e by (auto simp: log_wf_def c)
  moreover have "log_abs content C t1 = (log_abs content C t)(en_index e \<mapsto> e)"
    using e by (intro ext) (simp add: log_abs_def c)
  ultimately show ?case using Cons.IH [OF rest] Cons.prems(2) by (simp add: fun_upd_def)
qed

lemma remove_keys_ok:
  "remove_keys T ks t = (Inr (), t') \<Longrightarrow> content t' = content t |` (- set ks)"
proof (induction ks arbitrary: t)
  case (Cons k ks)
  then obtain t1 where t1: "tr_remove T k t = (Inr (), t1)" and rest: "remove_keys T ks t1 = (Inr (), t')"
    by (auto simp: st_then_eq_Ok)
  show ?case
    using Cons.IH [OF rest] by (auto simp: remove_ok [OF t1] restrict_map_def fun_eq_iff)
qed (simp add: restrict_map_def)

lemma content_restrict:
  assumes "content t' = content t |` K" and "log_wf content C t"
  shows "log_wf content C t'" "log_abs content C t' = log_abs content C t |` {i. log_key i \<in> K}"
  using assms by (auto simp: log_wf_def log_abs_def restrict_map_def fun_eq_iff split: if_splits)

text \<open>Removing the keys an iterator gives, when they are a range of the log.\<close>

lemma remove_range:
  assumes items: "set items = {(j, b). content t j = Some b \<and> P j}"
    and rm: "remove_keys T (map fst items) t = (Inr (), t')" and wf: "log_wf content C t"
  shows "log_wf content C t'" "log_abs content C t' = log_abs content C t |` {i. \<not> P (log_key i)}"
proof -
  have "content t' = content t |` (- set (map fst items))" by (rule remove_keys_ok [OF rm])
  also have "\<dots> = content t |` {j. \<not> P j}"
  proof
    fix k
    show "(content t |` (- set (map fst items))) k = (content t |` {j. \<not> P j}) k"
      by (cases "content t k") (force simp: items restrict_map_def)+
  qed
  finally have c: "content t' = content t |` {j. \<not> P j}" .
  show "log_wf content C t'" by (rule content_restrict [OF c wf])
  show "log_abs content C t' = log_abs content C t |` {i. \<not> P (log_key i)}"
    using content_restrict(2) [OF c wf] by simp
qed

lemma on_log_ok:
  "on_log f s = (Inr x, s') \<longleftrightarrow> (\<exists>l. f (sto_log s) = (Inr x, l) \<and> s' = s\<lparr>sto_log := l\<rparr>)"
  by (auto simp: on_log_def split: prod.splits)

lemma log_step_ok:
  assumes "log_step T C op s = (Inr (), s')" and "iterates T"
    and "\<forall>e \<in> set (op_entries op). entry_storable C e" and "log_wf content C (sto_log s)"
  shows "log_wf content C (sto_log s')
    \<and> log_abs content C (sto_log s') = abs_log_step op (log_abs content C (sto_log s))"
proof (cases op)
  case (LogAppend es)
  with assms(1) obtain l l' where l: "insert_entries T C es (sto_log s) = (Inr (), l)"
    "tr_flush T l = (Inr (), l')" "sto_log s' = l'"
    by (auto simp: append_to_log_def on_log_ok st_then_eq_Ok)
  have "log_wf content C l \<and> log_abs content C l = abs_append es (log_abs content C (sto_log s))"
    using insert_entries_ok [OF l(1)] assms(3,4) LogAppend by simp
  with l(3) show ?thesis by (simp add: LogAppend log_wf_def log_abs_def fun_eq_iff flush_keeps [OF l(2)])
next
  case (LogDeleteSince i)
  obtain items where items: "tr_range_from T (log_key (li_index i)) (sto_log s) = map Inr items"
    by (rule iterates_ranges [OF assms(2)])
  from assms(1) have rm: "remove_keys T (map fst items) (sto_log s) = (Inr (), sto_log s')"
    by (auto simp: LogDeleteSince delete_conflict_logs_since_def on_log_ok items)
  show ?thesis
    using remove_range [OF conjunct2 [OF range_from_ok [OF items]] rm assms(4)]
    by (simp add: LogDeleteSince log_key_order)
next
  case (LogPurgeUpto i)
  with assms(1) obtain s1 where s1: "set_last_purged T C i s = (Inr (), s1)"
    "on_log (\<lambda>l. remove_keys T (ok_keys (tr_range_upto T (log_key (li_index i)) l)) l) s1 = (Inr (), s')"
    by (auto simp: purge_logs_upto_def st_then_eq_Ok)
  have same: "sto_log s1 = sto_log s"
    using s1(1) by (auto simp: set_last_purged_def meta_insert_def split: prod.splits)
  obtain items where items: "tr_range_upto T (log_key (li_index i)) (sto_log s) = map Inr items"
    by (rule iterates_ranges_upto [OF assms(2)])
  from s1(2) have rm: "remove_keys T (map fst items) (sto_log s) = (Inr (), sto_log s')"
    by (auto simp: on_log_ok same items)
  show ?thesis
    using remove_range [OF conjunct2 [OF range_upto_ok [OF items]] rm assms(4)]
    by (simp add: LogPurgeUpto log_key_order)
qed

lemma log_run_ok:
  assumes "log_run T C ops s = (Inr (), s')" and "iterates T"
    and "\<forall>op \<in> set ops. \<forall>e \<in> set (op_entries op). entry_storable C e"
    and "log_wf content C (sto_log s)"
  shows "log_wf content C (sto_log s')
    \<and> log_abs content C (sto_log s') = fold abs_log_step ops (log_abs content C (sto_log s))"
  using assms(1,3,4)
proof (induction ops arbitrary: s)
  case (Cons op ops)
  then obtain s1 where s1: "log_step T C op s = (Inr (), s1)" "log_run T C ops s1 = (Inr (), s')"
    by (auto simp: st_then_eq_Ok)
  with log_step_ok [OF s1(1) assms(2)] Cons show ?case by simp
qed simp

lemma read_range:
  assumes "iterates T" and "log_wf content C (sto_log s)"
  shows "\<exists>es. try_get_log_entries T C lo hi s = Inr es \<and> sorted_wrt (<) (map en_index es)
    \<and> set es = {e. \<exists>i. log_abs content C (sto_log s) i = Some e \<and> range_start lo \<le> i
                       \<and> \<not> past_end (range_end hi) i}"
proof -
  let ?k = "log_key (range_start lo)" and ?t = "sto_log s"
  obtain items where items: "tr_range_from T ?k ?t = map Inr items"
    by (rule iterates_ranges [OF assms(1)])
  have r: "key_sorted items" "set items = {(j, b). content ?t j = Some b \<and> \<not> lex_less j ?k}"
    using range_from_ok [OF items] by simp_all
  have dec: "good_items C items"
    using assms(2) unfolding r(2) log_wf_def good_items_def by blast
  obtain es where es: "read_items C (range_end hi) (map Inr items) = Inr es"
    "sorted_wrt (<) (map en_index es)"
    "set es = {e. \<exists>b. (log_key (en_index e), b) \<in> set items \<and> dec_entry C b = Inr e
                       \<and> \<not> past_end (range_end hi) (en_index e)}"
    using read_items_sorted [OF r(1) dec, of "range_end hi"] by (elim exE conjE) (rule that)
  have "set es = {e. \<exists>i. log_abs content C ?t i = Some e \<and> range_start lo \<le> i
                       \<and> \<not> past_end (range_end hi) i}"
  proof (intro set_eqI iffI)
    fix e
    assume "e \<in> set es"
    then obtain b where "content ?t (log_key (en_index e)) = Some b" "dec_entry C b = Inr e"
      "range_start lo \<le> en_index e" "\<not> past_end (range_end hi) (en_index e)"
      unfolding es(3) r(2) by (auto simp: log_key_order)
    then show "e \<in> {e. \<exists>i. log_abs content C ?t i = Some e \<and> range_start lo \<le> i
                       \<and> \<not> past_end (range_end hi) i}"
      by (auto simp: log_abs_Some)
  next
    fix e
    assume "e \<in> {e. \<exists>i. log_abs content C ?t i = Some e \<and> range_start lo \<le> i
                       \<and> \<not> past_end (range_end hi) i}"
    then obtain i where i: "log_abs content C ?t i = Some e" "range_start lo \<le> i"
      "\<not> past_end (range_end hi) i" by blast
    moreover have "en_index e = i" by (rule log_abs_index [OF assms(2) i(1)])
    ultimately show "e \<in> set es"
      unfolding es(3) r(2) by (auto simp: log_abs_Some log_key_order)
  qed
  with es(1,2) show ?thesis by (auto simp: try_get_log_entries_def items)
qed

lemma log_state_last:
  assumes "get_log_state T C s = Inr ls" and "log_wf content C (sto_log s)"
  shows "case lg_last_log_id ls of
      None \<Rightarrow> log_abs content C (sto_log s) = Map.empty
    | Some l \<Rightarrow> (\<exists>e. log_abs content C (sto_log s) (li_index l) = Some e \<and> en_log_id e = l)
        \<and> (\<forall>i \<in> dom (log_abs content C (sto_log s)). i \<le> li_index l)"
proof -
  from assms(1) obtain r where r: "tr_last T (sto_log s) = Inr r"
    and ls: "lg_last_log_id ls = (case r of None \<Rightarrow> None
        | Some (_, v) \<Rightarrow> (case dec_entry C v of Inr e \<Rightarrow> Some (en_log_id e) | Inl _ \<Rightarrow> None))"
    by (auto simp: get_log_state_def try_then_eq_Ok)
  show ?thesis
  proof (cases r)
    case None
    then show ?thesis using last_none [of "sto_log s"] r ls by (simp add: log_abs_def fun_eq_iff)
  next
    case (Some kv)
    then obtain k v where kv: "r = Some (k, v)" by (cases kv) simp
    with r have l: "content (sto_log s) k = Some v"
      "\<forall>j \<in> dom (content (sto_log s)). \<not> lex_less k j"
      using last_some by blast+
    then obtain e where e: "dec_entry C v = Inr e" "k = log_key (en_index e)"
      using assms(2) unfolding log_wf_def by blast
    have "i \<le> en_index e" if "i \<in> dom (log_abs content C (sto_log s))" for i
    proof -
      have "log_key i \<in> dom (content (sto_log s))" using that by (auto simp: log_abs_Some)
      with l(2) have "\<not> lex_less k (log_key i)" by blast
      then show ?thesis by (simp add: e(2) log_key_order)
    qed
    moreover have "log_abs content C (sto_log s) (en_index e) = Some e"
      using l(1) e by (auto simp: log_abs_Some)
    ultimately show ?thesis using e kv ls by (simp add: en_index_def)
  qed
qed

end

section \<open>Metadata and the state machine\<close>

text \<open>No lookup meets an error.\<close>

definition reads :: "('b, 't) tree_api \<Rightarrow> bool" where
  "reads T \<longleftrightarrow> (\<forall>t k. is_ok (tr_get T t k))"

definition batch_commands :: "(timestamp \<times> ('j, 'm) Entry) list \<Rightarrow> (timestamp \<times> 'j ClusterCommand) list" where
  "batch_commands entries =
     concat (map (\<lambda>(now, e). case en_payload e of Normal c \<Rightarrow> [(now, c)] | _ \<Rightarrow> []) entries)"

definition batch_membership ::
  "(timestamp \<times> ('j, 'm) Entry) list \<Rightarrow> 'm StoredMembership \<Rightarrow> 'm StoredMembership" where
  "batch_membership entries m =
     fold (\<lambda>(now, e) m. case en_payload e of
         Membership mem \<Rightarrow> \<lparr>sm_log_id = Some (en_log_id e), sm_membership = mem\<rparr>
       | _ \<Rightarrow> m) entries m"

definition batch_last :: "(timestamp \<times> ('j, 'm) Entry) list \<Rightarrow> LogId option \<Rightarrow> LogId option" where
  "batch_last entries i = fold (\<lambda>(now, e) _. Some (en_log_id e)) entries i"

lemma batch_simps [simp]:
  "batch_commands [] = []"
  "batch_membership [] m = m"
  "batch_last [] i = i"
  "batch_commands ((now, e) # es) =
     (case en_payload e of Normal c \<Rightarrow> [(now, c)] | _ \<Rightarrow> []) @ batch_commands es"
  "batch_membership ((now, e) # es) m = batch_membership es
     (case en_payload e of Membership mem \<Rightarrow> \<lparr>sm_log_id = Some (en_log_id e), sm_membership = mem\<rparr>
      | _ \<Rightarrow> m)"
  "batch_last ((now, e) # es) i = batch_last es (Some (en_log_id e))"
  by (simp_all add: batch_commands_def batch_membership_def batch_last_def)

lemma batch_last_last: "es \<noteq> [] \<Longrightarrow> batch_last es i = Some (en_log_id (snd (last es)))"
  by (induction es arbitrary: i rule: list_nonempty_induct) (auto simp: batch_last_def)

lemma set_via_meta_insert:
  "meta_insert T k b s = (r, s') \<longleftrightarrow>
     (\<exists>m. tr_insert T k b (sto_meta s) = (r, m) \<and> s' = s\<lparr>sto_meta := m\<rparr>)"
  by (auto simp: meta_insert_def split: prod.splits)

context sled_storage
begin

lemma reads_get: "reads T \<Longrightarrow> tr_get T t k = Inr (content t k)"
  using get_ok [of t k] unfolding reads_def by (metis is_ok_simps(1) sum.exhaust)

lemma meta_get_content:
  "reads T \<Longrightarrow> meta_get T k dec m =
     Option.bind (content m k) (\<lambda>b. case dec b of Inr x \<Rightarrow> Some x | Inl _ \<Rightarrow> None)"
  by (cases "content m k") (simp_all add: meta_get_def reads_get)

lemma get_via_content:
  assumes "reads T"
  shows "get_last_applied T C s =
      Option.bind (content (sto_meta s) KEY_LAST_APPLIED) (\<lambda>b. case dec_log_id C b of Inr x \<Rightarrow> Some x | Inl _ \<Rightarrow> None)"
    and "get_last_purged T C s =
      Option.bind (content (sto_meta s) KEY_LAST_PURGED) (\<lambda>b. case dec_log_id C b of Inr x \<Rightarrow> Some x | Inl _ \<Rightarrow> None)"
    and "get_vote T C s =
      Option.bind (content (sto_meta s) KEY_VOTE) (\<lambda>b. case dec_vote C b of Inr x \<Rightarrow> Some x | Inl _ \<Rightarrow> None)"
    and "get_membership T C s =
      (case Option.bind (content (sto_meta s) KEY_MEMBERSHIP)
         (\<lambda>b. case dec_membership C b of Inr x \<Rightarrow> Some x | Inl _ \<Rightarrow> None) of
        None \<Rightarrow> default_membership C | Some m \<Rightarrow> m)"
  using assms by (simp_all add: get_last_applied_def get_last_purged_def get_vote_def get_membership_def
      meta_get_content)

text \<open>What the writers of metadata change.\<close>

lemma meta_insert_ok:
  assumes "meta_insert T k b s = (Inr (), s')"
  shows "content (sto_meta s') = (content (sto_meta s))(k \<mapsto> b)" "sto_log s' = sto_log s" "sto_hive s' = sto_hive s"
  using assms insert_ok by (auto simp: set_via_meta_insert)

lemma meta_flush_ok:
  assumes "meta_flush T s = (r, s')"
  shows "content (sto_meta s') = content (sto_meta s)" "sto_log s' = sto_log s" "sto_hive s' = sto_hive s"
  using assms flush_keeps by (auto simp: meta_flush_def split: prod.splits)

lemma save_state_ok:
  assumes "save_state_snapshot T C s = (Inr (), s')"
  shows "content (sto_meta s') = (content (sto_meta s))(KEY_STATE_SNAPSHOT \<mapsto> enc_hive C (sto_hive s))"
    "sto_log s' = sto_log s" "sto_hive s' = sto_hive s"
proof -
  obtain s1 where "meta_insert T KEY_STATE_SNAPSHOT (enc_hive C (sto_hive s)) s = (Inr (), s1)"
    "meta_flush T s1 = (Inr (), s')"
    using assms by (auto simp: save_state_snapshot_def st_then_eq_Ok)
  from meta_insert_ok [OF this(1)] meta_flush_ok [OF this(2)]
  show "content (sto_meta s') = (content (sto_meta s))(KEY_STATE_SNAPSHOT \<mapsto> enc_hive C (sto_hive s))"
    "sto_log s' = sto_log s" "sto_hive s' = sto_hive s" by simp_all
qed

lemma set_last_applied_ok:
  assumes "set_last_applied T C i s = (Inr (), s')" and "reads T"
  shows "get_last_applied T C s' = Some i" "get_membership T C s' = get_membership T C s"
    "sto_log s' = sto_log s" "sto_hive s' = sto_hive s"
    "content (sto_meta s') KEY_STATE_SNAPSHOT = content (sto_meta s) KEY_STATE_SNAPSHOT"
  using meta_insert_ok [OF assms(1) [unfolded set_last_applied_def]]
  by (simp_all add: get_via_content [OF assms(2)] log_id_codec)

lemma set_membership_ok:
  assumes "set_membership T C m s = (Inr (), s')" and "reads T"
  shows "get_membership T C s' = m" "get_last_applied T C s' = get_last_applied T C s"
    "sto_log s' = sto_log s" "sto_hive s' = sto_hive s"
    "content (sto_meta s') KEY_STATE_SNAPSHOT = content (sto_meta s) KEY_STATE_SNAPSHOT"
  using meta_insert_ok [OF assms(1) [unfolded set_membership_def]]
  by (simp_all add: get_via_content [OF assms(2)] membership_codec)

lemma apply_entry_ok:
  assumes "apply_entry T C now e s = (Inr (), s')" and "reads T"
  shows "sto_hive s' = apply_log (batch_commands [(now, e)]) (sto_hive s)"
    "get_last_applied T C s' = Some (en_log_id e)"
    "get_membership T C s' = batch_membership [(now, e)] (get_membership T C s)"
    "sto_log s' = sto_log s"
    "content (sto_meta s') KEY_STATE_SNAPSHOT = content (sto_meta s) KEY_STATE_SNAPSHOT"
proof -
  obtain s1 where s1: "set_last_applied T C (en_log_id e) s = (Inr (), s1)"
    using assms(1) by (auto simp: apply_entry_def st_then_eq_Ok)
  note first = set_last_applied_ok [OF s1 assms(2)]
  show "sto_hive s' = apply_log (batch_commands [(now, e)]) (sto_hive s)"
    "get_last_applied T C s' = Some (en_log_id e)"
    "get_membership T C s' = batch_membership [(now, e)] (get_membership T C s)"
    "sto_log s' = sto_log s"
    "content (sto_meta s') KEY_STATE_SNAPSHOT = content (sto_meta s) KEY_STATE_SNAPSHOT"
    using assms(1) s1 first set_membership_ok [OF _ assms(2), of _ s1 s']
    by (auto simp: apply_entry_def get_via_content [OF assms(2)] split: EntryPayload.splits)
qed

lemma apply_entries_ok:
  assumes "apply_entries T C es s = (Inr rs, s')" and "reads T"
  shows "sto_hive s' = apply_log (batch_commands es) (sto_hive s) \<and> length rs = length es
    \<and> get_last_applied T C s' = batch_last es (get_last_applied T C s)
    \<and> get_membership T C s' = batch_membership es (get_membership T C s)
    \<and> sto_log s' = sto_log s
    \<and> content (sto_meta s') KEY_STATE_SNAPSHOT = content (sto_meta s) KEY_STATE_SNAPSHOT"
  using assms(1)
proof (induction es arbitrary: s rs)
  case (Cons x es)
  obtain now e where x: "x = (now, e)" by fastforce
  from Cons.prems obtain s1 rs1 where s1: "apply_entry T C now e s = (Inr (), s1)"
    and rest: "apply_entries T C es s1 = (Inr rs1, s')" and rs: "rs = () # rs1"
    by (auto simp: x st_then_eq_Ok)
  show ?case
    using Cons.IH [OF rest] apply_entry_ok [OF s1 assms(2)]
    by (simp add: x rs apply_log_append split: EntryPayload.splits)
qed simp

lemma apply_batch_ok:
  assumes "apply_to_state_machine T C es s = (Inr rs, s')" and "reads T"
  shows "sto_hive s' = apply_log (batch_commands es) (sto_hive s) \<and> length rs = length es
    \<and> get_last_applied T C s' = batch_last es (get_last_applied T C s)
    \<and> get_membership T C s' = batch_membership es (get_membership T C s)
    \<and> sto_log s' = sto_log s
    \<and> content (sto_meta s') KEY_STATE_SNAPSHOT = Some (enc_hive C (sto_hive s'))"
proof -
  obtain s1 where s1: "apply_entries T C es s = (Inr rs, s1)" "save_state_snapshot T C s1 = (Inr (), s')"
    using assms(1) by (auto simp: apply_to_state_machine_def st_then_eq_Ok)
  show ?thesis
    using apply_entries_ok [OF s1(1) assms(2)] save_state_ok [OF s1(2)]
    by (simp add: get_via_content [OF assms(2)])
qed

text \<open>Opening the trees again: the last saved state, and the metadata as they are.\<close>

lemma reopen:
  assumes "reads T"
  shows "\<exists>idx s'. storage_new T C l m h0 = Inr (idx, s') \<and> sto_log s' = l \<and> sto_meta s' = m
    \<and> sto_hive s' = (case content m KEY_STATE_SNAPSHOT of None \<Rightarrow> h0
        | Some b \<Rightarrow> (case dec_hive C b of Inr h \<Rightarrow> h | Inl _ \<Rightarrow> h0))"
  by (simp add: storage_new_def reads_get [OF assms] Let_def cong: option.case_cong sum.case_cong)

lemma install_ok:
  assumes "install_snapshot T C meta data r = (Inr (), r')" and "reads T"
    and "dec_hive C data = Inr h"
  shows "sto_hive r' = h"
    "get_last_applied T C r' = (case me_last_log_id meta of None \<Rightarrow> get_last_applied T C r | Some i \<Rightarrow> Some i)"
    "get_membership T C r' = me_last_membership meta"
    "content (sto_meta r') KEY_STATE_SNAPSHOT = Some (enc_hive C h)" "sto_log r' = sto_log r"
proof -
  let ?r0 = "r\<lparr>sto_hive := h\<rparr>"
  obtain r1 r2 where r1: "(case me_last_log_id meta of None \<Rightarrow> (Inr (), ?r0)
      | Some i \<Rightarrow> st_map_err (IoError SubjStateMachine VerbWrite) (set_last_applied T C i ?r0)) = (Inr (), r1)"
    and r2: "set_membership T C (me_last_membership meta) r1 = (Inr (), r2)"
    and r3: "save_state_snapshot T C r2 = (Inr (), r')"
    using assms(1,3) by (auto simp: install_snapshot_def st_then_eq_Ok cong: option.case_cong)
  have same: "get_last_applied T C ?r0 = get_last_applied T C r"
    by (simp add: get_via_content [OF assms(2)])
  have a: "sto_hive r1 = h" "sto_log r1 = sto_log r" "get_last_applied T C r1 =
      (case me_last_log_id meta of None \<Rightarrow> get_last_applied T C r | Some i \<Rightarrow> Some i)"
    using r1 same set_last_applied_ok [OF _ assms(2), of _ ?r0 r1] by (auto split: option.splits)
  note b = set_membership_ok [OF r2 assms(2)]
  note c = save_state_ok [OF r3]
  show "sto_hive r' = h" "sto_log r' = sto_log r"
    "content (sto_meta r') KEY_STATE_SNAPSHOT = Some (enc_hive C h)"
    "get_membership T C r' = me_last_membership meta"
    "get_last_applied T C r' = (case me_last_log_id meta of None \<Rightarrow> get_last_applied T C r | Some i \<Rightarrow> Some i)"
    using a b c by (simp_all add: get_via_content [OF assms(2)])
qed

lemma vote_ok:
  assumes "save_vote T C v s = (Inr (), s')" and "reads T"
  shows "read_vote T C s' = Inr (Some v)" "sto_hive s' = sto_hive s" "sto_log s' = sto_log s"
    "get_last_applied T C s' = get_last_applied T C s"
proof -
  obtain s1 where s1: "meta_insert T KEY_VOTE (enc_vote C v) s = (Inr (), s1)"
    "meta_flush T s1 = (Inr (), s')"
    using assms(1) by (auto simp: save_vote_def set_vote_def st_then_eq_Ok)
  show "read_vote T C s' = Inr (Some v)" "sto_hive s' = sto_hive s" "sto_log s' = sto_log s"
    "get_last_applied T C s' = get_last_applied T C s"
    using meta_insert_ok [OF s1(1)] meta_flush_ok [OF s1(2)]
    by (simp_all add: read_vote_def get_via_content [OF assms(2)] vote_codec)
qed

end

end
