(* ===== verification/SledProps.thy ===== *)
theory SledProps
  imports SledRefines
begin

text \<open>
  The properties of \<open>SledStorage\<close> and one instance of its parameters, on which the witnesses
  evaluate: a tree is the list of its writes, latest first, whose iterators sort it by key, and a
  stored value is the value itself under a tag for its kind.
\<close>

section \<open>A reference tree\<close>

lemma lex_less_irrefl [simp]: "\<not> lex_less x x"
  by (induction x) auto

lemma lex_less_trans: "lex_less x y \<Longrightarrow> lex_less y z \<Longrightarrow> lex_less x z"
proof (induction x y arbitrary: z rule: lex_less.induct)
  case (2 y ys)
  then show ?case by (cases z) simp_all
next
  case (3 x xs y ys)
  then show ?case by (cases z) (auto intro: less_trans)
qed simp

lemma lex_less_total: "x = y \<or> lex_less x y \<or> lex_less y x"
proof (induction x y rule: lex_less.induct)
  case (1 xs)
  then show ?case by (cases xs) simp_all
qed auto

type_synonym 'b ref_tree = "(bytes \<times> 'b) list"

fun put_sorted :: "bytes \<Rightarrow> 'b \<Rightarrow> 'b ref_tree \<Rightarrow> 'b ref_tree" where
  "put_sorted k b [] = [(k, b)]"
| "put_sorted k b ((j, c) # items) =
     (if k = j then (k, b) # items
      else if lex_less k j then (k, b) # (j, c) # items
      else (j, c) # put_sorted k b items)"

fun ref_items :: "'b ref_tree \<Rightarrow> 'b ref_tree" where
  "ref_items [] = []"
| "ref_items ((k, b) # t) = put_sorted k b (ref_items t)"

definition ref_tree_api :: "('b, 'b ref_tree) tree_api" where
  "ref_tree_api =
     \<lparr>tr_get = (\<lambda>t k. Inr (map_of t k)),
      tr_insert = (\<lambda>k b t. (Inr (), (k, b) # t)),
      tr_remove = (\<lambda>k t. (Inr (), filter (\<lambda>(j, _). j \<noteq> k) t)),
      tr_flush = (\<lambda>t. (Inr (), t)),
      tr_last = (\<lambda>t. Inr (if t = [] then None else Some (last (ref_items t)))),
      tr_range_from = (\<lambda>k t. map Inr (filter (\<lambda>(j, _). \<not> lex_less j k) (ref_items t))),
      tr_range_upto = (\<lambda>k t. map Inr (filter (\<lambda>(j, _). \<not> lex_less k j) (ref_items t)))\<rparr>"

lemma put_sorted_props:
  assumes "key_sorted items"
  shows "key_sorted (put_sorted k b items)
    \<and> set (put_sorted k b items) = insert (k, b) {(j, c) \<in> set items. j \<noteq> k}"
  using assms
proof (induction k b items rule: put_sorted.induct)
  case (1 k b)
  then show ?case by (simp add: key_sorted_def)
next
  case (2 k b j c items)
  have js: "\<forall>x \<in> set items. lex_less j (fst x)" and s: "key_sorted items"
    using 2(2) by (auto simp: key_sorted_def)
  consider "k = j" | "k \<noteq> j" "lex_less k j" | "k \<noteq> j" "lex_less j k"
    using lex_less_total [of k j] by blast
  then show ?case
  proof cases
    case 1
    with js s show ?thesis by (auto simp: key_sorted_def)
  next
    case 2
    with js have "\<forall>x \<in> set items. lex_less k (fst x)" by (blast intro: lex_less_trans)
    with 2 js s show ?thesis by (auto simp: key_sorted_def)
  next
    case 3
    then have nl: "\<not> lex_less k j" by (metis lex_less_irrefl lex_less_trans)
    have ih: "key_sorted (put_sorted k b items)"
      "set (put_sorted k b items) = insert (k, b) {(j, c) \<in> set items. j \<noteq> k}"
      using 2(1) [OF 3(1) nl s] by simp_all
    have "\<forall>x \<in> set (put_sorted k b items). lex_less j (fst x)"
      using js 3 unfolding ih(2) by auto
    then have "key_sorted ((j, c) # put_sorted k b items)"
      using ih(1) by (simp add: key_sorted_def)
    moreover have "set ((j, c) # put_sorted k b items) = insert (k, b) {(i, d) \<in> set ((j, c) # items). i \<noteq> k}"
      using 3 unfolding set_simps ih(2) by auto
    ultimately show ?thesis using 3 nl by auto
  qed
qed

lemma ref_items_props: "key_sorted (ref_items t) \<and> set (ref_items t) = {(k, b). map_of t k = Some b}"
proof (induction t rule: ref_items.induct)
  case 1
  then show ?case by (simp add: key_sorted_def)
next
  case (2 k b t)
  then show ?case using put_sorted_props [of "ref_items t" k b] by (auto split: if_splits)
qed

lemma put_sorted_nonempty: "put_sorted k b items \<noteq> []"
  by (cases items) (auto split: if_splits)

lemma ref_items_nonempty: "t \<noteq> [] \<Longrightarrow> ref_items t \<noteq> []"
  by (cases t rule: ref_items.cases) (simp_all add: put_sorted_nonempty)

lemma key_sorted_last:
  assumes "key_sorted items" "x \<in> set items"
  shows "\<not> lex_less (fst (last items)) (fst x)"
  using assms
proof (induction items)
  case (Cons a items)
  then show ?case
    by (cases "items = []") (auto simp: key_sorted_def, (metis last_in_set lex_less_irrefl lex_less_trans)?)
qed simp

lemma map_of_filter_key: "map_of (filter (\<lambda>(j, _). j \<noteq> k) t) = (map_of t)(k := None)"
  by (induction t) auto

lemma ref_range_ok:
  assumes "map Inr (filter (\<lambda>(j, _). P j) (ref_items t)) = map Inr items"
  shows "key_sorted items \<and> set items = {(j, b). map_of t j = Some b \<and> P j}"
proof -
  have "items = filter (\<lambda>(j, _). P j) (ref_items t)"
    using assms by (simp add: inj_map_eq_map inj_def)
  with ref_items_props [of t] show ?thesis
    by (auto simp: key_sorted_def sorted_wrt_filter)
qed

lemma ref_last_ok:
  assumes "t \<noteq> []" "last (ref_items t) = (k, b)"
  shows "map_of t k = Some b \<and> (\<forall>j \<in> dom (map_of t). \<not> lex_less k j)"
proof -
  have "(k, b) \<in> set (ref_items t)"
    using last_in_set [OF ref_items_nonempty [OF assms(1)]] assms(2) by simp
  moreover have "\<not> lex_less k j" if "map_of t j = Some c" for j c
    using key_sorted_last [of "ref_items t" "(j, c)"] ref_items_props [of t] assms(2) that by auto
  ultimately show ?thesis using ref_items_props [of t] by auto
qed

interpretation ref_tree: sled_tree ref_tree_api map_of
proof unfold_locales
  fix t :: "'b ref_tree" and k b items
  show "tr_range_from ref_tree_api k t = map Inr items \<Longrightarrow>
      key_sorted items \<and> set items = {(j, b). map_of t j = Some b \<and> \<not> lex_less j k}"
    by (rule ref_range_ok) (simp add: ref_tree_api_def)
  show "tr_range_upto ref_tree_api k t = map Inr items \<Longrightarrow>
      key_sorted items \<and> set items = {(j, b). map_of t j = Some b \<and> \<not> lex_less k j}"
    by (rule ref_range_ok) (simp add: ref_tree_api_def)
  show "tr_last ref_tree_api t = Inr (Some (k, b)) \<Longrightarrow>
      map_of t k = Some b \<and> (\<forall>j \<in> dom (map_of t). \<not> lex_less k j)"
    by (rule ref_last_ok) (auto simp: ref_tree_api_def split: if_splits)
qed (auto simp: ref_tree_api_def map_of_filter_key split: if_splits)

lemma ref_tree_reads [simp]: "reads ref_tree_api"
  by (simp add: reads_def ref_tree_api_def)

lemma ref_tree_iterates [simp]: "iterates ref_tree_api"
  by (simp add: iterates_def ref_tree_api_def list_all_iff)

section \<open>A reference codec\<close>

datatype ('j, 'm, 'v) blob =
    EntryBlob "('j, 'm) Entry"
  | HiveBlob "'j HiveState"
  | VoteBlob 'v
  | LogIdBlob LogId
  | MembershipBlob "'m StoredMembership"
  | U64Blob u64

definition ref_codec :: "'m \<Rightarrow> ('j, 'm, 'v, ('j, 'm, 'v) blob) storage_codec" where
  "ref_codec m0 =
     \<lparr>enc_entry = EntryBlob, dec_entry = (\<lambda>b. case b of EntryBlob e \<Rightarrow> Inr e | _ \<Rightarrow> Inl ''bad entry''),
      enc_hive = HiveBlob, dec_hive = (\<lambda>b. case b of HiveBlob h \<Rightarrow> Inr h | _ \<Rightarrow> Inl ''bad state''),
      enc_vote = VoteBlob, dec_vote = (\<lambda>b. case b of VoteBlob v \<Rightarrow> Inr v | _ \<Rightarrow> Inl ''bad vote''),
      enc_log_id = LogIdBlob, dec_log_id = (\<lambda>b. case b of LogIdBlob i \<Rightarrow> Inr i | _ \<Rightarrow> Inl ''bad id''),
      enc_membership = MembershipBlob,
      dec_membership = (\<lambda>b. case b of MembershipBlob m \<Rightarrow> Inr m | _ \<Rightarrow> Inl ''bad membership''),
      default_membership = \<lparr>sm_log_id = None, sm_membership = m0\<rparr>,
      enc_u64 = U64Blob, dec_u64 = (\<lambda>b. case b of U64Blob n \<Rightarrow> Inr n | _ \<Rightarrow> Inl ''bad counter''),
      leader_text = (\<lambda>t n. ''T'' @ u64_to_string t @ ''-N'' @ u64_to_string n)\<rparr>"

interpretation ref_store: sled_storage ref_tree_api map_of "ref_codec m0"
  by unfold_locales (simp_all add: ref_codec_def)

lemma ref_store_law [intro]: "sled_storage ref_tree_api map_of (ref_codec m0)"
  by (rule ref_store.sled_storage_axioms)

lemma ref_entry_storable [simp]: "entry_storable (ref_codec m0) e"
  by (simp add: entry_storable_def ref_codec_def)

lemma ref_hive_storable [simp]: "hive_storable (ref_codec m0) h"
  by (simp add: hive_storable_def ref_codec_def)

section \<open>Instances for the witnesses\<close>

definition log_id :: "u64 \<Rightarrow> LogId" where
  "log_id i = \<lparr>li_term = 1, li_node = 7, li_index = i\<rparr>"

definition goal_named :: "string \<Rightarrow> Goal" where
  "goal_named i = \<lparr>gl_id = i, gl_description = ''goal'', gl_constraints = [], gl_priority = 5,
     gl_active = True, gl_created_at = 0\<rparr>"

definition goal_entry :: "u64 \<Rightarrow> (unit, unit) Entry" where
  "goal_entry i = \<lparr>en_log_id = log_id i, en_payload = Normal (PutGoal (goal_named ''g''))\<rparr>"

definition blank_entry :: "u64 \<Rightarrow> (unit, unit) Entry" where
  "blank_entry i = \<lparr>en_log_id = log_id i, en_payload = Blank\<rparr>"

type_synonym ref_store = "(unit, (unit, unit, unit) blob ref_tree) store"

definition empty_store :: ref_store where
  "empty_store = \<lparr>sto_log = [], sto_meta = [], sto_hive = hive_new\<rparr>"

abbreviation unit_codec :: "(unit, unit, unit, (unit, unit, unit) blob) storage_codec" where
  "unit_codec \<equiv> ref_codec ()"

lemma ref_tree_simps [simp]:
  "tr_get ref_tree_api t k = Inr (map_of t k)"
  "tr_insert ref_tree_api k b t = (Inr (), (k, b) # t)"
  "tr_remove ref_tree_api k t = (Inr (), filter (\<lambda>(j, _). j \<noteq> k) t)"
  "tr_flush ref_tree_api t = (Inr (), t)"
  by (simp_all add: ref_tree_api_def)

lemma remove_keys_ref [simp]:
  "remove_keys ref_tree_api ks t = (Inr (), fold (\<lambda>k. filter (\<lambda>(j, _). j \<noteq> k)) ks t)"
  by (induction ks arbitrary: t) simp_all

lemma unit_codec_simps [simp]:
  "dec_hive (ref_codec m0) (HiveBlob h) = Inr h" "enc_hive (ref_codec m0) h = HiveBlob h"
  "dec_log_id (ref_codec m0) (LogIdBlob i) = Inr i" "enc_log_id (ref_codec m0) i = LogIdBlob i"
  "enc_entry (ref_codec m0) e = EntryBlob e" "enc_vote (ref_codec m0) v = VoteBlob v"
  "enc_membership (ref_codec m0) m = MembershipBlob m"
  "dec_membership (ref_codec m0) (MembershipBlob m) = Inr m"
  by (simp_all add: ref_codec_def)

lemmas store_op_defs = meta_insert_def meta_flush_def set_vote_def set_last_purged_def
  set_last_applied_def set_membership_def save_state_snapshot_def save_vote_def append_to_log_def
  on_log_def apply_to_state_machine_def apply_entry_def install_snapshot_def

lemma ref_install_succeeds:
  "\<exists>r'. install_snapshot ref_tree_api (ref_codec m0) meta (HiveBlob h) r = (Ok (), r')"
  by (cases "me_last_log_id meta") (simp_all add: store_op_defs)

text \<open>The bounds of a range of indices, as Rust's \<open>RangeBounds\<close> means them.\<close>

fun above :: "range_bound \<Rightarrow> u64 \<Rightarrow> bool" where
  "above (Included s) i \<longleftrightarrow> unat s \<le> unat i"
| "above (Excluded s) i \<longleftrightarrow> unat s < unat i"
| "above Unbounded i \<longleftrightarrow> True"

fun below :: "range_bound \<Rightarrow> u64 \<Rightarrow> bool" where
  "below (Included e) i \<longleftrightarrow> unat i \<le> unat e"
| "below (Excluded e) i \<longleftrightarrow> unat i < unat e"
| "below Unbounded i \<longleftrightarrow> True"

lemma above_range_start: "lo \<noteq> Excluded (- 1) \<Longrightarrow> range_start lo \<le> i \<longleftrightarrow> above lo i"
proof (cases lo)
  case (Excluded s)
  assume "lo \<noteq> Excluded (- 1)"
  with Excluded have "s \<noteq> - 1" by simp
  then have "unat (s + 1) = Suc (unat s)" by (metis add.commute unatSuc wi_hom_succ word_succ_p1 eq_neg_iff_add_eq_0)
  with Excluded show ?thesis by (simp add: word_le_nat_alt Suc_le_eq)
qed (simp_all add: word_le_nat_alt)

lemma below_range_end: "hi \<noteq> Included (- 1) \<Longrightarrow> \<not> past_end (range_end hi) i \<longleftrightarrow> below hi i"
proof (cases hi)
  case (Included e)
  assume "hi \<noteq> Included (- 1)"
  with Included have "e \<noteq> - 1" by simp
  then have "unat (e + 1) = Suc (unat e)" by (metis add.commute unatSuc wi_hom_succ word_succ_p1 eq_neg_iff_add_eq_0)
  with Included show ?thesis by (simp add: past_end_def word_le_nat_alt Suc_le_eq not_less)
qed (simp_all add: past_end_def word_le_nat_alt not_le)

section \<open>Properties of the log\<close>

text \<open>C12. Whatever sequence of appends, deletions of a conflicting suffix and purges of a prefix
  succeeds, the log tree then holds exactly the entries that the same operations leave in a map
  from indices to entries, each under its own index: the big-endian keys keep numerical order, so
  the range deletions remove neither too much nor too little.\<close>

theorem log_refines_map:
  assumes "sled_storage T content C" and "iterates T"
    and "\<forall>op \<in> set ops. \<forall>e \<in> set (op_entries op). entry_storable C e"
    and "log_wf content C (sto_log s)" and "log_run T C ops s = (Ok (), s')"
  shows "log_wf content C (sto_log s')
    \<and> log_abs content C (sto_log s') = fold abs_log_step ops (log_abs content C (sto_log s))"
  using sled_tree.log_run_ok [OF sled_storage.axioms(1) [OF assms(1)] assms(5,2,3,4)] .

theorem log_refines_map_witness:
  "\<exists>s'. log_run ref_tree_api unit_codec
      [LogAppend [blank_entry 1, goal_entry 2, goal_entry 300], LogDeleteSince (log_id 300),
       LogPurgeUpto (log_id 1)] empty_store = (Ok (), s')
    \<and> dom (log_abs map_of unit_codec (sto_log s')) = {2}"
proof -
  let ?ops = "[LogAppend [blank_entry 1, goal_entry 2, goal_entry 300], LogDeleteSince (log_id 300),
       LogPurgeUpto (log_id 1)]"
  have run: "\<exists>s'. log_run ref_tree_api unit_codec ?ops empty_store = (Ok (), s')"
    by (simp add: store_op_defs delete_conflict_logs_since_def purge_logs_upto_def)
  then obtain s' where s': "log_run ref_tree_api unit_codec ?ops empty_store = (Ok (), s')" by blast
  have "log_abs map_of unit_codec (sto_log s') =
      fold abs_log_step ?ops (log_abs map_of unit_codec (sto_log empty_store))"
    using log_refines_map [OF ref_store_law ref_tree_iterates _ _ s']
    by (simp add: empty_store_def log_wf_def)
  then have "dom (log_abs map_of unit_codec (sto_log s')) = {2}"
    by (auto simp: empty_store_def log_abs_def dom_def restrict_map_def en_index_def
        blank_entry_def goal_entry_def log_id_def split: if_splits)
  with s' show ?thesis by blast
qed

text \<open>C24. Reading a range of the log returns, in increasing order of index, exactly the entries whose
  index is within the bounds, as numbers, and does return when the tree can be iterated. The bounds
  that the code's arithmetic cannot express, from above the largest index and up to the largest
  index inclusively, are left out; the second of them reads nothing.\<close>

theorem log_reads_exact:
  assumes "sled_storage T content C" and "iterates T" and "log_wf content C (sto_log s)"
    and "lo \<noteq> Excluded (- 1)" and "hi \<noteq> Included (- 1)"
  shows "\<exists>es. try_get_log_entries T C lo hi s = Ok es \<and> sorted_wrt (<) (map en_index es)
    \<and> set es = {e. \<exists>i. log_abs content C (sto_log s) i = Some e \<and> above lo i \<and> below hi i}"
  using sled_tree.read_range [OF sled_storage.axioms(1) [OF assms(1)] assms(2,3), of lo hi]
  by (simp add: above_range_start [OF assms(4)] below_range_end [OF assms(5)])

theorem log_reads_exact_witness:
  "\<exists>es. try_get_log_entries ref_tree_api unit_codec (Included 2) (Included 2)
       \<lparr>sto_log = [(log_key 300, EntryBlob (goal_entry 300)), (log_key 2, EntryBlob (goal_entry 2)),
                   (log_key 1, EntryBlob (blank_entry 1))],
        sto_meta = [], sto_hive = hive_new\<rparr> = Ok es \<and> set es = {goal_entry 2}"
proof -
  let ?s = "\<lparr>sto_log = [(log_key 300, EntryBlob (goal_entry 300)), (log_key 2, EntryBlob (goal_entry 2)),
                   (log_key 1, EntryBlob (blank_entry 1))],
        sto_meta = [], sto_hive = hive_new\<rparr> :: ref_store"
  have "log_wf map_of unit_codec (sto_log ?s)"
    by (auto simp: log_wf_def ref_codec_def en_index_def goal_entry_def blank_entry_def log_id_def
        split: if_splits)
  from log_reads_exact [OF ref_store_law ref_tree_iterates this, of "Included 2" "Included 2"]
  obtain es where es: "try_get_log_entries ref_tree_api unit_codec (Included 2) (Included 2) ?s = Ok es"
    "set es = {e. \<exists>i. log_abs map_of unit_codec (sto_log ?s) i = Some e \<and> unat (2 :: u64) \<le> unat i \<and> unat i \<le> unat (2 :: u64)}"
    by auto
  have two: "unat (2 :: u64) \<le> unat i \<and> unat i \<le> unat (2 :: u64) \<longleftrightarrow> i = 2" for i :: u64
    by (metis order_antisym order_refl word_unat_eq_iff)
  have "set es = {e. log_abs map_of unit_codec (sto_log ?s) 2 = Some e}"
    unfolding es(2) two by simp
  also have "\<dots> = {goal_entry 2}" by (auto simp: log_abs_def ref_codec_def)
  finally show ?thesis using es(1) by blast
qed

text \<open>The largest index as an inclusive end: one more than it wraps to 0, and nothing is read.\<close>

theorem inclusive_maximum_reads_nothing:
  assumes "sled_storage T content C" and "iterates T" and "log_wf content C (sto_log s)"
  shows "try_get_log_entries T C lo (Included (- 1)) s = Ok []"
proof -
  obtain es where es: "try_get_log_entries T C lo (Included (- 1)) s = Ok es"
    "set es = {e. \<exists>i. log_abs content C (sto_log s) i = Some e \<and> range_start lo \<le> i \<and> \<not> past_end (range_end (Included (- 1))) i}"
    using sled_tree.read_range [OF sled_storage.axioms(1) [OF assms(1)] assms(2,3), of lo "Included (- 1)"] by blast
  have "set es = {}" unfolding es(2) by (simp add: past_end_def)
  with es(1) show ?thesis by simp
qed

theorem inclusive_maximum_reads_nothing_witness:
  "try_get_log_entries ref_tree_api unit_codec Unbounded (Included (- 1))
     \<lparr>sto_log = [(log_key 2, EntryBlob (goal_entry 2))], sto_meta = [], sto_hive = hive_new\<rparr> = Ok []"
proof -
  let ?s = "\<lparr>sto_log = [(log_key 2, EntryBlob (goal_entry 2))], sto_meta = [], sto_hive = hive_new\<rparr> :: ref_store"
  have "log_wf map_of unit_codec (sto_log ?s)"
    by (auto simp: log_wf_def ref_codec_def en_index_def goal_entry_def log_id_def split: if_splits)
  from inclusive_maximum_reads_nothing [OF ref_store_law ref_tree_iterates this] show ?thesis by blast
qed

text \<open>\<open>get_log_state\<close> reports the id of the entry with the highest index; it reports no last
  log id exactly when the log is empty, also after a purge has emptied it.\<close>

theorem log_state_is_last:
  assumes "sled_storage T content C" and "log_wf content C (sto_log s)"
    and "get_log_state T C s = Ok ls"
  shows "case lg_last_log_id ls of
      None \<Rightarrow> log_abs content C (sto_log s) = Map.empty
    | Some l \<Rightarrow> (\<exists>e. log_abs content C (sto_log s) (li_index l) = Some e \<and> en_log_id e = l)
        \<and> (\<forall>i \<in> dom (log_abs content C (sto_log s)). i \<le> li_index l)"
  using sled_tree.log_state_last [OF sled_storage.axioms(1) [OF assms(1)] assms(3,2)] .

theorem log_state_is_last_witness:
  "get_log_state ref_tree_api unit_codec
       \<lparr>sto_log = [(log_key 2, EntryBlob (goal_entry 2))], sto_meta = [], sto_hive = hive_new\<rparr>
     = Ok \<lparr>lg_last_purged = None, lg_last_log_id = Some (log_id 2)\<rparr>
   \<and> dom (log_abs map_of unit_codec [(log_key 2, EntryBlob (goal_entry 2))]) \<subseteq> {i. i \<le> 2}"
proof -
  let ?s = "\<lparr>sto_log = [(log_key 2, EntryBlob (goal_entry 2))], sto_meta = [],
             sto_hive = hive_new\<rparr> :: ref_store"
  have wf: "log_wf map_of unit_codec (sto_log ?s)"
    by (auto simp: log_wf_def ref_codec_def en_index_def goal_entry_def log_id_def split: if_splits)
  have ls: "get_log_state ref_tree_api unit_codec ?s =
      Ok \<lparr>lg_last_purged = None, lg_last_log_id = Some (log_id 2)\<rparr>"
    by (simp add: get_log_state_def get_last_purged_def meta_get_def ref_tree_api_def ref_codec_def
        goal_entry_def)
  from log_state_is_last [OF ref_store_law wf ls] ls show ?thesis
    by (auto simp: log_id_def)
qed

section \<open>Properties of the state machine and of snapshots\<close>

text \<open>When \<open>apply_to_state_machine\<close> succeeds, the state machine has applied exactly the
  commands of the batch in order, the last applied log id is the one of the batch's last entry, the
  membership is the one of its last membership entry, there is one response per entry and the log
  is untouched.\<close>

theorem batch_applied_in_order:
  assumes "sled_storage T content C" and "reads T"
    and "apply_to_state_machine T C entries s = (Ok results, s')"
  shows "sto_hive s' = apply_log (batch_commands entries) (sto_hive s)
    \<and> last_applied_state T C s' =
        Ok (batch_last entries (get_last_applied T C s), batch_membership entries (get_membership T C s))
    \<and> length results = length entries \<and> sto_log s' = sto_log s"
  using sled_storage.apply_batch_ok [OF assms(1,3,2)] by (simp add: last_applied_state_def)

theorem batch_applied_in_order_witness:
  "\<exists>s'. apply_to_state_machine ref_tree_api unit_codec [(5, blank_entry 1), (6, goal_entry 2)] empty_store
      = (Ok [(), ()], s')
    \<and> sto_hive s' = apply_command 6 (PutGoal (goal_named ''g'')) hive_new
    \<and> get_last_applied ref_tree_api unit_codec s' = Some (log_id 2)"
proof -
  obtain s' where s': "apply_to_state_machine ref_tree_api unit_codec
      [(5, blank_entry 1), (6, goal_entry 2)] empty_store = (Ok [(), ()], s')"
    by (simp add: store_op_defs blank_entry_def goal_entry_def)
  from batch_applied_in_order [OF ref_store_law ref_tree_reads s'] s' show ?thesis
    by (simp add: last_applied_state_def blank_entry_def goal_entry_def empty_store_def)
qed

text \<open>After a batch has been applied, a restart loses nothing: opening the same trees again with
  any initial state restores a state with the same tables, the same last applied log id and the
  same membership, provided the state can be serialised.\<close>

theorem restart_restores_batch:
  assumes "sled_storage T content C" and "reads T"
    and "apply_to_state_machine T C entries s = (Ok results, s')"
    and "hive_storable C (sto_hive s')"
  shows "\<exists>idx s''. storage_new T C (sto_log s') (sto_meta s') h0 = Ok (idx, s'')
    \<and> hive_equiv (sto_hive s'') (sto_hive s')
    \<and> last_applied_state T C s'' = last_applied_state T C s'"
proof -
  have saved: "content (sto_meta s') KEY_STATE_SNAPSHOT = Some (enc_hive C (sto_hive s'))"
    using sled_storage.apply_batch_ok [OF assms(1,3,2)] by blast
  obtain idx s'' where r: "storage_new T C (sto_log s') (sto_meta s') h0 = Ok (idx, s'')"
    "sto_meta s'' = sto_meta s'"
    "sto_hive s'' = (case content (sto_meta s') KEY_STATE_SNAPSHOT of None \<Rightarrow> h0
        | Some b \<Rightarrow> (case dec_hive C b of Inr h \<Rightarrow> h | Inl _ \<Rightarrow> h0))"
    using sled_storage.reopen [OF assms(1,2), of "sto_log s'" "sto_meta s'" h0] by blast
  moreover have "hive_equiv (sto_hive s'') (sto_hive s')"
    using assms(4) saved r(3) by (auto simp: hive_storable_def)
  ultimately show ?thesis
    by (simp add: last_applied_state_def get_last_applied_def get_membership_def)
qed

theorem restart_restores_batch_witness:
  "\<exists>s' idx s''. apply_to_state_machine ref_tree_api unit_codec [(6, goal_entry 2)] empty_store = (Ok [()], s')
    \<and> storage_new ref_tree_api unit_codec (sto_log s') (sto_meta s') hive_new = Ok (idx, s'')
    \<and> hm_get (hs_goals (sto_hive s'')) ''g'' = Some (goal_named ''g'')"
proof -
  obtain s' where s': "apply_to_state_machine ref_tree_api unit_codec [(6, goal_entry 2)] empty_store
      = (Ok [()], s')" "hm_get (hs_goals (sto_hive s')) ''g'' = Some (goal_named ''g'')"
    by (simp add: store_op_defs goal_entry_def empty_store_def goal_named_def)
  with restart_restores_batch [OF ref_store_law ref_tree_reads s'(1) ref_hive_storable, of hive_new]
  show ?thesis by (auto simp: hive_equiv_tables hm_equiv_get)
qed

text \<open>A crash inside \<open>apply_to_state_machine\<close>, after an entry has been applied and before the state
  has been saved, loses that entry's command for good: the restarted storage reports the entry as
  applied, while the state it restores is the one that was saved before the batch.\<close>

theorem crash_inside_batch_loses_command:
  assumes "sled_storage T content C" and "reads T"
    and "apply_entry T C now entry s = (Ok (), s')"
    and "storage_new T C (sto_log s) (sto_meta s) h0 = Ok (idx, before)"
  shows "\<exists>idx' after. storage_new T C (sto_log s') (sto_meta s') h0 = Ok (idx', after)
    \<and> get_last_applied T C after = Some (en_log_id entry)
    \<and> sto_hive after = sto_hive before"
proof -
  have e: "content (sto_meta s') KEY_STATE_SNAPSHOT = content (sto_meta s) KEY_STATE_SNAPSHOT"
    "get_last_applied T C s' = Some (en_log_id entry)"
    using sled_storage.apply_entry_ok [OF assms(1,3,2)] by blast+
  obtain idx' after where r: "storage_new T C (sto_log s') (sto_meta s') h0 = Ok (idx', after)"
    "sto_meta after = sto_meta s'"
    "sto_hive after = (case content (sto_meta s') KEY_STATE_SNAPSHOT of None \<Rightarrow> h0
        | Some b \<Rightarrow> (case dec_hive C b of Inr h \<Rightarrow> h | Inl _ \<Rightarrow> h0))"
    using sled_storage.reopen [OF assms(1,2), of "sto_log s'" "sto_meta s'" h0] by blast
  have "sto_hive before = (case content (sto_meta s) KEY_STATE_SNAPSHOT of None \<Rightarrow> h0
        | Some b \<Rightarrow> (case dec_hive C b of Inr h \<Rightarrow> h | Inl _ \<Rightarrow> h0))"
    using sled_storage.reopen [OF assms(1,2), of "sto_log s" "sto_meta s" h0] assms(4) by auto
  with e r show ?thesis by (simp add: get_last_applied_def)
qed

theorem crash_inside_batch_loses_command_witness:
  "\<exists>s' idx after. apply_entry ref_tree_api unit_codec 6 (goal_entry 2) empty_store = (Ok (), s')
    \<and> hm_get (hs_goals (sto_hive s')) ''g'' = Some (goal_named ''g'')
    \<and> storage_new ref_tree_api unit_codec (sto_log s') (sto_meta s') hive_new = Ok (idx, after)
    \<and> get_last_applied ref_tree_api unit_codec after = Some (log_id 2)
    \<and> hm_get (hs_goals (sto_hive after)) ''g'' = None"
proof -
  obtain s' where s': "apply_entry ref_tree_api unit_codec 6 (goal_entry 2) empty_store = (Ok (), s')"
    "hm_get (hs_goals (sto_hive s')) ''g'' = Some (goal_named ''g'')"
    by (simp add: store_op_defs goal_entry_def empty_store_def goal_named_def)
  have "storage_new ref_tree_api unit_codec (sto_log empty_store) (sto_meta empty_store) hive_new
      = Ok (0, empty_store)"
    by (simp add: storage_new_def empty_store_def)
  from crash_inside_batch_loses_command [OF ref_store_law ref_tree_reads s'(1) this] s' show ?thesis
    by (auto simp: empty_store_def hive_new_def goal_entry_def)
qed

text \<open>A snapshot that is built without interference and installed elsewhere carries the state:
  the receiver then has the sender's tables, membership and (when the sender has one) last applied
  log id, keeps its own log, and saves the installed state for its next restart.\<close>

theorem snapshot_transfers_state:
  assumes "sled_storage T content C" and "reads T"
    and "build_snapshot T C idx s = (snap, idx', s1)" and "hive_storable C (sto_hive s)"
    and "install_snapshot T C (sp_meta snap) (sp_data snap) r = (Ok (), r')"
  shows "hive_equiv (sto_hive r') (sto_hive s)
    \<and> get_membership T C r' = get_membership T C s
    \<and> get_last_applied T C r' =
        (case get_last_applied T C s of None \<Rightarrow> get_last_applied T C r | Some i \<Rightarrow> Some i)
    \<and> sto_log r' = sto_log r
    \<and> content (sto_meta r') KEY_STATE_SNAPSHOT = Some (enc_hive C (sto_hive r'))"
proof -
  obtain h where h: "dec_hive C (sp_data snap) = Ok h" "hive_equiv h (sto_hive s)"
    using assms(3,4) by (auto simp: build_snapshot_def snapshot_meta_def snapshot_state_def
        hive_storable_def Let_def)
  from sled_storage.install_ok [OF assms(1,5,2) h(1)] h(2) assms(3) show ?thesis
    by (auto simp: build_snapshot_def snapshot_meta_def Let_def)
qed

theorem snapshot_transfers_state_witness:
  "\<exists>s snap idx s1 r'. apply_to_state_machine ref_tree_api unit_codec [(6, goal_entry 2)] empty_store = (Ok [()], s)
    \<and> build_snapshot ref_tree_api unit_codec 0 s = (snap, idx, s1)
    \<and> install_snapshot ref_tree_api unit_codec (sp_meta snap) (sp_data snap) empty_store = (Ok (), r')
    \<and> hm_get (hs_goals (sto_hive r')) ''g'' = Some (goal_named ''g'')"
proof -
  obtain s where s: "apply_to_state_machine ref_tree_api unit_codec [(6, goal_entry 2)] empty_store
      = (Ok [()], s)" "hm_get (hs_goals (sto_hive s)) ''g'' = Some (goal_named ''g'')"
    by (simp add: store_op_defs goal_entry_def empty_store_def goal_named_def)
  obtain snap idx s1 where b: "build_snapshot ref_tree_api unit_codec 0 s = (snap, idx, s1)"
    using prod_cases3 by blast
  obtain r' where i: "install_snapshot ref_tree_api unit_codec (sp_meta snap) (sp_data snap) empty_store = (Ok (), r')"
    using b ref_install_succeeds
    by (fastforce simp: build_snapshot_def snapshot_meta_def snapshot_state_def Let_def)
  from snapshot_transfers_state [OF ref_store_law ref_tree_reads b ref_hive_storable i] s b i
  show ?thesis by (fastforce simp: hive_equiv_tables hm_equiv_get)
qed

text \<open>\<open>build_snapshot\<close> does not lock out the state machine between its two readings: when a batch
  is applied between them, the snapshot claims the batch's last log id but holds the state from
  before it, and a node that installs it reports the batch as applied without its commands.\<close>

theorem racing_snapshot_drops_commands:
  assumes "sled_storage T content C" and "reads T"
    and "hive_storable C (sto_hive s)" and "entries \<noteq> []"
    and "apply_to_state_machine T C entries s = (Ok results, s1)"
    and "snapshot_meta T C (snapshot_state C s) idx s1 = (snap, idx', s2)"
    and "install_snapshot T C (sp_meta snap) (sp_data snap) r = (Ok (), r')"
  shows "get_last_applied T C r' = Some (en_log_id (snd (last entries)))
    \<and> hive_equiv (sto_hive r') (sto_hive s)"
proof -
  obtain h where h: "dec_hive C (sp_data snap) = Ok h" "hive_equiv h (sto_hive s)"
    using assms(3,6) by (auto simp: snapshot_meta_def snapshot_state_def hive_storable_def Let_def)
  have "get_last_applied T C s1 = Some (en_log_id (snd (last entries)))"
    using sled_storage.apply_batch_ok [OF assms(1,5,2)] batch_last_last [OF assms(4)] by simp
  with sled_storage.install_ok [OF assms(1,7,2) h(1)] h(2) assms(6) show ?thesis
    by (auto simp: snapshot_meta_def Let_def)
qed

theorem racing_snapshot_drops_commands_witness:
  "\<exists>s1 snap idx s2 r'. apply_to_state_machine ref_tree_api unit_codec [(6, goal_entry 2)] empty_store = (Ok [()], s1)
    \<and> snapshot_meta ref_tree_api unit_codec (snapshot_state unit_codec empty_store) 0 s1 = (snap, idx, s2)
    \<and> install_snapshot ref_tree_api unit_codec (sp_meta snap) (sp_data snap) empty_store = (Ok (), r')
    \<and> get_last_applied ref_tree_api unit_codec r' = Some (log_id 2)
    \<and> hm_get (hs_goals (sto_hive r')) ''g'' = None"
proof -
  obtain s1 where s1: "apply_to_state_machine ref_tree_api unit_codec [(6, goal_entry 2)] empty_store
      = (Ok [()], s1)"
    by (simp add: store_op_defs goal_entry_def)
  obtain snap idx s2 where b: "snapshot_meta ref_tree_api unit_codec
      (snapshot_state unit_codec empty_store) 0 s1 = (snap, idx, s2)"
    using prod_cases3 by blast
  obtain r' where i: "install_snapshot ref_tree_api unit_codec (sp_meta snap) (sp_data snap) empty_store = (Ok (), r')"
    using b ref_install_succeeds by (fastforce simp: snapshot_meta_def snapshot_state_def Let_def)
  from racing_snapshot_drops_commands [OF ref_store_law ref_tree_reads ref_hive_storable _ s1 b i] s1 b i
  show ?thesis
    by (fastforce simp: hive_equiv_tables hm_equiv_get empty_store_def hive_new_def goal_entry_def)
qed

text \<open>A vote that was saved is the vote that is read, also after a restart, and saving it touches
  neither the log nor the state nor the last applied log id.\<close>

theorem saved_vote_is_read:
  assumes "sled_storage T content C" and "reads T" and "save_vote T C v s = (Ok (), s')"
  shows "read_vote T C s' = Ok (Some v) \<and> sto_log s' = sto_log s \<and> sto_hive s' = sto_hive s
    \<and> get_last_applied T C s' = get_last_applied T C s
    \<and> (\<exists>idx s''. storage_new T C (sto_log s') (sto_meta s') h0 = Ok (idx, s'')
         \<and> read_vote T C s'' = Ok (Some v))"
proof -
  note v = sled_storage.vote_ok [OF assms(1,3,2)]
  obtain idx s'' where "storage_new T C (sto_log s') (sto_meta s') h0 = Ok (idx, s'')"
    "sto_meta s'' = sto_meta s'"
    using sled_storage.reopen [OF assms(1,2), of "sto_log s'" "sto_meta s'" h0] by blast
  with v show ?thesis by (simp add: read_vote_def get_vote_def)
qed

theorem saved_vote_is_read_witness:
  "read_vote ref_tree_api (ref_codec () :: (unit, unit, nat, (unit, unit, nat) blob) storage_codec)
     \<lparr>sto_log = [], sto_meta = [(KEY_VOTE, VoteBlob 4)], sto_hive = hive_new\<rparr> = Ok (Some 4)"
proof -
  let ?C = "ref_codec () :: (unit, unit, nat, (unit, unit, nat) blob) storage_codec"
  let ?s = "\<lparr>sto_log = [], sto_meta = [], sto_hive = hive_new\<rparr> :: (unit, (unit, unit, nat) blob ref_tree) store"
  have "save_vote ref_tree_api ?C 4 ?s =
      (Ok (), \<lparr>sto_log = [], sto_meta = [(KEY_VOTE, VoteBlob 4)], sto_hive = hive_new\<rparr>)"
    by (simp add: store_op_defs)
  from saved_vote_is_read [OF ref_store_law ref_tree_reads this, of hive_new] show ?thesis by simp
qed

lemma ok_keys_errors [simp]: "ok_keys (map Inl es) = []"
  by (induction es) simp_all

text \<open>An iterator that only meets errors lets a deletion of conflicting entries succeed without
  removing anything.\<close>

lemma delete_ignores_read_errors:
  assumes "tr_range_from T (log_key (li_index i)) (sto_log s) = map Inl es"
  shows "delete_conflict_logs_since T i s = (Ok (), s)"
  by (simp add: delete_conflict_logs_since_def on_log_def assms)

end
