(* ===== verification/RaftNode.thy ===== *)
theory RaftNode
  imports Replicator SledProps
begin

text \<open>
  \<open>RaftReplicator\<close> of \<open>src/replicator/raft_node.rs\<close> and the address book of
  \<open>src/replicator/network.rs\<close>. openraft is the parameter \<open>raft_api\<close>: a write through the log, its
  metrics, the membership calls, and \<open>ra_state\<close>, the state machine it has been given. The locale
  \<open>openraft\<close> states what is documented of it: a client write that succeeds has been committed and
  applied to the local state machine, and every call may let other committed commands through.

  \<open>RaftReplicator\<close> then implements the contract \<open>replicator\<close>. \<open>solo_raft\<close> is one instance of the
  parameter, a cluster of one node that runs every write through \<open>SledStorage\<close>.
\<close>

record HiveNode =
  hn_addr :: string
  hn_hostname :: string

definition hive_node_display :: "HiveNode \<Rightarrow> string" where
  "hive_node_display n = hn_hostname n @ ''@'' @ hn_addr n"

record RaftMetrics =
  mt_current_leader :: "u64 option"
  mt_current_term :: u64

record ('j, 'w) raft_api =
  ra_client_write :: "'j ClusterCommand \<Rightarrow> 'w \<Rightarrow> (string + unit) \<times> 'w"
  ra_metrics :: "'w \<Rightarrow> RaftMetrics \<times> 'w"
  ra_initialize :: "(u64 \<times> HiveNode) list \<Rightarrow> 'w \<Rightarrow> (string + unit) \<times> 'w"
  ra_add_nodes :: "(u64 \<times> HiveNode) list \<Rightarrow> bool \<Rightarrow> 'w \<Rightarrow> (string + unit) \<times> 'w"
  ra_add_learner :: "u64 \<Rightarrow> HiveNode \<Rightarrow> bool \<Rightarrow> 'w \<Rightarrow> (string + unit) \<times> 'w"
  ra_state :: "'w \<Rightarrow> 'j HiveState"

section \<open>The network\<close>

type_synonym HiveNetworkFactory = "(u64, string) hmap"

definition network_new :: HiveNetworkFactory where
  "network_new = []"

definition register_node :: "u64 \<Rightarrow> string \<Rightarrow> HiveNetworkFactory \<Rightarrow> HiveNetworkFactory" where
  "register_node node_id addr conns = hm_insert node_id addr conns"

definition get_addr :: "u64 \<Rightarrow> HiveNetworkFactory \<Rightarrow> string option" where
  "get_addr node_id conns = hm_get conns node_id"

record HiveNetwork =
  nw_target :: u64
  nw_target_addr :: string

definition network_connect :: "u64 \<Rightarrow> string \<Rightarrow> HiveNetwork" where
  "network_connect target addr = \<lparr>nw_target = target, nw_target_addr = addr\<rparr>"

text \<open>\<open>new_client\<close> takes the address from the membership, not from the address book.\<close>

definition new_client :: "u64 \<Rightarrow> HiveNode \<Rightarrow> HiveNetwork" where
  "new_client target node = network_connect target (hn_addr node)"

text \<open>\<open>send_rpc\<close>: the request over HTTP and the decoding of the response belong to reqwest; its
  outcome is a failure to send, a status with a body, or a status with an unreadable body.\<close>

datatype 'r http_outcome =
    SendFailed string
  | Responded nat "string + 'r"

datatype rpc_error = NetworkError string

definition http_success :: "nat \<Rightarrow> bool" where
  "http_success status \<longleftrightarrow> 200 \<le> status \<and> status < 300"

definition rpc_url :: "HiveNetwork \<Rightarrow> string \<Rightarrow> string" where
  "rpc_url nw path = ''http://'' @ nw_target_addr nw @ ''/raft/'' @ path"

definition send_rpc ::
  "(string \<Rightarrow> 'q \<Rightarrow> 'w \<Rightarrow> 'r http_outcome \<times> 'w) \<Rightarrow> (nat \<Rightarrow> string) \<Rightarrow> HiveNetwork \<Rightarrow> string \<Rightarrow> 'q \<Rightarrow> 'w
     \<Rightarrow> (rpc_error + 'r) \<times> 'w" where
  "send_rpc post status_text nw path req w =
     (let (outcome, w) = post (rpc_url nw path) req w in
      (case outcome of
         SendFailed e \<Rightarrow> Inl (NetworkError e)
       | Responded status body \<Rightarrow>
           if \<not> http_success status then Inl (NetworkError (''HTTP error: '' @ status_text status))
           else map_err NetworkError body, w))"

section \<open>The replicator\<close>

record 'w rr_world =
  rr_conns :: HiveNetworkFactory
  rr_raft :: 'w

definition on_raft :: "('w \<Rightarrow> 'r \<times> 'w) \<Rightarrow> 'w rr_world \<Rightarrow> 'r \<times> 'w rr_world" where
  "on_raft f w = (case f (rr_raft w) of (r, x) \<Rightarrow> (r, w\<lparr>rr_raft := x\<rparr>))"

text \<open>\<open>RaftReplicator::new\<close>: openraft checks the timing, the storage of \<open>SledStore\<close> is opened in
  the directory \<open>raft\<close> of the data directory, the node enters its own address, and openraft starts.
  Opening sled and starting openraft are the parameter \<open>raft_boot\<close>.\<close>

record RaftConfig =
  rc_heartbeat_interval :: u64
  rc_election_timeout_min :: u64
  rc_election_timeout_max :: u64

definition raft_config :: RaftConfig where
  "raft_config =
     \<lparr>rc_heartbeat_interval = 500, rc_election_timeout_min = 1500, rc_election_timeout_max = 3000\<rparr>"

record 'w raft_boot =
  rb_validate :: "RaftConfig \<Rightarrow> string + unit"
  rb_create_dir :: "string \<Rightarrow> 'w \<Rightarrow> (string + unit) \<times> 'w"
  rb_open_storage :: "string \<Rightarrow> 'w \<Rightarrow> (string + unit) \<times> 'w"
  rb_start :: "u64 \<Rightarrow> RaftConfig \<Rightarrow> HiveNetworkFactory \<Rightarrow> 'w \<Rightarrow> (string + unit) \<times> 'w"

definition raft_new ::
  "'w raft_boot \<Rightarrow> u64 \<Rightarrow> string \<Rightarrow> string \<Rightarrow> string \<Rightarrow> 'w \<Rightarrow> (string + HiveNetworkFactory) \<times> 'w" where
  "raft_new B node_id addr hostname data_dir w =
     st_then (rb_validate B raft_config, w) (\<lambda>_ w.
       (let storage_path = path_join data_dir ''raft'' in
        st_then (rb_create_dir B storage_path w) (\<lambda>_ w.
        st_then (rb_open_storage B storage_path w) (\<lambda>_ w.
          (let network = register_node node_id addr network_new in
           st_then (rb_start B node_id raft_config network w) (\<lambda>_ w. (Ok network, w)))))))"

definition initialize_single ::
  "('j, 'w) raft_api \<Rightarrow> u64 \<Rightarrow> 'w rr_world \<Rightarrow> (replicator_error + unit) \<times> 'w rr_world" where
  "initialize_single A node_id w =
     st_map_err MembershipFailed (on_raft (ra_initialize A
       [(node_id, \<lparr>hn_addr = ''127.0.0.1:9000'', hn_hostname = ''localhost''\<rparr>)]) w)"

definition raft_apply ::
  "('j, 'w) raft_api \<Rightarrow> 'j ClusterCommand \<Rightarrow> 'w rr_world \<Rightarrow> (replicator_error + unit) \<times> 'w rr_world" where
  "raft_apply A c w = st_map_err WriteFailed (on_raft (ra_client_write A c) w)"

definition raft_snapshot ::
  "('j, 'w) raft_api \<Rightarrow> 'w rr_world \<Rightarrow> 'j ClusterView \<times> 'w rr_world" where
  "raft_snapshot A w =
     (let (metrics, w) = on_raft (ra_metrics A) w;
          leader_id = map_option u64_to_string (mt_current_leader metrics);
          term = mt_current_term metrics
      in (shared_to_cluster_view leader_id term (ra_state A (rr_raft w)), w))"

definition raft_is_leader :: "('j, 'w) raft_api \<Rightarrow> u64 \<Rightarrow> 'w rr_world \<Rightarrow> bool \<times> 'w rr_world" where
  "raft_is_leader A node_id w =
     (let (metrics, w) = on_raft (ra_metrics A) w in (mt_current_leader metrics = Some node_id, w))"

definition raft_leader_id :: "('j, 'w) raft_api \<Rightarrow> 'w rr_world \<Rightarrow> NodeId option \<times> 'w rr_world" where
  "raft_leader_id A w =
     (let (metrics, w) = on_raft (ra_metrics A) w
      in (map_option u64_to_string (mt_current_leader metrics), w))"

definition raft_add_peer ::
  "('j, 'w) raft_api \<Rightarrow> PeerInfo \<Rightarrow> 'w rr_world \<Rightarrow> (replicator_error + unit) \<times> 'w rr_world" where
  "raft_add_peer A peer w =
     (case parse_u64 (pi_node_id peer) of
        Inl k \<Rightarrow> (Inl (PeerIdInvalid k), w)
      | Inr node_id \<Rightarrow>
          (let node = \<lparr>hn_addr = pi_addr peer, hn_hostname = pi_node_id peer\<rparr>;
               w = w\<lparr>rr_conns := register_node node_id (pi_addr peer) (rr_conns w)\<rparr>
           in st_map_err MembershipFailed
                (if pi_is_voter peer then on_raft (ra_add_nodes A [(node_id, node)] False) w
                 else on_raft (ra_add_learner A node_id node True) w)))"

definition raft_replicator :: "('j, 'w) raft_api \<Rightarrow> u64 \<Rightarrow> ('j, 'w rr_world) replicator_api" where
  "raft_replicator A node_id =
     \<lparr>rp_apply = raft_apply A, rp_snapshot = raft_snapshot A, rp_is_leader = raft_is_leader A node_id,
      rp_leader_id = raft_leader_id A, rp_add_peer = raft_add_peer A\<rparr>"

section \<open>The contract of openraft\<close>

locale openraft =
  fixes A :: "('j, 'w) raft_api"
  assumes write_commits: "ra_client_write A c w = (Ok (), w') \<Longrightarrow>
      \<exists>cs ds. evolves (cs @ c # ds) (ra_state A w) (ra_state A w')"
    and write_fails: "ra_client_write A c w = (Err e, w') \<Longrightarrow>
      \<exists>cs. evolves cs (ra_state A w) (ra_state A w')"
    and metrics_evolve: "ra_metrics A w = (m, w') \<Longrightarrow> \<exists>cs. evolves cs (ra_state A w) (ra_state A w')"
    and initialize_evolve: "ra_initialize A ms w = (q, w') \<Longrightarrow> \<exists>cs. evolves cs (ra_state A w) (ra_state A w')"

text \<open>A cluster in which only this node writes.\<close>

locale lone_openraft = openraft A for A :: "('j, 'w) raft_api" +
  assumes write_lone: "ra_client_write A c w = (Ok (), w') \<Longrightarrow>
      evolves [c] (ra_state A w) (ra_state A w')"
    and fail_lone: "ra_client_write A c w = (Err e, w') \<Longrightarrow>
      evolves [] (ra_state A w) (ra_state A w') \<or> evolves [c] (ra_state A w) (ra_state A w')"
    and metrics_lone: "ra_metrics A w = (m, w') \<Longrightarrow> evolves [] (ra_state A w) (ra_state A w')"
    and initialize_lone: "ra_initialize A ms w = (q, w') \<Longrightarrow> evolves [] (ra_state A w) (ra_state A w')"

lemma on_raft_eq: "on_raft f w = (r, w') \<longleftrightarrow> (\<exists>x. f (rr_raft w) = (r, x) \<and> w' = w\<lparr>rr_raft := x\<rparr>)"
  by (auto simp: on_raft_def split: prod.splits)

lemma raft_replicator_simps [simp]:
  "rp_apply (raft_replicator A n) = raft_apply A" "rp_snapshot (raft_replicator A n) = raft_snapshot A"
  "rp_is_leader (raft_replicator A n) = raft_is_leader A n"
  "rp_leader_id (raft_replicator A n) = raft_leader_id A"
  "rp_add_peer (raft_replicator A n) = raft_add_peer A"
  by (simp_all add: raft_replicator_def)

lemma raft_apply_eq:
  "raft_apply A c w = (r, w') \<longleftrightarrow>
     (\<exists>q x. ra_client_write A c (rr_raft w) = (q, x) \<and> r = map_err WriteFailed q \<and> w' = w\<lparr>rr_raft := x\<rparr>)"
  by (auto simp: raft_apply_def st_map_err_def on_raft_def split: prod.splits)

lemma raft_apply_failed:
  assumes "rp_apply (raft_replicator A n) c w = (Err e, w')"
  obtains q where "ra_client_write A c (rr_raft w) = (Err q, rr_raft w')"
proof -
  obtain q x where qx: "ra_client_write A c (rr_raft w) = (q, x)" "Err e = map_err WriteFailed q"
      "w' = w\<lparr>rr_raft := x\<rparr>"
    using assms by (auto simp: raft_apply_eq)
  then show thesis by (cases q) (auto intro: that)
qed

lemma raft_snapshot_eq:
  "raft_snapshot A w = (v, w') \<longleftrightarrow>
     (\<exists>m x. ra_metrics A (rr_raft w) = (m, x) \<and> w' = w\<lparr>rr_raft := x\<rparr>
        \<and> v = to_cluster_view (map_option u64_to_string (mt_current_leader m)) (mt_current_term m) (ra_state A x))"
  by (auto simp: raft_snapshot_def on_raft_def Let_def split: prod.splits)

lemma raft_is_leader_eq:
  "raft_is_leader A n w = (b, w') \<longleftrightarrow>
     (\<exists>m x. ra_metrics A (rr_raft w) = (m, x) \<and> w' = w\<lparr>rr_raft := x\<rparr> \<and> b = (mt_current_leader m = Some n))"
  by (auto simp: raft_is_leader_def on_raft_def Let_def split: prod.splits)

sublocale openraft \<subseteq> replicator "raft_replicator A n" "\<lambda>w. ra_state A (rr_raft w)"
proof unfold_locales
  fix v :: "'j ClusterView" and c :: "'j ClusterCommand" and e b and w w' :: "'w rr_world"
  show "\<exists>cs. evolves cs (ra_state A (rr_raft w)) (ra_state A (rr_raft w'))"
    if "rp_is_leader (raft_replicator A n) w = (b, w')"
    using that by (auto simp: raft_is_leader_eq intro: metrics_evolve)
  show "\<exists>l t. v = to_cluster_view l t (ra_state A (rr_raft w'))"
    if "rp_snapshot (raft_replicator A n) w = (v, w')"
    using that unfolding raft_replicator_simps raft_snapshot_eq by fastforce
  show "\<exists>cs. evolves cs (ra_state A (rr_raft w)) (ra_state A (rr_raft w'))"
    if "rp_snapshot (raft_replicator A n) w = (v, w')"
    using that by (auto simp: raft_snapshot_eq intro: metrics_evolve)
  show "\<exists>cs ds. evolves (cs @ c # ds) (ra_state A (rr_raft w)) (ra_state A (rr_raft w'))"
    if "rp_apply (raft_replicator A n) c w = (Ok (), w')"
  proof -
    from that have "ra_client_write A c (rr_raft w) = (Ok (), rr_raft w')"
      by (auto simp: raft_apply_eq eq_commute [of "Inr _"])
    then show ?thesis by (rule write_commits)
  qed
  show "\<exists>cs. evolves cs (ra_state A (rr_raft w)) (ra_state A (rr_raft w'))"
    if "rp_apply (raft_replicator A n) c w = (Err e, w')"
  proof -
    from that obtain q where "ra_client_write A c (rr_raft w) = (Err q, rr_raft w')"
      by (rule raft_apply_failed)
    then show ?thesis by (rule write_fails)
  qed
qed

sublocale lone_openraft \<subseteq> quiet_replicator "raft_replicator A n" "\<lambda>w. ra_state A (rr_raft w)"
proof unfold_locales
  fix v :: "'j ClusterView" and c :: "'j ClusterCommand" and e b and w w' :: "'w rr_world"
  show "evolves [] (ra_state A (rr_raft w)) (ra_state A (rr_raft w'))"
    if "rp_is_leader (raft_replicator A n) w = (b, w')"
    using that by (auto simp: raft_is_leader_eq intro: metrics_lone)
  show "evolves [] (ra_state A (rr_raft w)) (ra_state A (rr_raft w'))
      \<or> evolves [c] (ra_state A (rr_raft w)) (ra_state A (rr_raft w'))"
    if "rp_apply (raft_replicator A n) c w = (Err e, w')"
  proof -
    from that obtain q where "ra_client_write A c (rr_raft w) = (Err q, rr_raft w')"
      by (rule raft_apply_failed)
    then show ?thesis by (rule fail_lone)
  qed
  show "evolves [] (ra_state A (rr_raft w)) (ra_state A (rr_raft w'))"
    if "rp_snapshot (raft_replicator A n) w = (v, w')"
    using that by (auto simp: raft_snapshot_eq intro: metrics_lone)
  show "evolves [c] (ra_state A (rr_raft w)) (ra_state A (rr_raft w'))"
    if "rp_apply (raft_replicator A n) c w = (Ok (), w')"
  proof -
    from that have "ra_client_write A c (rr_raft w) = (Ok (), rr_raft w')"
      by (auto simp: raft_apply_eq eq_commute [of "Inr _"])
    then show ?thesis by (rule write_lone)
  qed
qed

section \<open>A cluster of one node\<close>

record 'j solo =
  so_store :: "('j, ('j, unit, unit) blob ref_tree) store"
  so_next :: u64
  so_clock :: timestamp
  so_up :: bool

definition solo_entry :: "'j ClusterCommand \<Rightarrow> 'j solo \<Rightarrow> ('j, unit) Entry" where
  "solo_entry c w = \<lparr>en_log_id = \<lparr>li_term = 1, li_node = 1, li_index = so_next w\<rparr>, en_payload = Normal c\<rparr>"

definition solo_write :: "'j ClusterCommand \<Rightarrow> 'j solo \<Rightarrow> (string + unit) \<times> 'j solo" where
  "solo_write c w =
     (if \<not> so_up w then (Err ''not initialized'', w)
      else
        (let e = solo_entry c w;
             (r, s) = append_to_log ref_tree_api (ref_codec ()) [e] (so_store w);
             (r, s) = apply_to_state_machine ref_tree_api (ref_codec ()) [(so_clock w, e)] s
         in (Ok (), w\<lparr>so_store := s, so_next := so_next w + 1, so_clock := so_clock w + 1\<rparr>)))"

definition solo_raft :: "('j, 'j solo) raft_api" where
  "solo_raft =
     \<lparr>ra_client_write = solo_write,
      ra_metrics = (\<lambda>w. (\<lparr>mt_current_leader = (if so_up w then Some 1 else None), mt_current_term = 1\<rparr>, w)),
      ra_initialize = (\<lambda>members w. if so_up w then (Err ''not allowed'', w) else (Ok (), w\<lparr>so_up := True\<rparr>)),
      ra_add_nodes = (\<lambda>members retain w. (Ok (), w)),
      ra_add_learner = (\<lambda>i node blocking w. (Ok (), w)),
      ra_state = (\<lambda>w. sto_hive (so_store w))\<rparr>"

lemma solo_write_result:
  "fst (solo_write c w) = (if so_up w then Ok () else Err ''not initialized'')"
  "sto_hive (so_store (snd (solo_write c w))) =
     (if so_up w then apply_command (so_clock w) c (sto_hive (so_store w)) else sto_hive (so_store w))"
  "so_up (snd (solo_write c w)) = so_up w"
  "so_clock (snd (solo_write c w)) = (if so_up w then so_clock w + 1 else so_clock w)"
  by (simp_all add: solo_write_def solo_entry_def store_op_defs Let_def)

lemma solo_raft_simps [simp]:
  "ra_client_write solo_raft c w = solo_write c w"
  "ra_metrics solo_raft w = (\<lparr>mt_current_leader = (if so_up w then Some 1 else None), mt_current_term = 1\<rparr>, w)"
  "ra_initialize solo_raft ms w = (if so_up w then (Err ''not allowed'', w) else (Ok (), w\<lparr>so_up := True\<rparr>))"
  "ra_state solo_raft w = sto_hive (so_store w)"
  by (simp_all add: solo_raft_def)

interpretation solo: lone_openraft solo_raft
proof unfold_locales
  fix c :: "'j ClusterCommand" and w w' :: "'j solo" and e m ms q
  have ok: "evolves [c] (ra_state solo_raft w) (ra_state solo_raft w')"
    if "ra_client_write solo_raft c w = (Ok (), w')"
    using that solo_write_result(1,2) [of c w] by (auto simp: evolves_command split: if_splits)
  then show "evolves [c] (ra_state solo_raft w) (ra_state solo_raft w')"
    if "ra_client_write solo_raft c w = (Ok (), w')" using that .
  show "\<exists>cs ds. evolves (cs @ c # ds) (ra_state solo_raft w) (ra_state solo_raft w')"
    if "ra_client_write solo_raft c w = (Ok (), w')"
    using ok [OF that] by (metis append_Nil)
  show "\<exists>cs. evolves cs (ra_state solo_raft w) (ra_state solo_raft w')"
    if "ra_client_write solo_raft c w = (Err e, w')"
    using that solo_write_result(1,2) [of c w] by (auto split: if_splits intro!: exI [of _ "[]"])
  show "evolves [] (ra_state solo_raft w) (ra_state solo_raft w')
      \<or> evolves [c] (ra_state solo_raft w) (ra_state solo_raft w')"
    if "ra_client_write solo_raft c w = (Err e, w')"
    using that solo_write_result(1,2) [of c w] by (auto split: if_splits)
  show "\<exists>cs. evolves cs (ra_state solo_raft w) (ra_state solo_raft w')"
    if "ra_metrics solo_raft w = (m, w')"
    using that by (auto intro!: exI [of _ "[]"])
  show "evolves [] (ra_state solo_raft w) (ra_state solo_raft w')"
    if "ra_metrics solo_raft w = (m, w')"
    using that by auto
  show "\<exists>cs. evolves cs (ra_state solo_raft w) (ra_state solo_raft w')"
    if "ra_initialize solo_raft ms w = (q, w')"
    using that by (auto intro!: exI [of _ "[]"] split: if_splits)
  show "evolves [] (ra_state solo_raft w) (ra_state solo_raft w')"
    if "ra_initialize solo_raft ms w = (q, w')"
    using that by (auto split: if_splits)
qed

end
