(* ===== verification/ExecProps.thy ===== *)
theory ExecProps
  imports HiveExec RaftNode
begin

text \<open>
  The properties of the executor. They hold of every replicator that keeps the contract; the
  witnesses run the executor on \<open>RaftReplicator\<close> over the one-node cluster of \<open>RaftNode\<close>.
\<close>

section \<open>The load of a node\<close>

definition active_set :: "NodeId \<Rightarrow> 'j HiveState \<Rightarrow> TaskId set" where
  "active_set n s = {i. \<exists>t. task_of s i = Some t \<and> counts_as_active n t}"

lemma active_on_card: "hive_wf s \<Longrightarrow> active_on n s = card (active_set n s)"
  by (simp add: active_on_keys active_set_def)

lemma finite_active_set: "hive_wf s \<Longrightarrow> finite (active_set n s)"
proof -
  assume "hive_wf s"
  then have "finite (hm.keys_where (counts_as_active n) (hs_tasks s))"
    by (intro hm.finite_keys_where keyed_hm_ok [OF hive_wf_keyed(2)])
  also have "hm.keys_where (counts_as_active n) (hs_tasks s) = active_set n s"
    by (auto simp: active_set_def hm.keys_where_def task_of_def)
  finally show ?thesis .
qed

lemma active_set_put:
  "active_set n (apply_command now (PutTask t) s) =
     (if counts_as_active n t then insert (tk_id t) (active_set n s) else active_set n s - {tk_id t})"
  by (auto simp: active_set_def task_of_apply simp del: apply_command.simps split: if_splits)

lemma active_set_cancel:
  "active_set n (apply_command now (UpdateTaskStatus i Cancelled r) s) \<subseteq> active_set n s"
  by (auto simp: active_set_def task_of_apply counts_as_active_def simp del: apply_command.simps
      split: if_splits)

lemma active_set_other:
  "(\<And>i. \<not> touches_task i c) \<Longrightarrow> active_set n (apply_command now c s) = active_set n s"
  by (simp add: active_set_def task_of_untouched del: apply_command.simps)

lemma active_set_same: "same_hive s s' \<Longrightarrow> active_set n s = active_set n s'"
  by (simp add: active_set_def same_hive_lookups)

lemma card_insert_bound: "finite A \<Longrightarrow> card (insert x A) \<le> Suc (card A)"
  by (simp add: card_insert_if)

lemma limit_kept_by_command:
  assumes "hive_wf s" and "\<forall>n. active_on n s \<le> m"
    and "case c of PutTask t \<Rightarrow> active_on (tk_target_node t) s < m
      | UpdateTaskStatus _ st _ \<Rightarrow> st = Cancelled | _ \<Rightarrow> True"
  shows "card (active_set n (apply_command now c s)) \<le> m"
proof -
  have fin: "finite (active_set n s)" and old: "card (active_set n s) \<le> m"
    using assms(1,2) finite_active_set by (simp_all add: active_on_card)
  have sub: ?thesis if "active_set n (apply_command now c s) \<subseteq> active_set n s"
    using card_mono [OF fin that] old by linarith
  show ?thesis
  proof (cases c)
    case (PutTask t)
    show ?thesis
    proof (cases "counts_as_active n t")
      case True
      then have "n = tk_target_node t" by (simp add: counts_as_active_def)
      then have "card (active_set n s) < m"
        using assms(3) by (simp add: PutTask active_on_card [OF assms(1)])
      then show ?thesis
        using True card_insert_bound [OF fin, of "tk_id t"] by (simp add: PutTask active_set_put del: apply_command.simps)
    next
      case False
      then have "active_set n (apply_command now c s) \<subseteq> active_set n s"
        by (auto simp: PutTask active_set_put simp del: apply_command.simps)
      then show ?thesis by (rule sub)
    qed
  next
    case (UpdateTaskStatus i st r)
    then have "st = Cancelled" using assms(3) by simp
    then show ?thesis using sub active_set_cancel UpdateTaskStatus by blast
  qed (rule sub, simp add: active_set_other del: apply_command.simps)+
qed

section \<open>The one-node cluster\<close>

definition solo_world :: "'j HiveState \<Rightarrow> 'j solo rr_world" where
  "solo_world h = \<lparr>rr_conns = [], rr_raft = \<lparr>so_store = \<lparr>sto_log = [], sto_meta = [], sto_hive = h\<rparr>,
     so_next = 1, so_clock = 100, so_up = True\<rparr>\<rparr>"

definition solo_hive :: "'j solo rr_world \<Rightarrow> 'j HiveState" where
  "solo_hive w = ra_state solo_raft (rr_raft w)"

abbreviation solo_replicator :: "('j, 'j solo rr_world) replicator_api" where
  "solo_replicator \<equiv> raft_replicator solo_raft 1"

definition solo_commit :: "'j ClusterCommand \<Rightarrow> 'j solo rr_world \<Rightarrow> 'j solo rr_world" where
  "solo_commit c w = w\<lparr>rr_raft := snd (solo_write c (rr_raft w))\<rparr>"

definition idle_os :: "proc_result \<Rightarrow> 'w os_api" where
  "idle_os r = \<lparr>os_run = (\<lambda>prog args t w. (r, w)), os_exists = (\<lambda>p w. True)\<rparr>"

lemma solo_replicator_law: "replicator (raft_replicator solo_raft n) solo_hive"
  unfolding solo_hive_def [abs_def] by (rule solo.replicator_axioms)

lemma solo_quiet_law: "quiet_replicator (raft_replicator solo_raft n) solo_hive"
  unfolding solo_hive_def [abs_def] by (rule solo.quiet_replicator_axioms)

lemma solo_env_law: "quiet_env (raft_replicator solo_raft n) solo_hive (idle_os r)"
  by (intro quiet_env.intro solo_quiet_law quiet_env_axioms.intro) (auto simp: idle_os_def)

interpretation solo_env: quiet_env "raft_replicator solo_raft n" solo_hive "idle_os r"
  by (rule solo_env_law)

lemma solo_up [simp]: "so_up (rr_raft (solo_world h))" "so_up (rr_raft (solo_commit c w)) = so_up (rr_raft w)"
  by (simp_all add: solo_world_def solo_commit_def solo_write_result)

lemma solo_apply [simp]:
  "so_up (rr_raft w) \<Longrightarrow> raft_apply solo_raft c w = (Ok (), solo_commit c w)"
  using solo_write_result(1) [of c "rr_raft w"]
  by (cases "solo_write c (rr_raft w)") (simp add: raft_apply_def on_raft_def solo_commit_def)

lemma solo_snapshot [simp]:
  "so_up (rr_raft w) \<Longrightarrow> raft_snapshot solo_raft w = (to_cluster_view (Some (u64_to_string 1)) 1 (solo_hive w), w)"
  by (simp add: raft_snapshot_def on_raft_def solo_hive_def)

lemma solo_hive_simps [simp]:
  "solo_hive (solo_world h) = h"
  "so_up (rr_raft w) \<Longrightarrow>
     solo_hive (solo_commit c w) = apply_command (so_clock (rr_raft w)) c (solo_hive w)"
  by (simp_all add: solo_hive_def solo_world_def solo_commit_def solo_write_result)

text \<open>A state with one node and the given tasks.\<close>

definition demo_hive :: "unit Task list \<Rightarrow> unit HiveState" where
  "demo_hive ts = \<lparr>hs_nodes = [(''node-1'', demo_node)], hs_tasks = map (\<lambda>t. (tk_id t, t)) ts,
     hs_attachments = [], hs_goals = [], hs_last_applied_index = 0\<rparr>"

lemma demo_hive_view: "to_cluster_view l t (demo_hive ts) =
    (demo_view ts)\<lparr>cv_leader_id := l, cv_term := t\<rparr>"
  by (simp add: demo_hive_def demo_view_def to_cluster_view_def hm_values_def comp_def)

lemma demo_hive_wf: "distinct (map tk_id ts) \<Longrightarrow> hive_wf (demo_hive ts)"
  by (auto simp: hive_wf_def demo_hive_def keyed_def hm_ok_def comp_def demo_node_def)

lemma demo_verdict: "state_verdict pol a (demo_hive ts) = validate pol a (demo_view ts)"
  unfolding state_verdict_def demo_hive_view by (rule validate_view_equiv) (simp add: view_equiv_def)

lemma validate_demo_view:
  "validate pol a (to_cluster_view l t (demo_hive ts)) = validate pol a (demo_view ts)"
  unfolding demo_hive_view by (rule validate_view_equiv) (simp add: view_equiv_def)

section \<open>Properties\<close>

text \<open>C1. With nobody else writing, \<open>execute\<close> does exactly what the policy and the action say: it
  succeeds only if the state at the call admits the action, and then leaves that state after the
  action's commands; a validation error is the verdict on the state, and nothing was written.\<close>

theorem execute_exact:
  assumes "quiet_replicator R hive" and "hive_wf (hive w)"
    and "execute R pol uuid t1 t2 a w = (r, w')"
  shows "case r of
      Inr _ \<Rightarrow> state_verdict pol a (hive w) = Ok ()
        \<and> same_hive (hive w') (apply_log (map (Pair 0) (action_commands uuid t1 t2 a (hive w))) (hive w))
    | Inl (ExecInvalid e) \<Rightarrow> state_verdict pol a (hive w) \<noteq> Ok () \<and> state_verdict pol a (hive w') = Err e
        \<and> same_hive (hive w') (hive w)
    | Inl e \<Rightarrow> \<exists>d. e = ExecReplicator d"
proof (cases r)
  case (Inr u)
  with assms(3) have "execute R pol uuid t1 t2 a w = (Ok (), w')" by simp
  from quiet_replicator.execute_quiet_Ok [OF assms(1) this assms(2)] Inr show ?thesis
    by (simp add: evolves_same)
next
  case (Inl e)
  show ?thesis
  proof (cases e)
    case (ExecInvalid d)
    with assms(3) Inl have "execute R pol uuid t1 t2 a w = (Err (ExecInvalid d), w')" by simp
    from quiet_replicator.execute_quiet_Invalid [OF assms(1) this assms(2)] Inl ExecInvalid
    show ?thesis by simp
  qed (use assms(3) Inl in \<open>auto elim!: execute_cases dest: perform_not_invalid\<close>)
qed

theorem execute_exact_witness:
  "\<exists>w'. execute solo_replicator execution_policy_default ''t9'' 7 8 (ScheduleTask (Echo ''hi'') ''node-1'' 3)
       (solo_world (demo_hive [])) = (Ok (), w')
    \<and> task_of (solo_hive w') ''t9'' = Some (forget_updated (new_task ''t9'' 7 8 (Echo ''hi'') ''node-1'' 3))"
proof -
  let ?a = "ScheduleTask (Echo ''hi'') ''node-1'' 3"
  have ok: "validate execution_policy_default ?a (demo_view []) = Ok ()"
    by (simp add: validate_Ok demo_defs)
  then obtain w' where w': "execute solo_replicator execution_policy_default ''t9'' 7 8 ?a
      (solo_world (demo_hive [])) = (Ok (), w')"
    by (simp add: execute_def validate_demo_view commit_def)
  have "task_of (solo_hive w') ''t9'' = task_of (apply_log (map (Pair 0) (action_commands ''t9'' 7 8 ?a
      (demo_hive []))) (demo_hive [])) ''t9''"
    using execute_exact [OF solo_quiet_law _ w'] demo_hive_wf [of "[]"]
    by (simp add: same_hive_lookups del: apply_log.simps)
  with w' show ?thesis by (simp add: task_of_apply new_task_def del: apply_command.simps)
qed

text \<open>C37. With nobody else writing, no action but a rebalancing takes a node over the task limit: if
  every node has at most the permitted number of pending or running tasks before, it has after.\<close>

theorem execute_keeps_task_limit:
  assumes "quiet_replicator R hive" and "hive_wf (hive w)"
    and "execute R pol uuid t1 t2 a w = (Ok (), w')"
    and "\<forall>i n. a \<noteq> RebalanceTask i n"
    and "\<forall>n. active_on n (hive w) \<le> ep_max_concurrent_tasks_per_node pol"
  shows "active_on n (hive w') \<le> ep_max_concurrent_tasks_per_node pol"
proof -
  let ?m = "ep_max_concurrent_tasks_per_node pol" and ?s = "hive w"
  have v: "state_verdict pol a ?s = Ok ()" and e: "evolves (action_commands uuid t1 t2 a ?s) ?s (hive w')"
    using quiet_replicator.execute_quiet_Ok [OF assms(1,3,2)] by simp_all
  have one: "card (active_set n (apply_log (map (Pair 0) [c]) ?s)) \<le> ?m"
    if "case c of PutTask t \<Rightarrow> active_on (tk_target_node t) ?s < ?m
      | UpdateTaskStatus _ st _ \<Rightarrow> st = Cancelled | _ \<Rightarrow> True" for c
    using limit_kept_by_command [OF assms(2,5) that] by simp
  have zero: "card (active_set n ?s) \<le> ?m"
    using assms(2,5) by (simp add: active_on_card)
  have "card (active_set n (apply_log (map (Pair 0) (action_commands uuid t1 t2 a ?s)) ?s)) \<le> ?m"
  proof (cases a)
    case (ScheduleTask task target priority)
    with v have "active_on target ?s < ?m"
      by (simp add: state_verdict_Ok active_on_view)
    then show ?thesis unfolding ScheduleTask action_commands.simps by (intro one) (simp add: new_task_def)
  next
    case (CancelTask i)
    show ?thesis unfolding CancelTask action_commands.simps by (intro one) simp
  next
    case (MarkNodeDegraded i r)
    show ?thesis unfolding MarkNodeDegraded action_commands.simps by (intro one) simp
  next
    case (CreateAttachment i k c)
    show ?thesis unfolding CreateAttachment action_commands.simps by (intro one) simp
  next
    case (RemoveAttachment i)
    show ?thesis unfolding RemoveAttachment action_commands.simps by (intro one) simp
  qed (use assms(4) zero in simp_all)
  with active_set_same [OF evolves_same [OF e]] show ?thesis
    by (simp add: active_on_card [OF evolves_wf [OF e assms(2)]])
qed

theorem execute_keeps_task_limit_witness:
  "\<exists>w'. execute solo_replicator (execution_policy_default\<lparr>ep_max_concurrent_tasks_per_node := 1\<rparr>) ''t9'' 7 8
       (ScheduleTask (Echo ''hi'') ''node-1'' 3) (solo_world (demo_hive [])) = (Ok (), w')
    \<and> active_on ''node-1'' (solo_hive w') \<le> 1"
proof -
  let ?a = "ScheduleTask (Echo ''hi'') ''node-1'' 3"
  let ?pol = "execution_policy_default\<lparr>ep_max_concurrent_tasks_per_node := 1\<rparr>"
  have ok: "validate ?pol ?a (demo_view []) = Ok ()" by (simp add: validate_Ok demo_defs)
  then obtain w' where w': "execute solo_replicator ?pol ''t9'' 7 8 ?a (solo_world (demo_hive [])) = (Ok (), w')"
    by (simp add: execute_def validate_demo_view commit_def)
  have "active_on n (demo_hive []) \<le> 1" for n
    by (simp add: active_on_def active_tasks_def demo_hive_def hm_values_def)
  with execute_keeps_task_limit [OF solo_quiet_law _ w', of "''node-1''"] demo_hive_wf [of "[]"] w'
  show ?thesis by auto
qed

text \<open>
  Rebalancing is the exception: the validator checks no limit and no status for it, so it takes a
  full node over its limit and makes a task that had completed pending again.
\<close>

lemma rebalance_exceeds_limit:
  "let pol = execution_policy_default\<lparr>ep_max_concurrent_tasks_per_node := 1\<rparr>;
       s = demo_hive [demo_task ''a'' Running, demo_task ''b'' Completed];
       (r, w') = execute solo_replicator pol ''u'' 7 8 (RebalanceTask ''b'' ''node-1'') (solo_world s)
   in r = Ok () \<and> active_on ''node-1'' s = 1 \<and> active_on ''node-1'' (solo_hive w') = 2"
proof -
  let ?pol = "execution_policy_default\<lparr>ep_max_concurrent_tasks_per_node := 1\<rparr>"
  let ?ts = "[demo_task ''a'' Running, demo_task ''b'' Completed]"
  have ok: "validate ?pol (RebalanceTask ''b'' ''node-1'') (demo_view ?ts) = Ok ()"
    by (simp add: validate_Ok demo_defs)
  let ?c = "PutTask (moved_task 7 ''node-1'' (demo_task ''b'' Completed))"
  have wf: "hive_wf (demo_hive ?ts)" by (rule demo_hive_wf) (simp add: demo_task_def)
  have b: "hm_get (hs_tasks (demo_hive ?ts)) ''b'' = Some (demo_task ''b'' Completed)"
    by (simp add: hm_get_def demo_hive_def demo_task_def)
  have run: "execute solo_replicator ?pol ''u'' 7 8 (RebalanceTask ''b'' ''node-1'') (solo_world (demo_hive ?ts))
      = (Ok (), solo_commit ?c (solo_world (demo_hive ?ts)))"
    using b by (simp add: execute_def validate_demo_view ok commit_def keyed_find [OF hive_wf_keyed(2) [OF wf]] del: One_nat_def)
  have before: "active_on ''node-1'' (demo_hive ?ts) = 1"
    by (simp add: demo_hive_def demo_task_def active_on_def active_tasks_def counts_as_active_def hm_values_def)
  have after: "active_on ''node-1'' (apply_command now ?c (demo_hive ?ts)) = 2" for now
    by (simp add: demo_hive_def demo_task_def active_on_def active_tasks_def counts_as_active_def
        hm_values_def moved_task_def hm_insert_def)
  show ?thesis unfolding Let_def run using before after by simp
qed

text \<open>C13. With nobody else writing, the record of a task tells the truth about its run: when
  \<open>run_task\<close> returns a value the task is completed with that value as its result, when it reports
  that the task failed the task is marked as failed without a result, and a task of another node is
  refused with nothing changed. The payload and the target of the task stay as they were.\<close>

theorem run_task_records_outcome:
  assumes "quiet_env R hive S" and "hm_get (hs_tasks (hive w)) (tk_id task) = Some t"
    and "run_task J S R n task w = (r, w')"
  shows "case r of
      Inr v \<Rightarrow> \<exists>t'. hm_get (hs_tasks (hive w')) (tk_id task) = Some t' \<and> tk_status t' = Completed
        \<and> tk_result t' = Some v \<and> tk_payload t' = tk_payload t \<and> tk_target_node t' = tk_target_node t
    | Inl TaskFailed \<Rightarrow> \<exists>t' msg. hm_get (hs_tasks (hive w')) (tk_id task) = Some t'
        \<and> tk_status t' = Failed msg \<and> tk_result t' = None \<and> tk_payload t' = tk_payload t
        \<and> tk_target_node t' = tk_target_node t
    | Inl (WrongNode i target here) \<Rightarrow> w' = w \<and> tk_target_node task \<noteq> n
    | Inl (ExecReplicator d) \<Rightarrow> True
    | Inl (ExecInvalid e) \<Rightarrow> False"
proof -
  let ?i = "tk_id task"
  have ends: "\<exists>result. (\<exists>t'. hm_get (hs_tasks (hive w')) ?i = Some t'
       \<and> tk_status t' = fst (task_outcome result) \<and> tk_result t' = snd (task_outcome result)
       \<and> tk_payload t' = tk_payload t \<and> tk_target_node t' = tk_target_node t)
     \<and> r = (case result of Inr v \<Rightarrow> Ok v | Inl _ \<Rightarrow> Err TaskFailed)"
    if target: "tk_target_node task = n" and replied: "\<forall>d. r \<noteq> Err (ExecReplicator d)"
  proof -
    obtain result where result: "evolves [UpdateTaskStatus ?i Running None,
       UpdateTaskStatus ?i (fst (task_outcome result)) (snd (task_outcome result))] (hive w) (hive w')"
      "r = (case result of Inr v \<Rightarrow> Ok v | Inl _ \<Rightarrow> Err TaskFailed)"
      using quiet_env.run_task_quiet [OF assms(1,3) target replied] by blast
    from task_after_updates [OF evolves_same [OF result(1)] assms(2)] result(2) show ?thesis
      by (auto simp: comp_def)
  qed
  show ?thesis
  proof (cases r)
    case (Inr v)
    then have "tk_target_node task = n"
      using assms(3) run_task_wrong_node [of task n J S R w] by (cases "tk_target_node task = n") simp_all
    with ends Inr show ?thesis by auto
  next
    case (Inl e)
    consider "e = TaskFailed" | d where "e = ExecReplicator d"
      | "e = WrongNode ?i (tk_target_node task) n" "tk_target_node task \<noteq> n" "w' = w"
      using run_task_errors assms(3) Inl by metis
    moreover have "tk_target_node task = n \<or> e = WrongNode ?i (tk_target_node task) n"
      using assms(3) run_task_wrong_node [of task n J S R w] Inl
      by (cases "tk_target_node task = n") simp_all
    ultimately show ?thesis using ends Inl by cases auto
  qed
qed

definition echo_task :: "json Task" where
  "echo_task = \<lparr>tk_id = ''a'', tk_target_node = ''node-1'', tk_payload = Echo ''hi'', tk_status = Pending,
     tk_priority = 5, tk_created_at = 0, tk_updated_at = 0, tk_result = None\<rparr>"

definition one_task_hive :: "json Task \<Rightarrow> json HiveState" where
  "one_task_hive t = hive_new\<lparr>hs_tasks := [(tk_id t, t)]\<rparr>"

lemma one_task_get [simp]: "hm_get (hs_tasks (one_task_hive t)) i = (if i = tk_id t then Some t else None)"
  by (simp add: one_task_hive_def hm_get_def)

theorem run_task_records_outcome_witness:
  "\<exists>w' t'. run_task json_reference (idle_os ProcElapsed) solo_replicator ''node-1'' echo_task
       (solo_world (one_task_hive echo_task)) = (Ok (JObj [(''echoed'', JStr ''hi'')]), w')
    \<and> hm_get (hs_tasks (solo_hive w')) ''a'' = Some t' \<and> tk_status t' = Completed"
proof -
  have i: "hm_get (hs_tasks (solo_hive (solo_world (one_task_hive echo_task)))) (tk_id echo_task) = Some echo_task"
    by simp
  obtain w' where w': "run_task json_reference (idle_os ProcElapsed) solo_replicator ''node-1'' echo_task
       (solo_world (one_task_hive echo_task)) = (Ok (JObj [(''echoed'', JStr ''hi'')]), w')"
    by (simp add: run_task_def echo_task_def commit_def json_reference_def)
  from run_task_records_outcome [OF solo_env_law i w'] w' show ?thesis
    by (auto simp: echo_task_def)
qed

text \<open>Under interference a finished run has still committed both of its updates, \<open>Running\<close> first
  and its outcome later, with the outcome it returned; what others commit about the task in between
  is overwritten by the outcome.\<close>

theorem run_task_commits_both_updates:
  assumes "node_env R hive S" and "run_task J S R n task w = (Ok v, w')"
  shows "\<exists>cs ds es. evolves (cs @ UpdateTaskStatus (tk_id task) Running None # ds
      @ UpdateTaskStatus (tk_id task) Completed (Some v) # es) (hive w) (hive w')"
proof -
  have "tk_target_node task = n"
    using assms(2) run_task_wrong_node [of task n J S R w] by (cases "tk_target_node task = n") simp_all
  from node_env.run_task_commits [OF assms this] show ?thesis by auto
qed

theorem run_task_commits_both_updates_witness:
  "\<exists>w' cs. run_task json_reference (idle_os ProcElapsed) solo_replicator ''node-1'' echo_task
       (solo_world (one_task_hive echo_task)) = (Ok (JObj [(''echoed'', JStr ''hi'')]), w')
    \<and> UpdateTaskStatus ''a'' Completed (Some (JObj [(''echoed'', JStr ''hi'')])) \<in> set cs
    \<and> evolves cs (one_task_hive echo_task) (solo_hive w')"
proof -
  let ?w = "solo_world (one_task_hive echo_task)"
  obtain w' where w': "run_task json_reference (idle_os ProcElapsed) solo_replicator ''node-1'' echo_task ?w
      = (Ok (JObj [(''echoed'', JStr ''hi'')]), w')"
    by (simp add: run_task_def echo_task_def commit_def json_reference_def)
  obtain cs ds es where "evolves (cs @ UpdateTaskStatus ''a'' Running None # ds
      @ UpdateTaskStatus ''a'' Completed (Some (JObj [(''echoed'', JStr ''hi'')])) # es) (one_task_hive echo_task) (solo_hive w')"
    using run_task_commits_both_updates [OF solo_env.node_env_axioms w'] by (auto simp: echo_task_def)
  with w' show ?thesis
    by (intro exI [of _ w'] exI [of _ "cs @ UpdateTaskStatus ''a'' Running None # ds
      @ UpdateTaskStatus ''a'' Completed (Some (JObj [(''echoed'', JStr ''hi'')])) # es"]) simp
qed

text \<open>
  A cancellation that is committed while the task's process runs is lost: here the process is a
  service check during which the task is cancelled, and the task ends as completed.
\<close>

definition cancelling_os :: "TaskId \<Rightarrow> json solo rr_world os_api" where
  "cancelling_os i =
     \<lparr>os_run = (\<lambda>prog args t w. (ProcExited (Some 0) ''active'' [], solo_commit (UpdateTaskStatus i Cancelled None) w)),
      os_exists = (\<lambda>p w. True)\<rparr>"

lemma cancellation_is_overwritten:
  "let task = echo_task\<lparr>tk_payload := CheckService ''db''\<rparr>;
       (r, w') = run_task json_reference (cancelling_os ''a'') solo_replicator ''node-1'' task
                   (solo_world (one_task_hive task))
   in is_ok r \<and> map_option tk_status (hm_get (hs_tasks (solo_hive w')) ''a'') = Some Completed"
  by (simp add: run_task_def echo_task_def commit_def check_service_def cancelling_os_def Let_def
      exit_success_def set_task_status_def split: prod.split)

end
