(* ===== verification/Attachments.thy ===== *)
theory Attachments
  imports HiveState
begin

text \<open>
  \<open>AttachmentRegistry\<close> of \<open>src/attachments.rs\<close>: the attachments of one node in a map behind a
  lock. Every method holds the lock for its whole body, so each is one step on the state
  \<open>AttachmentRegistry\<close>; the fresh identifier and the instant of \<open>register\<close> are arguments.

  The registry is well formed when each attachment is stored under its own identifier and belongs
  to the registry's node; what it lists is characterised by its lookups.
\<close>

record 'j AttachmentRegistry =
  ar_inner :: "(AttachmentId, 'j Attachment) hmap"
  ar_node_id :: NodeId

definition registry_new :: "NodeId \<Rightarrow> 'j AttachmentRegistry" where
  "registry_new n = \<lparr>ar_inner = [], ar_node_id = n\<rparr>"

definition register ::
  "string \<Rightarrow> timestamp \<Rightarrow> 'j AttachmentKind \<Rightarrow> string list \<Rightarrow> 'j AttachmentRegistry
     \<Rightarrow> 'j Attachment \<times> 'j AttachmentRegistry" where
  "register uuid now kind caps r =
     (let a = \<lparr>at_id = uuid, at_node_id = ar_node_id r, at_kind = kind, at_capabilities = caps,
               at_metadata = [], at_created_at = now\<rparr>
      in (a, r\<lparr>ar_inner := hm_insert (at_id a) a (ar_inner r)\<rparr>))"

definition register_directory ::
  "string \<Rightarrow> timestamp \<Rightarrow> string \<Rightarrow> string list \<Rightarrow> 'j AttachmentRegistry
     \<Rightarrow> 'j Attachment \<times> 'j AttachmentRegistry" where
  "register_directory uuid now path caps = register uuid now (Directory path) caps"

definition register_file ::
  "string \<Rightarrow> timestamp \<Rightarrow> string \<Rightarrow> string list \<Rightarrow> 'j AttachmentRegistry
     \<Rightarrow> 'j Attachment \<times> 'j AttachmentRegistry" where
  "register_file uuid now path caps = register uuid now (File path) caps"

definition register_service ::
  "string \<Rightarrow> timestamp \<Rightarrow> string \<Rightarrow> string option \<Rightarrow> 'j AttachmentRegistry
     \<Rightarrow> 'j Attachment \<times> 'j AttachmentRegistry" where
  "register_service uuid now nm unt = register uuid now (Service nm unt) [''check_status'']"

definition register_docker ::
  "string \<Rightarrow> timestamp \<Rightarrow> string \<Rightarrow> 'j AttachmentRegistry \<Rightarrow> 'j Attachment \<times> 'j AttachmentRegistry" where
  "register_docker uuid now c =
     register uuid now (DockerContainer c) [''start'', ''stop'', ''restart'', ''logs'']"

definition register_webhook ::
  "string \<Rightarrow> timestamp \<Rightarrow> string \<Rightarrow> 'j AttachmentRegistry \<Rightarrow> 'j Attachment \<times> 'j AttachmentRegistry" where
  "register_webhook uuid now url = register uuid now (Webhook url) [''trigger'']"

definition unregister ::
  "AttachmentId \<Rightarrow> 'j AttachmentRegistry \<Rightarrow> 'j Attachment option \<times> 'j AttachmentRegistry" where
  "unregister i r = (hm_get (ar_inner r) i, r\<lparr>ar_inner := hm_remove i (ar_inner r)\<rparr>)"

definition registry_get :: "AttachmentId \<Rightarrow> 'j AttachmentRegistry \<Rightarrow> 'j Attachment option" where
  "registry_get i r = hm_get (ar_inner r) i"

definition registry_list :: "'j AttachmentRegistry \<Rightarrow> 'j Attachment list" where
  "registry_list r = hm_values (ar_inner r)"

fun kind_name :: "'j AttachmentKind \<Rightarrow> string" where
  "kind_name (Directory _) = ''directory''"
| "kind_name (File _) = ''file''"
| "kind_name (DockerContainer _) = ''docker''"
| "kind_name (Service _ _) = ''service''"
| "kind_name (Webhook _) = ''webhook''"
| "kind_name (CustomAttachment type_name _) = type_name"

definition list_by_kind :: "string \<Rightarrow> 'j AttachmentRegistry \<Rightarrow> 'j Attachment list" where
  "list_by_kind k r = filter (\<lambda>a. kind_name (at_kind a) = k) (hm_values (ar_inner r))"

definition with_capability :: "string \<Rightarrow> 'j AttachmentRegistry \<Rightarrow> 'j Attachment list" where
  "with_capability c r = filter (\<lambda>a. list_ex (\<lambda>d. d = c) (at_capabilities a)) (hm_values (ar_inner r))"

definition set_metadata ::
  "AttachmentId \<Rightarrow> string \<Rightarrow> string \<Rightarrow> 'j AttachmentRegistry \<Rightarrow> bool \<times> 'j AttachmentRegistry" where
  "set_metadata i key v r =
     (case hm_get (ar_inner r) i of
        None \<Rightarrow> (False, r)
      | Some _ \<Rightarrow> (True, r\<lparr>ar_inner :=
          hm_modify i (\<lambda>a. a\<lparr>at_metadata := hm_insert key v (at_metadata a)\<rparr>) (ar_inner r)\<rparr>))"

text \<open>\<open>clear\<close>, then one insertion for each attachment of this node.\<close>

fun insert_own :: "NodeId \<Rightarrow> 'j Attachment list \<Rightarrow> (AttachmentId, 'j Attachment) hmap
     \<Rightarrow> (AttachmentId, 'j Attachment) hmap" where
  "insert_own n [] m = m"
| "insert_own n (a # as) m =
     insert_own n as (if at_node_id a = n then hm_insert (at_id a) a m else m)"

definition sync_from_cluster :: "'j Attachment list \<Rightarrow> 'j AttachmentRegistry \<Rightarrow> 'j AttachmentRegistry" where
  "sync_from_cluster as r = r\<lparr>ar_inner := insert_own (ar_node_id r) as []\<rparr>"

section \<open>The invariant\<close>

definition owned :: "NodeId \<Rightarrow> (AttachmentId, 'j Attachment) hmap \<Rightarrow> bool" where
  "owned n m \<longleftrightarrow> keyed at_id m \<and> (\<forall>i a. hm_get m i = Some a \<longrightarrow> at_node_id a = n)"

definition registry_wf :: "'j AttachmentRegistry \<Rightarrow> bool" where
  "registry_wf r \<longleftrightarrow> owned (ar_node_id r) (ar_inner r)"

datatype 'j registry_op =
    OpRegister string timestamp "'j AttachmentKind" "string list"
  | OpUnregister AttachmentId
  | OpSetMetadata AttachmentId string string
  | OpSync "'j Attachment list"

fun registry_step :: "'j registry_op \<Rightarrow> 'j AttachmentRegistry \<Rightarrow> 'j AttachmentRegistry" where
  "registry_step (OpRegister u t k c) r = snd (register u t k c r)"
| "registry_step (OpUnregister i) r = snd (unregister i r)"
| "registry_step (OpSetMetadata i k v) r = snd (set_metadata i k v r)"
| "registry_step (OpSync as) r = sync_from_cluster as r"

definition registry_run :: "'j registry_op list \<Rightarrow> 'j AttachmentRegistry \<Rightarrow> 'j AttachmentRegistry" where
  "registry_run ops r = fold registry_step ops r"

lemma owned_empty [simp]: "owned n []"
  by (simp add: owned_def)

lemma owned_keyed: "owned n m \<Longrightarrow> keyed at_id m"
  by (simp add: owned_def)

lemma owned_insert [wf_intros]: "owned n m \<Longrightarrow> at_node_id a = n \<Longrightarrow> at_id a = i \<Longrightarrow> owned n (hm_insert i a m)"
  unfolding owned_def by (auto intro: keyed_insert)

lemma owned_remove [wf_intros]: "owned n m \<Longrightarrow> owned n (hm_remove i m)"
  unfolding owned_def by (auto intro: keyed_remove)

lemma owned_modify [wf_intros]:
  "owned n m \<Longrightarrow> (\<And>a. at_id (f a) = at_id a \<and> at_node_id (f a) = at_node_id a) \<Longrightarrow> owned n (hm_modify i f m)"
  unfolding owned_def by (auto intro: keyed_modify)

lemma insert_own_owned: "owned n m \<Longrightarrow> owned n (insert_own n as m)"
proof (induction n as m rule: insert_own.induct)
  case (2 n a as m)
  show ?case unfolding insert_own.simps
    by (rule 2(1)) (simp add: 2(2) owned_insert)
qed simp

lemma find_snoc:
  "find P (xs @ [x]) = (case find P xs of Some y \<Rightarrow> Some y | None \<Rightarrow> if P x then Some x else None)"
  by (induction xs) auto

text \<open>The last own attachment with an identifier wins.\<close>

lemma insert_own_get:
  "hm_get (insert_own n as m) i =
     (case find (\<lambda>a. at_node_id a = n \<and> at_id a = i) (rev as) of Some a \<Rightarrow> Some a | None \<Rightarrow> hm_get m i)"
proof (induction n as m rule: insert_own.induct)
  case (2 n a as m)
  then show ?case by (cases "at_node_id a = n") (simp_all add: find_snoc split: option.split)
qed simp

lemma registry_wf_step:
  assumes "registry_wf r"
  shows "registry_wf (registry_step op r) \<and> ar_node_id (registry_step op r) = ar_node_id r"
proof (cases op)
  case (OpSetMetadata i k v)
  with assms show ?thesis
    by (cases "hm_get (ar_inner r) i") (simp_all add: registry_wf_def set_metadata_def owned_modify)
qed (use assms in \<open>simp_all add: registry_wf_def register_def unregister_def sync_from_cluster_def
      Let_def owned_insert owned_remove insert_own_owned\<close>)

section \<open>Properties\<close>

text \<open>Whatever is registered, unregistered, annotated or synchronised, in any order, the registry
  holds each attachment under its own identifier, once, and only attachments of its own node.\<close>

theorem registry_owns_its_attachments:
  "registry_wf (registry_run ops (registry_new n)) \<and> ar_node_id (registry_run ops (registry_new n)) = n"
proof -
  have "registry_wf r \<Longrightarrow> registry_wf (registry_run ops r) \<and> ar_node_id (registry_run ops r) = ar_node_id r" for r
    using registry_wf_step unfolding registry_run_def by (induction ops arbitrary: r) auto
  moreover have "registry_wf (registry_new n)" "ar_node_id (registry_new n) = n"
    by (simp_all add: registry_wf_def registry_new_def)
  ultimately show ?thesis by metis
qed

text \<open>After a synchronisation with the cluster the registry is the cluster's view of this node and
  nothing of what it held before: a lookup finds the attachment the cluster lists for this node
  under that identifier, and the listing has exactly those.\<close>

theorem sync_mirrors_cluster:
  assumes "distinct (map at_id as)"
  shows "registry_get i (sync_from_cluster as r) = find (\<lambda>a. at_node_id a = ar_node_id r \<and> at_id a = i) as
    \<and> set (registry_list (sync_from_cluster as r)) = {a \<in> set as. at_node_id a = ar_node_id r}"
proof -
  let ?n = "ar_node_id r"
  let ?P = "\<lambda>j a. at_node_id a = ?n \<and> at_id a = j"
  have uniq: "a = b" if "a \<in> set as" "b \<in> set as" "at_id a = at_id b" for a b
    using assms that by (simp add: distinct_map inj_on_def)
  have rev: "find (?P j) (rev as) = find (?P j) as" for j
  proof (cases "find (?P j) as")
    case None
    then have "\<forall>a \<in> set (rev as). \<not> ?P j a" by (simp only: find_None_ball set_rev)
    then have "find (?P j) (rev as) = None" by (simp only: find_None_ball)
    with None show ?thesis by simp
  next
    case (Some a)
    then have a: "a \<in> set as" "?P j a" by (auto dest: find_Some_in_set)
    then obtain b where b: "find (?P j) (rev as) = Some b"
      by (cases "find (?P j) (rev as)") (auto simp: find_None_iff)
    then have "b \<in> set as" "?P j b" by (auto dest: find_Some_in_set)
    with a Some b show ?thesis using uniq by auto
  qed
  have look: "hm_get (insert_own ?n as []) j = find (?P j) as" for j
    by (simp add: insert_own_get rev split: option.split)
  have wf: "keyed at_id (insert_own ?n as [])"
    by (rule owned_keyed [OF insert_own_owned]) simp
  have "a \<in> set (hm_values (insert_own ?n as [])) \<longleftrightarrow> a \<in> set as \<and> at_node_id a = ?n" for a
  proof -
    have "a \<in> set (hm_values (insert_own ?n as [])) \<longleftrightarrow> find (?P (at_id a)) as = Some a"
      by (simp add: keyed_values_mem [OF wf] look)
    also have "\<dots> \<longleftrightarrow> a \<in> set as \<and> at_node_id a = ?n"
    proof
      assume "a \<in> set as \<and> at_node_id a = ?n"
      moreover then obtain b where b: "find (?P (at_id a)) as = Some b"
        by (cases "find (?P (at_id a)) as") (auto simp: find_None_iff)
      ultimately show "find (?P (at_id a)) as = Some a"
        using uniq find_Some_in_set [OF b] by auto
    qed (auto dest: find_Some_in_set)
    finally show ?thesis .
  qed
  then show ?thesis by (auto simp: registry_get_def registry_list_def sync_from_cluster_def look)
qed

definition demo_attachment :: "string \<Rightarrow> string \<Rightarrow> unit Attachment" where
  "demo_attachment i n = \<lparr>at_id = i, at_node_id = n, at_kind = Directory ''/data'', at_capabilities = [],
     at_metadata = [], at_created_at = 0\<rparr>"

theorem sync_mirrors_cluster_witness:
  "set (registry_list (sync_from_cluster [demo_attachment ''a'' ''n1'', demo_attachment ''b'' ''n2'']
     (snd (register ''c'' 3 (File ''/x'') [] (registry_new ''n1''))))) = {demo_attachment ''a'' ''n1''}"
proof -
  have d: "distinct (map at_id [demo_attachment ''a'' ''n1'', demo_attachment ''b'' ''n2''])"
    by (simp add: demo_attachment_def)
  have "{a \<in> set [demo_attachment ''a'' ''n1'', demo_attachment ''b'' ''n2'']. at_node_id a = ''n1''} =
      {demo_attachment ''a'' ''n1''}"
    by (auto simp: demo_attachment_def)
  then show ?thesis
    using sync_mirrors_cluster [OF d, THEN conjunct2, of "snd (register ''c'' 3 (File ''/x'') [] (registry_new ''n1''))"]
    by (simp add: register_def registry_new_def Let_def)
qed

text \<open>Lookups after each operation: a registration is found under its fresh identifier and returned
  as stored, an unregistration returns what was stored and removes just that, annotating reports
  whether the attachment exists and changes one key of one attachment's metadata.\<close>

theorem registry_lookups:
  "registry_get j (snd (register u t k c r)) =
     (if j = u then Some (fst (register u t k c r)) else registry_get j r)
   \<and> fst (unregister i r) = registry_get i r
   \<and> registry_get j (snd (unregister i r)) = (if j = i then None else registry_get j r)
   \<and> fst (set_metadata i key v r) = (registry_get i r \<noteq> None)
   \<and> map_option (\<lambda>a. hm_get (at_metadata a) key') (registry_get j (snd (set_metadata i key v r))) =
       map_option (\<lambda>a. if j = i \<and> key' = key then Some v else hm_get (at_metadata a) key') (registry_get j r)"
  by (auto simp: registry_get_def register_def unregister_def set_metadata_def Let_def option.map_comp comp_def
      split: option.split intro!: option.map_cong)

text \<open>The listings by kind and by capability, through lookups. A custom attachment whose type name is
  the name of a built-in kind is listed with that kind.\<close>

lemma registry_listings:
  assumes "registry_wf r"
  shows "a \<in> set (list_by_kind k r) \<longleftrightarrow> registry_get (at_id a) r = Some a \<and> kind_name (at_kind a) = k"
    and "a \<in> set (with_capability c r) \<longleftrightarrow> registry_get (at_id a) r = Some a \<and> c \<in> set (at_capabilities a)"
  using assms
  using keyed_values_mem [OF owned_keyed] assms
  by (auto simp: registry_wf_def list_by_kind_def with_capability_def registry_get_def list_ex_iff)

lemma custom_kind_shadows_builtin:
  "map at_id (list_by_kind ''file'' (snd (register ''c'' 3 (CustomAttachment ''file'' ()) [] (registry_new ''n1''))))
     = [''c'']"
  by (simp add: list_by_kind_def register_def registry_new_def hm_values_def hm_insert_def Let_def)

end
