(* ===== verification/F32.thy ===== *)
theory F32
  imports Complex_Main "HOL-Library.Log_Nat" Prelude
begin

text \<open>
  Arithmetic of Rust's \<open>f32\<close> as far as the program computes with it: positive values between
  \<open>2^-64\<close> and \<open>2^64\<close>, far from overflow and from the subnormal range, where every operation is
  the exact result rounded to 24 significant bits, ties to even. \<open>f32_round\<close> is that rounding on
  rationals; \<open>u32_as_f32\<close>, \<open>f32_div\<close> and \<open>f32_mult\<close> are \<open>as f32\<close>, \<open>/\<close> and \<open>*\<close>, and
  \<open>f32_as_u8\<close> is the saturating cast \<open>as u8\<close> of a non-negative value.
\<close>

definition round_half_even :: "rat \<Rightarrow> int" where
  "round_half_even y =
     (let n = \<lfloor>y\<rfloor>; d = y - of_int n in
      if d < 1 / 2 then n else if d > 1 / 2 then n + 1 else if even n then n else n + 1)"

text \<open>The binary exponent of a positive value: \<open>2^e \<le> x < 2^(e + 1)\<close>.\<close>

definition f32_exp :: "rat \<Rightarrow> int" where
  "f32_exp x =
     (let (p, q) = quotient_of x;
          e = int (floorlog 2 (nat p)) - int (floorlog 2 (nat q))
      in if 2 powi e \<le> x then e else e - 1)"

definition f32_round :: "rat \<Rightarrow> rat" where
  "f32_round x =
     (if x = 0 then 0
      else let u = 2 powi (f32_exp x - 23) in of_int (round_half_even (x / u)) * u)"

definition u32_as_f32 :: "u32 \<Rightarrow> rat" where
  "u32_as_f32 w = f32_round (of_nat (unat w))"

definition f32_div :: "rat \<Rightarrow> rat \<Rightarrow> rat" where
  "f32_div x y = f32_round (x / y)"

definition f32_mult :: "rat \<Rightarrow> rat \<Rightarrow> rat" where
  "f32_mult x y = f32_round (x * y)"

definition f32_as_u8 :: "rat \<Rightarrow> u8" where
  "f32_as_u8 x = word_of_int (min 255 \<lfloor>x\<rfloor>)"

section \<open>Rounding to an integer\<close>

lemma round_half_even_bounds: "\<lfloor>y\<rfloor> \<le> round_half_even y" "round_half_even y \<le> \<lfloor>y\<rfloor> + 1"
  by (simp_all add: round_half_even_def Let_def)

lemma round_half_even_int [simp]: "round_half_even (of_int n) = n"
  by (simp add: round_half_even_def)

lemma round_half_even_mono:
  assumes "x \<le> y"
  shows "round_half_even x \<le> round_half_even y"
proof (cases "\<lfloor>x\<rfloor> = \<lfloor>y\<rfloor>")
  case True
  with assms show ?thesis by (auto simp: round_half_even_def Let_def)
next
  case False
  with floor_mono [OF assms] have "\<lfloor>x\<rfloor> + 1 \<le> \<lfloor>y\<rfloor>" by simp
  then show ?thesis using round_half_even_bounds [of x] round_half_even_bounds [of y] by linarith
qed

section \<open>The exponent\<close>

lemma powi_mono_rat: "m \<le> n \<Longrightarrow> (2::rat) powi m \<le> 2 powi n"
  by (rule power_int_increasing) simp_all

lemma powi_less_iff: "(2::rat) powi m < 2 powi n \<longleftrightarrow> m < n"
  by (metis linorder_not_less nle_le powi_mono_rat power_int_strict_increasing one_less_numeral_iff semiring_norm(76))

lemma powi_succ: "(2::rat) powi (e + 1) = 2 * 2 powi e"
  by (simp add: power_int_add)

lemma floorlog_nat_bounds:
  assumes "0 < a"
  shows "2 powi (int (floorlog 2 a) - 1) \<le> (of_nat a :: rat)" "(of_nat a :: rat) < 2 powi int (floorlog 2 a)"
proof -
  have b: "2 ^ (floorlog 2 a - 1) \<le> a" "a < 2 ^ floorlog 2 a"
    using floorlog_bounds [of a 2] assms by auto
  have pos: "0 < floorlog 2 a" using assms by (simp add: floorlog_def)
  have "(of_nat (2 ^ (floorlog 2 a - 1)) :: rat) \<le> of_nat a" using b(1) by (simp only: of_nat_le_iff)
  moreover have "int (floorlog 2 a) - 1 = int (floorlog 2 a - 1)" using pos by simp
  ultimately show "2 powi (int (floorlog 2 a) - 1) \<le> (of_nat a :: rat)" by (simp only: power_int_of_nat) simp
  have "(of_nat a :: rat) < of_nat (2 ^ floorlog 2 a)" using b(2) by (simp only: of_nat_less_iff)
  then show "(of_nat a :: rat) < 2 powi int (floorlog 2 a)" by simp
qed

lemma f32_exp_bounds:
  assumes "0 < x"
  shows "2 powi f32_exp x \<le> x" "x < 2 powi (f32_exp x + 1)"
proof -
  obtain p q where pq: "quotient_of x = (p, q)" by fastforce
  then have x: "x = of_int p / of_int q" and q: "0 < q"
    using quotient_of_div quotient_of_denom_pos by auto
  with assms have p: "0 < p" by (simp add: zero_less_divide_iff)
  define P Q where "P = int (floorlog 2 (nat p))" and "Q = int (floorlog 2 (nat q))"
  have P: "2 powi (P - 1) \<le> (of_int p :: rat)" "(of_int p :: rat) < 2 powi P"
    using floorlog_nat_bounds [of "nat p"] p by (simp_all add: P_def)
  have Q: "2 powi (Q - 1) \<le> (of_int q :: rat)" "(of_int q :: rat) < 2 powi Q"
    using floorlog_nat_bounds [of "nat q"] q by (simp_all add: Q_def)
  have upper: "x < 2 powi (P - Q + 1)"
  proof -
    have "x < 2 powi P / 2 powi (Q - 1)"
      unfolding x using P Q p q by (intro frac_less) simp_all
    also have "\<dots> = 2 powi (P - (Q - 1))" by (simp add: power_int_diff)
    finally show ?thesis by (simp add: algebra_simps)
  qed
  have lower: "2 powi (P - Q - 1) \<le> x"
  proof -
    have "2 powi (P - 1 - Q) = 2 powi (P - 1) / (2 powi Q :: rat)" by (rule power_int_diff) simp
    also have "\<dots> \<le> x" unfolding x using P Q p q by (intro frac_le) simp_all
    finally show ?thesis by (simp add: algebra_simps)
  qed
  have "f32_exp x = (if 2 powi (P - Q) \<le> x then P - Q else P - Q - 1)"
    by (simp add: f32_exp_def pq P_def Q_def Let_def)
  then show "2 powi f32_exp x \<le> x" "x < 2 powi (f32_exp x + 1)"
    using upper lower by (auto split: if_splits)
qed

lemma f32_exp_unique:
  assumes "2 powi e \<le> x" "x < 2 powi (e + 1)"
  shows "f32_exp x = e"
proof -
  have "0 < x" using assms(1) by (rule less_le_trans [rotated]) simp
  note b = f32_exp_bounds [OF this]
  have "2 powi e < (2::rat) powi (f32_exp x + 1)" using assms b by linarith
  moreover have "2 powi f32_exp x < (2::rat) powi (e + 1)" using assms b by linarith
  ultimately show ?thesis by (simp add: powi_less_iff)
qed

lemma f32_exp_mono:
  assumes "0 < x" "x \<le> y"
  shows "f32_exp x \<le> f32_exp y"
proof -
  have "2 powi f32_exp x < (2::rat) powi (f32_exp y + 1)"
    using f32_exp_bounds [of x] f32_exp_bounds [of y] assms by linarith
  then show ?thesis by (simp add: powi_less_iff)
qed

section \<open>Rounding to 24 bits\<close>

lemma f32_round_0 [simp]: "f32_round 0 = 0"
  by (simp add: f32_round_def)

lemma f32_round_scaled:
  assumes "0 < x" "f32_exp x = e"
  shows "f32_round x = of_int (round_half_even (x / 2 powi (e - 23))) * 2 powi (e - 23)"
  using assms by (simp add: f32_round_def Let_def)

lemma powi_split_23: "(2::rat) powi e = 2 ^ 23 * 2 powi (e - 23)"
proof -
  have "(2::rat) powi (23 + (e - 23)) = 2 powi 23 * 2 powi (e - 23)" by (rule power_int_add) simp
  then show ?thesis by simp
qed

text \<open>The rounded value stays within the binade of the exact one, its upper end included.\<close>

lemma f32_round_binade:
  assumes "0 < x" "f32_exp x = e"
  shows "2 powi e \<le> f32_round x" "f32_round x \<le> 2 powi (e + 1)"
proof -
  define u where "u = (2::rat) powi (e - 23)"
  have u: "0 < u" by (simp add: u_def)
  have lo: "2 powi e = 2 ^ 23 * u" unfolding u_def by (rule powi_split_23)
  have hi: "2 powi (e + 1) = 2 ^ 24 * u" using lo by (simp add: powi_succ)
  have "2 ^ 23 \<le> x / u" "x / u \<le> 2 ^ 24"
    using f32_exp_bounds [OF assms(1)] assms(2) lo hi u by (simp_all add: field_simps)
  then have "round_half_even (of_int (2 ^ 23)) \<le> round_half_even (x / u)"
    "round_half_even (x / u) \<le> round_half_even (of_int (2 ^ 24))"
    by (auto intro!: round_half_even_mono)
  then have "2 ^ 23 \<le> round_half_even (x / u)" "round_half_even (x / u) \<le> 2 ^ 24"
    by (simp_all only: round_half_even_int)
  then have "(2::rat) ^ 23 \<le> of_int (round_half_even (x / u))" "of_int (round_half_even (x / u)) \<le> (2::rat) ^ 24"
    by simp_all
  then show "2 powi e \<le> f32_round x" "f32_round x \<le> 2 powi (e + 1)"
    unfolding f32_round_scaled [OF assms] lo hi using u unfolding u_def [symmetric]
    by (auto intro: mult_right_mono)
qed

lemma f32_round_mono:
  assumes "0 < x" "x \<le> y"
  shows "f32_round x \<le> f32_round y"
proof -
  have y: "0 < y" using assms by simp
  define e d where "e = f32_exp x" and "d = f32_exp y"
  show ?thesis
  proof (cases "e = d")
    case True
    have "x / 2 powi (e - 23) \<le> y / 2 powi (e - 23)" using assms by (simp add: divide_right_mono)
    then have "round_half_even (x / 2 powi (e - 23)) \<le> round_half_even (y / 2 powi (e - 23))"
      by (rule round_half_even_mono)
    then show ?thesis
      using f32_round_scaled [OF assms(1) e_def [symmetric]]
        f32_round_scaled [OF y d_def [symmetric]] True
      by (simp add: mult_right_mono)
  next
    case False
    with f32_exp_mono [OF assms] have "e + 1 \<le> d" by (simp add: e_def d_def)
    then have "(2::rat) powi (e + 1) \<le> 2 powi d" by (rule powi_mono_rat)
    then show ?thesis
      using f32_round_binade(2) [OF assms(1) e_def [symmetric]]
        f32_round_binade(1) [OF y d_def [symmetric]] by linarith
  qed
qed

lemma f32_round_nonneg: "0 \<le> x \<Longrightarrow> 0 \<le> f32_round x"
  using f32_round_binade(1) [of x "f32_exp x"] by (cases "x = 0") (auto intro: order_trans [rotated])

lemma f32_round_mono0: "0 \<le> x \<Longrightarrow> x \<le> y \<Longrightarrow> f32_round x \<le> f32_round y"
  using f32_round_mono [of x y] f32_round_nonneg [of y] by (cases "x = 0") auto

text \<open>A value with at most 24 significant bits is kept.\<close>

lemma f32_round_exact:
  assumes "2 ^ 23 \<le> k" "k < 2 ^ 24"
  shows "f32_round (of_int k * 2 powi j) = of_int k * 2 powi j"
proof -
  define x where "x = of_int k * (2::rat) powi j"
  have k: "(2::rat) ^ 23 \<le> of_int k" "of_int k < (2::rat) ^ 24"
    using assms by simp_all
  have lo: "2 powi (j + 23) = 2 ^ 23 * (2::rat) powi j" using powi_split_23 [of "j + 23"] by simp
  have hi: "2 powi (j + 23 + 1) = 2 ^ 24 * (2::rat) powi j" by (simp add: power_int_add)
  have e: "f32_exp x = j + 23"
  proof (rule f32_exp_unique)
    show "2 powi (j + 23) \<le> x" unfolding lo x_def using k(1) by (intro mult_right_mono) simp_all
    show "x < 2 powi (j + 23 + 1)" unfolding hi x_def using k(2) by (intro mult_strict_right_mono) simp_all
  qed
  have "0 < x" using k(1) by (simp add: x_def zero_less_mult_iff)
  from f32_round_scaled [OF this e] have "f32_round x = x"
    by (simp add: x_def)
  then show ?thesis by (simp only: x_def)
qed

lemma f32_round_nat:
  assumes "n < 2 ^ 24"
  shows "f32_round (of_nat n) = of_nat n"
proof (cases "n = 0")
  case False
  define e where "e = f32_exp (of_nat n)"
  have pos: "0 < (of_nat n :: rat)" using False by simp
  have "2 powi e \<le> (of_nat n :: rat)" using f32_exp_bounds(1) [OF pos] by (simp add: e_def)
  also have "(of_nat n :: rat) < of_nat (2 ^ 24)" using assms by (simp only: of_nat_less_iff)
  also have "\<dots> = 2 powi 24" by simp
  finally have "e < 24" by (simp only: powi_less_iff)
  then have "(2::rat) powi (23 - e) = of_int (2 ^ nat (23 - e))" by (simp add: power_int_def)
  then have scaled: "(of_nat n :: rat) / 2 powi (e - 23) = of_int (int n * 2 ^ nat (23 - e))"
    using power_int_minus [of "2::rat" "e - 23"] by (simp add: field_simps)
  show ?thesis
    unfolding f32_round_scaled [OF pos e_def [symmetric]] scaled round_half_even_int
    unfolding scaled [symmetric] by simp
qed simp

lemma f32_round_numeral: "(numeral k :: nat) < 2 ^ 24 \<Longrightarrow> f32_round (numeral k) = numeral k"
  using f32_round_nat [of "numeral k"] by simp

lemma f32_round_1 [simp]: "f32_round 1 = 1"
  using f32_round_nat [of 1] by simp

section \<open>A percentage\<close>

text \<open>\<open>((c as f32 / t as f32) * 100.0) as u8\<close>\<close>

definition percent_f32 :: "u32 \<Rightarrow> u32 \<Rightarrow> rat" where
  "percent_f32 c t = f32_mult (f32_div (u32_as_f32 c) (u32_as_f32 t)) 100"

definition percent_u8 :: "u32 \<Rightarrow> u32 \<Rightarrow> u8" where
  "percent_u8 c t = f32_as_u8 (percent_f32 c t)"

lemma f32_round_of_nat_mono: "m \<le> n \<Longrightarrow> f32_round (of_nat m) \<le> f32_round (of_nat n)"
  by (rule f32_round_mono0) simp_all

lemma u32_as_f32_mono: "c \<le> t \<Longrightarrow> u32_as_f32 c \<le> u32_as_f32 t"
  unfolding u32_as_f32_def word_le_nat_alt by (rule f32_round_of_nat_mono)

lemma u32_as_f32_nonneg: "0 \<le> u32_as_f32 c"
  unfolding u32_as_f32_def by (rule f32_round_nonneg) (rule of_nat_0_le_iff)

lemma u32_as_f32_pos:
  assumes "0 < t"
  shows "0 < u32_as_f32 t"
proof -
  have "1 \<le> unat t" using assms by (simp add: word_less_nat_alt)
  from f32_round_of_nat_mono [OF this] have "1 \<le> u32_as_f32 t"
    unfolding u32_as_f32_def by (simp del: of_nat_unat)
  then show ?thesis by simp
qed

lemma f32_div_le_1:
  assumes "0 < t" "c \<le> t"
  shows "0 \<le> f32_div (u32_as_f32 c) (u32_as_f32 t)" "f32_div (u32_as_f32 c) (u32_as_f32 t) \<le> 1"
proof -
  let ?q = "u32_as_f32 c / u32_as_f32 t"
  have "0 \<le> ?q" using u32_as_f32_nonneg by (simp add: divide_nonneg_nonneg)
  moreover have "?q \<le> 1"
    using u32_as_f32_pos [OF assms(1)] u32_as_f32_mono [OF assms(2)] by simp
  ultimately show "0 \<le> f32_div (u32_as_f32 c) (u32_as_f32 t)"
    "f32_div (u32_as_f32 c) (u32_as_f32 t) \<le> 1"
    using f32_round_mono0 [of ?q 1] by (simp_all add: f32_div_def f32_round_nonneg)
qed

lemma percent_f32_bounds:
  assumes "0 < t" "c \<le> t"
  shows "0 \<le> percent_f32 c t" "percent_f32 c t \<le> 100"
proof -
  let ?q = "f32_div (u32_as_f32 c) (u32_as_f32 t)"
  have q: "0 \<le> ?q" "?q \<le> 1" using f32_div_le_1 [OF assms] by auto
  then have "f32_round (?q * 100) \<le> f32_round 100" by (intro f32_round_mono0) simp_all
  then show "percent_f32 c t \<le> 100"
    by (simp add: percent_f32_def f32_mult_def f32_round_numeral)
  show "0 \<le> percent_f32 c t"
    using q by (simp add: percent_f32_def f32_mult_def f32_round_nonneg)
qed

lemma f32_as_u8_uint:
  assumes "0 \<le> x" "x \<le> 255"
  shows "uint (f32_as_u8 x) = \<lfloor>x\<rfloor>"
proof -
  have f: "0 \<le> \<lfloor>x\<rfloor>" "\<lfloor>x\<rfloor> \<le> 255" using assms floor_mono [OF assms(2)] by simp_all
  then have "take_bit 8 \<lfloor>x\<rfloor> = \<lfloor>x\<rfloor>" by (intro take_bit_int_eq_self) simp_all
  with f show ?thesis by (simp add: f32_as_u8_def unsigned_of_int)
qed

lemma percent_u8_floor:
  assumes "0 < t" "c \<le> t"
  shows "uint (percent_u8 c t) = \<lfloor>percent_f32 c t\<rfloor>"
  unfolding percent_u8_def using percent_f32_bounds [OF assms] by (intro f32_as_u8_uint) simp_all

lemma percent_u8_le_100:
  assumes "0 < t" "c \<le> t"
  shows "uint (percent_u8 c t) \<le> 100"
proof -
  have "\<lfloor>percent_f32 c t\<rfloor> \<le> \<lfloor>100 :: rat\<rfloor>" by (rule floor_mono) (rule percent_f32_bounds [OF assms])
  then show ?thesis using percent_u8_floor [OF assms] by simp
qed

lemma percent_u8_full: "0 < t \<Longrightarrow> uint (percent_u8 t t) = 100"
proof -
  assume t: "0 < t"
  have "percent_f32 t t = 100"
    using u32_as_f32_pos [OF t] by (simp add: percent_f32_def f32_div_def f32_mult_def f32_round_numeral)
  then show ?thesis using percent_u8_floor [OF t order_refl] by simp
qed

text \<open>The largest ratio below 1 is \<open>1 - 2^-24\<close>; a hundred times it rounds to \<open>100 - 2^-17\<close>.\<close>

lemma f32_below_1: "f32_round (16777215 / 16777216) = 16777215 / 16777216"
  using f32_round_exact [of 16777215 "-24"] by (simp add: power_int_minus field_simps)

lemma f32_below_100: "f32_round (16777215 / 16777216 * 100) = 13107199 / 131072"
proof -
  have e: "f32_exp (16777215 / 16777216 * 100) = 6"
    by (rule f32_exp_unique) simp_all
  have "\<lfloor>419430375 / 32 :: rat\<rfloor> = 13107199" by (simp add: floor_eq_iff)
  then have "round_half_even (16777215 / 16777216 * 100 / 2 powi (6 - 23)) = 13107199"
    by (simp add: power_int_minus round_half_even_def Let_def)
  then show ?thesis
    using f32_round_scaled [OF _ e] by (simp add: power_int_minus)
qed

lemma percent_u8_lt_100:
  assumes "c < t" "unat t \<le> 2 ^ 24"
  shows "uint (percent_u8 c t) < 100"
proof -
  have t: "0 < t" "c \<le> t" using assms(1) by (auto simp: word_less_nat_alt word_le_nat_alt)
  have ct: "unat c < unat t" using assms(1) by (simp add: word_less_nat_alt)
  then have c: "u32_as_f32 c = of_nat (unat c)"
    unfolding u32_as_f32_def using assms(2) by (intro f32_round_nat) simp
  have "f32_round (of_nat (unat t)) = of_nat (unat t)"
  proof (cases "unat t = 2 ^ 24")
    case True
    have "f32_round (of_int (2 ^ 23) * 2 powi 1) = of_int (2 ^ 23) * 2 powi 1"
      by (rule f32_round_exact) simp_all
    with True show ?thesis by (simp del: of_nat_unat)
  next
    case False
    with assms(2) show ?thesis by (intro f32_round_nat) simp
  qed
  then have t': "u32_as_f32 t = of_nat (unat t)" by (simp only: u32_as_f32_def)
  define C T :: rat where "C = of_nat (unat c)" and "T = of_nat (unat t)"
  have "(of_nat (Suc (unat c)) :: rat) \<le> of_nat (unat t)" using ct by (simp only: of_nat_le_iff)
  then have "C + 1 \<le> T" unfolding C_def T_def by (simp del: of_nat_unat)
  moreover have "(of_nat (unat t) :: rat) \<le> of_nat (2 ^ 24)"
    using assms(2) by (simp only: of_nat_le_iff)
  then have "T \<le> 16777216" unfolding T_def by (simp del: of_nat_unat)
  moreover have "0 \<le> C" unfolding C_def by (rule of_nat_0_le_iff)
  ultimately have "0 \<le> C / T" "C / T \<le> 16777215 / 16777216"
    by (simp_all add: pos_divide_le_eq)
  then have "f32_round (C / T) \<le> f32_round (16777215 / 16777216)" "0 \<le> f32_round (C / T)"
    by (blast intro: f32_round_mono0 f32_round_nonneg)+
  then have q: "f32_div C T \<le> 16777215 / 16777216" "0 \<le> f32_div C T"
    by (simp_all only: f32_div_def f32_below_1)
  then have "f32_round (f32_div C T * 100) \<le> f32_round (16777215 / 16777216 * 100)"
    by (intro f32_round_mono0 mult_right_mono) simp_all
  then have "percent_f32 c t \<le> 13107199 / 131072"
    by (simp only: percent_f32_def f32_mult_def c t' C_def T_def f32_below_100)
  then have "percent_f32 c t < 100" by (rule le_less_trans) simp
  then show ?thesis using percent_u8_floor [OF t] by simp
qed

section \<open>How far a percentage is off\<close>

lemma round_half_even_close: "\<bar>of_int (round_half_even y) - y\<bar> \<le> 1 / 2"
  unfolding round_half_even_def Let_def by (auto split: if_splits simp: abs_if) linarith+

lemma f32_round_close:
  assumes "0 \<le> x"
  shows "x * (1 - 1 / 2 ^ 24) \<le> f32_round x" "f32_round x \<le> x * (1 + 1 / 2 ^ 24)"
proof -
  have "\<bar>f32_round x - x\<bar> \<le> x / 2 ^ 24"
  proof (cases "x = 0")
    case False
    with assms have x: "0 < x" by simp
    define u where "u = (2::rat) powi (f32_exp x - 23)"
    have u: "0 < u" by (simp add: u_def)
    have "2 powi f32_exp x = 2 ^ 23 * u" unfolding u_def by (rule powi_split_23)
    with f32_exp_bounds(1) [OF x] have le: "2 ^ 23 * u \<le> x" by simp
    have "f32_round x - x = (of_int (round_half_even (x / u)) - x / u) * u"
      using x u by (simp add: f32_round_def u_def Let_def algebra_simps)
    then have "\<bar>f32_round x - x\<bar> = \<bar>of_int (round_half_even (x / u)) - x / u\<bar> * u"
      using u by (simp add: abs_mult)
    also have "\<dots> \<le> 1 / 2 * u" by (rule mult_right_mono [OF round_half_even_close]) (use u in simp)
    also have "\<dots> \<le> x / 2 ^ 24" using le by simp
    finally show ?thesis .
  qed simp
  then have "x - x / 2 ^ 24 \<le> f32_round x" "f32_round x \<le> x + x / 2 ^ 24" by linarith+
  then show "x * (1 - 1 / 2 ^ 24) \<le> f32_round x" "f32_round x \<le> x * (1 + 1 / 2 ^ 24)"
    by (simp_all only: right_diff_distrib distrib_left mult_1_right times_divide_eq_right)
qed

lemma percent_f32_close:
  assumes "0 < t" "c \<le> t"
  shows "100 * of_nat (unat c) / of_nat (unat t) - 1 / 100 \<le> percent_f32 c t"
    "percent_f32 c t \<le> 100 * of_nat (unat c) / of_nat (unat t) + 1 / 100"
proof -
  define C T :: rat where "C = of_nat (unat c)" and "T = of_nat (unat t)"
  have "0 < unat t" using assms(1) by (simp add: word_less_nat_alt)
  then have T: "0 < T" unfolding T_def by (simp del: of_nat_unat)
  have C: "0 \<le> C" "C \<le> T" using assms(2) unfolding C_def T_def word_le_nat_alt by (simp_all del: of_nat_unat)
  let ?lo = "1 - 1 / 2 ^ 24 :: rat" and ?hi = "1 + 1 / 2 ^ 24 :: rat"
  define q r s v where "q = u32_as_f32 c" and "r = u32_as_f32 t" and "s = f32_div q r" and "v = percent_f32 c t"
  have q: "C * ?lo \<le> q" "q \<le> C * ?hi" and r: "T * ?lo \<le> r" "r \<le> T * ?hi"
    using f32_round_close C T unfolding q_def r_def u32_as_f32_def C_def T_def by (simp_all only:)
  have r0: "0 < r" unfolding r_def by (rule u32_as_f32_pos [OF assms(1)])
  have q0: "0 \<le> q" unfolding q_def by (rule u32_as_f32_nonneg)
  have qr: "C / T * (?lo / ?hi) \<le> q / r" "q / r \<le> C / T * (?hi / ?lo)"
  proof -
    have "(C * ?lo) / (T * ?hi) \<le> q / r" by (rule frac_le) (use q r r0 C T q0 in auto)
    then show "C / T * (?lo / ?hi) \<le> q / r" by simp
    have "q / r \<le> (C * ?hi) / (T * ?lo)" by (rule frac_le) (use q r r0 C T q0 in auto)
    then show "q / r \<le> C / T * (?hi / ?lo)" by simp
  qed
  have s: "q / r * ?lo \<le> s" "s \<le> q / r * ?hi"
    using f32_round_close [of "q / r"] q0 r0 unfolding s_def f32_div_def by simp_all
  have v: "s * 100 * ?lo \<le> v" "v \<le> s * 100 * ?hi"
  proof -
    have "0 \<le> s" using q0 r0 unfolding s_def f32_div_def by (simp add: f32_round_nonneg)
    then show "s * 100 * ?lo \<le> v" "v \<le> s * 100 * ?hi"
      using f32_round_close [of "s * 100"] unfolding v_def percent_f32_def f32_mult_def s_def q_def r_def by simp_all
  qed
  have x: "0 \<le> C / T" "C / T \<le> 1" using C T by simp_all
  show "100 * of_nat (unat c) / of_nat (unat t) - 1 / 100 \<le> percent_f32 c t"
    "percent_f32 c t \<le> 100 * of_nat (unat c) / of_nat (unat t) + 1 / 100"
    using qr s v x unfolding C_def [symmetric] T_def [symmetric] v_def [symmetric] by simp_all
qed


lemma percent_u8_close:
  assumes "0 < t" "c \<le> t"
  shows "\<bar>of_int (uint (percent_u8 c t)) - 100 * of_nat (unat c) / of_nat (unat t)\<bar> < (102 / 100 :: rat)"
  using percent_f32_close [OF assms] unfolding percent_u8_floor [OF assms] by linarith

end
