(* ===== verification/Tracker.thy ===== *)
theory Tracker
  imports HiveTypes F32
begin

text \<open>
  The action tracker of \<open>src/brain/tracker.rs\<close>: the table of live actions, their bounded history,
  the progress records of the goals, and every operation of \<open>ActionTracker\<close>. The three
  \<open>RwLock\<close> fields are one record here: each method is a step that holds the locks it needs (the
  gap in which \<open>cleanup_stale\<close> releases and takes back the lock of the action table lies between
  two removals of its loop). Times that \<open>Utc::now()\<close> returns and the identifier that
  \<open>Uuid::new_v4()\<close> draws are arguments; \<open>fmt\<close> is chrono's \<open>format("%H:%M:%S")\<close>. The \<open>u32\<close>
  counters wrap around, as in a release build.

  The lemmas give the invariant of the tracker over every sequence of its operations, the life
  cycle of an action (retries, completion, timeout), the bounds of the history, the notes and the
  progress estimate, and what counts as a similar action.
\<close>

datatype ActionStatus = ActProposed | ActExecuting | ActCompleted | ActFailed | ActCancelled

record ActionResult =
  ar_success :: bool
  ar_message :: "string option"
  ar_completed_at :: timestamp

record 'j TrackedAction =
  ta_id :: string
  ta_action :: "'j BrainAction"
  ta_proposed_at :: timestamp
  ta_status :: ActionStatus
  ta_result :: "ActionResult option"
  ta_retry_count :: u32

record GoalProgress =
  gp_goal_id :: string
  gp_last_planned :: timestamp
  gp_actions_proposed :: u32
  gp_actions_completed :: u32
  gp_actions_failed :: u32
  gp_estimated_progress :: u8
  gp_notes :: "string list"

record 'j ActionTracker =
  tr_actions :: "(string, 'j TrackedAction) hmap"
  tr_goal_progress :: "(string, GoalProgress) hmap"
  tr_action_history :: "'j TrackedAction list"
  tr_max_history :: nat
  tr_max_retries :: u32
  tr_action_timeout :: timestamp

text \<open>\<open>Duration::minutes(5)\<close>, in nanoseconds.\<close>

definition five_minutes :: timestamp where
  "five_minutes = 300000000000"

definition tracker_new :: "'j ActionTracker" where
  "tracker_new = \<lparr>tr_actions = [], tr_goal_progress = [], tr_action_history = [],
     tr_max_history = 1000, tr_max_retries = 3, tr_action_timeout = five_minutes\<rparr>"

section \<open>Operations\<close>

definition track_action ::
  "string \<Rightarrow> timestamp \<Rightarrow> 'j BrainAction \<Rightarrow> 'j ActionTracker \<Rightarrow> string \<times> 'j ActionTracker" where
  "track_action uuid now action tr =
     (let tracked = \<lparr>ta_id = uuid, ta_action = action, ta_proposed_at = now,
                     ta_status = ActProposed, ta_result = None, ta_retry_count = 0\<rparr>
      in (uuid, tr\<lparr>tr_actions := hm_insert uuid tracked (tr_actions tr)\<rparr>))"

definition mark_executing :: "string \<Rightarrow> 'j ActionTracker \<Rightarrow> 'j ActionTracker" where
  "mark_executing i tr =
     tr\<lparr>tr_actions := hm_modify i (\<lambda>a. a\<lparr>ta_status := ActExecuting\<rparr>) (tr_actions tr)\<rparr>"

text \<open>The loop \<open>while history.len() > max { history.remove(0) }\<close>.\<close>

function trim_history :: "nat \<Rightarrow> 'a list \<Rightarrow> 'a list" where
  "trim_history n xs = (if length xs > n then trim_history n (tl xs) else xs)"
  by pat_completeness auto
termination
  by (relation "measure (\<lambda>(n, xs). length xs)") auto

declare trim_history.simps [simp del]

definition add_to_history :: "'j TrackedAction \<Rightarrow> 'j ActionTracker \<Rightarrow> 'j ActionTracker" where
  "add_to_history a tr =
     tr\<lparr>tr_action_history := trim_history (tr_max_history tr) (tr_action_history tr @ [a])\<rparr>"

definition mark_completed ::
  "string \<Rightarrow> string option \<Rightarrow> timestamp \<Rightarrow> 'j ActionTracker \<Rightarrow> 'j ActionTracker" where
  "mark_completed i message now tr =
     (case hm_get (tr_actions tr) i of
        None \<Rightarrow> tr
      | Some action \<Rightarrow>
          add_to_history
            (action\<lparr>ta_status := ActCompleted,
               ta_result := Some \<lparr>ar_success = True, ar_message = message, ar_completed_at = now\<rparr>\<rparr>)
            (tr\<lparr>tr_actions := hm_remove i (tr_actions tr)\<rparr>))"

definition mark_failed ::
  "string \<Rightarrow> string option \<Rightarrow> timestamp \<Rightarrow> 'j ActionTracker \<Rightarrow> bool \<times> 'j ActionTracker" where
  "mark_failed i message now tr =
     (case hm_get (tr_actions tr) i of
        None \<Rightarrow> (False, tr)
      | Some action \<Rightarrow>
          (let action' = action\<lparr>ta_retry_count := ta_retry_count action + 1\<rparr> in
           if ta_retry_count action' \<ge> tr_max_retries tr
           then (False,
                 add_to_history
                   (action'\<lparr>ta_status := ActFailed,
                      ta_result := Some \<lparr>ar_success = False, ar_message = message,
                                         ar_completed_at = now\<rparr>\<rparr>)
                   (tr\<lparr>tr_actions := hm_remove i (tr_actions tr)\<rparr>))
           else (True,
                 tr\<lparr>tr_actions := hm_insert i (action'\<lparr>ta_status := ActProposed\<rparr>) (tr_actions tr)\<rparr>)))"

definition get_pending_actions :: "'j ActionTracker \<Rightarrow> 'j TrackedAction list" where
  "get_pending_actions tr = filter (\<lambda>a. ta_status a = ActProposed) (hm_values (tr_actions tr))"

definition is_stale :: "timestamp \<Rightarrow> timestamp \<Rightarrow> 'j TrackedAction \<Rightarrow> bool" where
  "is_stale now timeout a \<longleftrightarrow> ta_status a = ActExecuting \<and> now - ta_proposed_at a > timeout"

definition expire_action :: "timestamp \<Rightarrow> string \<Rightarrow> 'j ActionTracker \<Rightarrow> 'j ActionTracker" where
  "expire_action now i tr =
     (case hm_get (tr_actions tr) i of
        None \<Rightarrow> tr
      | Some action \<Rightarrow>
          add_to_history
            (action\<lparr>ta_status := ActFailed,
               ta_result := Some \<lparr>ar_success = False, ar_message = Some ''Timeout'',
                                  ar_completed_at = now\<rparr>\<rparr>)
            (tr\<lparr>tr_actions := hm_remove i (tr_actions tr)\<rparr>))"

definition cleanup_stale :: "timestamp \<Rightarrow> 'j ActionTracker \<Rightarrow> 'j ActionTracker" where
  "cleanup_stale now tr =
     (let stale_ids = map fst (filter (\<lambda>(_, a). is_stale now (tr_action_timeout tr) a) (tr_actions tr))
      in fold (expire_action now) stale_ids tr)"

definition goal_progress_new :: "string \<Rightarrow> timestamp \<Rightarrow> GoalProgress" where
  "goal_progress_new g now =
     \<lparr>gp_goal_id = g, gp_last_planned = now, gp_actions_proposed = 0, gp_actions_completed = 0,
      gp_actions_failed = 0, gp_estimated_progress = 0, gp_notes = []\<rparr>"

definition push_note :: "string \<Rightarrow> string list \<Rightarrow> string list" where
  "push_note n notes = (let ns = notes @ [n] in if length ns > 50 then tl ns else ns)"

definition record_outcome ::
  "(timestamp \<Rightarrow> string) \<Rightarrow> timestamp \<Rightarrow> timestamp \<Rightarrow> bool \<Rightarrow> string option \<Rightarrow> GoalProgress \<Rightarrow> GoalProgress" where
  "record_outcome fmt now now' completed notes entry =
     (let e1 = entry\<lparr>gp_last_planned := now, gp_actions_proposed := gp_actions_proposed entry + 1\<rparr>;
          e2 = (if completed then e1\<lparr>gp_actions_completed := gp_actions_completed e1 + 1\<rparr>
                else e1\<lparr>gp_actions_failed := gp_actions_failed e1 + 1\<rparr>);
          e3 = (case notes of
                  None \<Rightarrow> e2
                | Some note \<Rightarrow>
                    e2\<lparr>gp_notes := push_note (''['' @ fmt now' @ ''] '' @ note) (gp_notes e2)\<rparr>);
          total = max (gp_actions_proposed e3) 1
      in e3\<lparr>gp_estimated_progress := percent_u8 (gp_actions_completed e3) total\<rparr>)"

definition update_goal_progress ::
  "(timestamp \<Rightarrow> string) \<Rightarrow> timestamp \<Rightarrow> timestamp \<Rightarrow> timestamp \<Rightarrow> string \<Rightarrow> bool \<Rightarrow> string option
   \<Rightarrow> 'j ActionTracker \<Rightarrow> 'j ActionTracker" where
  "update_goal_progress fmt now0 now1 now2 g completed notes tr =
     (let entry = (case hm_get (tr_goal_progress tr) g of
                     None \<Rightarrow> goal_progress_new g now0 | Some e \<Rightarrow> e)
      in tr\<lparr>tr_goal_progress :=
           hm_insert g (record_outcome fmt now1 now2 completed notes entry) (tr_goal_progress tr)\<rparr>)"

definition get_goal_progress :: "string \<Rightarrow> 'j ActionTracker \<Rightarrow> GoalProgress option" where
  "get_goal_progress g tr = hm_get (tr_goal_progress tr) g"

definition get_recent_failures :: "nat \<Rightarrow> 'j ActionTracker \<Rightarrow> 'j TrackedAction list" where
  "get_recent_failures limit tr =
     take limit (filter (\<lambda>a. ta_status a = ActFailed) (rev (tr_action_history tr)))"

definition get_recent_actions :: "nat \<Rightarrow> 'j ActionTracker \<Rightarrow> 'j TrackedAction list" where
  "get_recent_actions limit tr = take limit (rev (tr_action_history tr))"

text \<open>\<open>std::mem::discriminant\<close> of a task payload: the number of its variant.\<close>

fun payload_discriminant :: "'j TaskPayload \<Rightarrow> nat" where
  "payload_discriminant (Echo _) = 0"
| "payload_discriminant (SyncDirectory _ _) = 1"
| "payload_discriminant (RunCommand _ _) = 2"
| "payload_discriminant (CheckService _) = 3"
| "payload_discriminant (RestartService _) = 4"
| "payload_discriminant (DockerRun _ _) = 5"
| "payload_discriminant (CustomTask _ _) = 6"

fun is_similar_action :: "'j BrainAction \<Rightarrow> 'j BrainAction \<Rightarrow> bool" where
  "is_similar_action (ScheduleTask t1 n1 _) (ScheduleTask t2 n2 _) \<longleftrightarrow>
     n1 = n2 \<and> payload_discriminant t1 = payload_discriminant t2"
| "is_similar_action (RebalanceTask t1 _) (RebalanceTask t2 _) \<longleftrightarrow> t1 = t2"
| "is_similar_action (CancelTask t1) (CancelTask t2) \<longleftrightarrow> t1 = t2"
| "is_similar_action (MarkNodeDegraded n1 _) (MarkNodeDegraded n2 _) \<longleftrightarrow> n1 = n2"
| "is_similar_action _ _ \<longleftrightarrow> False"

definition has_similar_pending :: "'j BrainAction \<Rightarrow> 'j ActionTracker \<Rightarrow> bool" where
  "has_similar_pending action tr \<longleftrightarrow>
     list_ex (\<lambda>a. is_similar_action (ta_action a) action) (hm_values (tr_actions tr))"

record TrackerStats =
  st_pending :: nat
  st_executing :: nat
  st_completed :: nat
  st_failed :: nat
  st_history_size :: nat

definition get_stats :: "'j ActionTracker \<Rightarrow> TrackerStats" where
  "get_stats tr =
     \<lparr>st_pending = length (filter (\<lambda>a. ta_status a = ActProposed) (hm_values (tr_actions tr))),
      st_executing = length (filter (\<lambda>a. ta_status a = ActExecuting) (hm_values (tr_actions tr))),
      st_completed = length (filter (\<lambda>a. ta_status a = ActCompleted) (tr_action_history tr)),
      st_failed = length (filter (\<lambda>a. ta_status a = ActFailed) (tr_action_history tr)),
      st_history_size = length (tr_action_history tr)\<rparr>"

text \<open>The operations as events, and the tracker they lead to.\<close>

datatype 'j tracker_op =
    Track string timestamp "'j BrainAction"
  | Start string
  | Complete string "string option" timestamp
  | Fail string "string option" timestamp
  | Cleanup timestamp
  | Progress timestamp timestamp timestamp string bool "string option"

fun tracker_step :: "(timestamp \<Rightarrow> string) \<Rightarrow> 'j tracker_op \<Rightarrow> 'j ActionTracker \<Rightarrow> 'j ActionTracker" where
  "tracker_step fmt (Track i now a) tr = snd (track_action i now a tr)"
| "tracker_step fmt (Start i) tr = mark_executing i tr"
| "tracker_step fmt (Complete i m now) tr = mark_completed i m now tr"
| "tracker_step fmt (Fail i m now) tr = snd (mark_failed i m now tr)"
| "tracker_step fmt (Cleanup now) tr = cleanup_stale now tr"
| "tracker_step fmt (Progress t0 t1 t2 g c n) tr = update_goal_progress fmt t0 t1 t2 g c n tr"

definition tracker_run :: "(timestamp \<Rightarrow> string) \<Rightarrow> 'j tracker_op list \<Rightarrow> 'j ActionTracker \<Rightarrow> 'j ActionTracker" where
  "tracker_run fmt ops tr = fold (tracker_step fmt) ops tr"

section \<open>History\<close>

lemma trim_history_drop: "trim_history n xs = drop (length xs - n) xs"
proof (induction n xs rule: trim_history.induct)
  case (1 n xs)
  show ?case
  proof (cases "length xs > n")
    case True
    then have "length xs - n = Suc (length (tl xs) - n)" by simp
    with True "1" show ?thesis by (simp add: trim_history.simps [of n xs] drop_Suc)
  next
    case False
    then show ?thesis by (simp add: trim_history.simps [of n xs])
  qed
qed

lemma length_trim_history [simp]: "length (trim_history n xs) = min (length xs) n"
  by (simp add: trim_history_drop)

lemma trim_history_trim: "trim_history n (trim_history n xs @ ys) = trim_history n (xs @ ys)"
  by (cases "length xs \<le> n") (auto simp: trim_history_drop add.commute)

lemma set_trim_history: "set (trim_history n xs) \<subseteq> set xs"
  by (simp add: trim_history_drop set_drop_subset)

lemma trim_history_short [simp]: "length xs \<le> n \<Longrightarrow> trim_history n xs = xs"
  by (simp add: trim_history_drop)

lemma add_to_history_simps [simp]:
  "tr_actions (add_to_history a tr) = tr_actions tr"
  "tr_goal_progress (add_to_history a tr) = tr_goal_progress tr"
  "tr_max_history (add_to_history a tr) = tr_max_history tr"
  "tr_max_retries (add_to_history a tr) = tr_max_retries tr"
  "tr_action_timeout (add_to_history a tr) = tr_action_timeout tr"
  "tr_action_history (add_to_history a tr) = trim_history (tr_max_history tr) (tr_action_history tr @ [a])"
  by (simp_all add: add_to_history_def)

section \<open>Frames\<close>

text \<open>No operation changes the configuration, and only \<open>update_goal_progress\<close> touches the
  progress records.\<close>

lemma expire_action_frame [simp]:
  "tr_goal_progress (expire_action now i tr) = tr_goal_progress tr"
  "tr_max_history (expire_action now i tr) = tr_max_history tr"
  "tr_max_retries (expire_action now i tr) = tr_max_retries tr"
  "tr_action_timeout (expire_action now i tr) = tr_action_timeout tr"
  by (simp_all add: expire_action_def split: option.split)

lemma fold_expire_frame [simp]:
  "tr_goal_progress (fold (expire_action now) ids tr) = tr_goal_progress tr"
  "tr_max_history (fold (expire_action now) ids tr) = tr_max_history tr"
  "tr_max_retries (fold (expire_action now) ids tr) = tr_max_retries tr"
  "tr_action_timeout (fold (expire_action now) ids tr) = tr_action_timeout tr"
  by (induction ids arbitrary: tr) simp_all

lemma tracker_step_config [simp]:
  "tr_max_history (tracker_step fmt op tr) = tr_max_history tr"
  "tr_max_retries (tracker_step fmt op tr) = tr_max_retries tr"
  "tr_action_timeout (tracker_step fmt op tr) = tr_action_timeout tr"
  by (cases op; simp add: track_action_def mark_executing_def mark_completed_def mark_failed_def
      cleanup_stale_def update_goal_progress_def Let_def split: option.split)+

lemma tracker_run_append:
  "tracker_run fmt (xs @ ys) tr = tracker_run fmt ys (tracker_run fmt xs tr)"
  by (simp add: tracker_run_def)

lemma tracker_run_Nil [simp]: "tracker_run fmt [] tr = tr"
  by (simp add: tracker_run_def)

lemma tracker_run_Cons [simp]:
  "tracker_run fmt (op # ops) tr = tracker_run fmt ops (tracker_step fmt op tr)"
  by (simp add: tracker_run_def)

lemma tracker_run_config [simp]:
  "tr_max_history (tracker_run fmt ops tr) = tr_max_history tr"
  "tr_max_retries (tracker_run fmt ops tr) = tr_max_retries tr"
  "tr_action_timeout (tracker_run fmt ops tr) = tr_action_timeout tr"
  by (induction ops arbitrary: tr) simp_all

section \<open>The invariant\<close>

definition live_action :: "u32 \<Rightarrow> 'j TrackedAction \<Rightarrow> bool" where
  "live_action retries a \<longleftrightarrow> (ta_status a = ActProposed \<or> ta_status a = ActExecuting)
     \<and> ta_result a = None \<and> ta_retry_count a < retries"

definition settled_action :: "'j TrackedAction \<Rightarrow> bool" where
  "settled_action a \<longleftrightarrow>
     (case ta_result a of
        None \<Rightarrow> False
      | Some r \<Rightarrow> ta_status a = (if ar_success r then ActCompleted else ActFailed))"

definition tracker_wf :: "'j ActionTracker \<Rightarrow> bool" where
  "tracker_wf tr \<longleftrightarrow> keyed ta_id (tr_actions tr)
     \<and> (\<forall>i a. hm_get (tr_actions tr) i = Some a \<longrightarrow> live_action (tr_max_retries tr) a)
     \<and> (\<forall>a \<in> set (tr_action_history tr). settled_action a)
     \<and> length (tr_action_history tr) \<le> tr_max_history tr
     \<and> 0 < tr_max_retries tr"

lemma settled_simps [simp]:
  "settled_action (a\<lparr>ta_status := ActCompleted, ta_result := Some r\<rparr>) \<longleftrightarrow> ar_success r"
  "settled_action (a\<lparr>ta_status := ActFailed, ta_result := Some r\<rparr>) \<longleftrightarrow> \<not> ar_success r"
  by (simp_all add: settled_action_def)

lemma tracker_wf_new [simp]: "tracker_wf tracker_new"
  by (simp add: tracker_wf_def tracker_new_def)

lemma tracker_wf_keyed [simp]: "tracker_wf tr \<Longrightarrow> keyed ta_id (tr_actions tr)"
  by (simp add: tracker_wf_def)

lemma tracker_wf_ok: "tracker_wf tr \<Longrightarrow> hm_ok (tr_actions tr)"
  by (rule keyed_hm_ok [OF tracker_wf_keyed])

lemma tracker_wf_live:
  "tracker_wf tr \<Longrightarrow> hm_get (tr_actions tr) i = Some a \<Longrightarrow> live_action (tr_max_retries tr) a \<and> ta_id a = i"
  by (auto simp: tracker_wf_def dest: keyed_key)

lemma tracker_wf_put:
  assumes "tracker_wf tr" "live_action (tr_max_retries tr) a" "ta_id a = i"
  shows "tracker_wf (tr\<lparr>tr_actions := hm_insert i a (tr_actions tr)\<rparr>)"
  using assms by (auto simp: tracker_wf_def intro: keyed_insert)

lemma tracker_wf_settle:
  assumes "tracker_wf tr" "settled_action a"
  shows "tracker_wf (add_to_history a (tr\<lparr>tr_actions := hm_remove i (tr_actions tr)\<rparr>))"
proof -
  have "\<forall>b \<in> set (trim_history (tr_max_history tr) (tr_action_history tr @ [a])). settled_action b"
    using assms set_trim_history [of "tr_max_history tr" "tr_action_history tr @ [a]"]
    by (auto simp: tracker_wf_def)
  moreover have "keyed ta_id (hm_remove i (tr_actions tr))"
    using assms(1) by (simp add: keyed_remove)
  ultimately show ?thesis using assms(1) by (simp add: tracker_wf_def)
qed

lemma tracker_wf_expire: "tracker_wf tr \<Longrightarrow> tracker_wf (expire_action now i tr)"
  by (simp add: expire_action_def tracker_wf_settle split: option.split)

lemma tracker_wf_mark_executing:
  assumes "tracker_wf tr"
  shows "tracker_wf (mark_executing i tr)"
proof (cases "hm_get (tr_actions tr) i")
  case None
  then show ?thesis using assms by (simp add: mark_executing_def hm_modify_def)
next
  case (Some a)
  with tracker_wf_live [OF assms Some] show ?thesis
    using tracker_wf_put [OF assms, of "a\<lparr>ta_status := ActExecuting\<rparr>" i]
    by (simp add: mark_executing_def hm_modify_def live_action_def)
qed

lemma tracker_wf_mark_failed:
  assumes "tracker_wf tr"
  shows "tracker_wf (snd (mark_failed i m now tr))"
proof (cases "hm_get (tr_actions tr) i")
  case None
  then show ?thesis using assms by (simp add: mark_failed_def)
next
  case (Some a)
  with tracker_wf_live [OF assms Some] show ?thesis
    using assms tracker_wf_settle [OF assms, of _ i]
    by (auto simp: mark_failed_def Let_def live_action_def intro!: tracker_wf_put)
qed

lemma tracker_wf_step: "tracker_wf tr \<Longrightarrow> tracker_wf (tracker_step fmt op tr)"
proof (cases op)
  case (Track i now a)
  moreover assume wf: "tracker_wf tr"
  moreover from wf have "0 < tr_max_retries tr" by (simp add: tracker_wf_def)
  ultimately show ?thesis
    by (auto simp: track_action_def Let_def live_action_def intro!: tracker_wf_put)
next
  case (Complete i m now)
  moreover assume "tracker_wf tr"
  ultimately show ?thesis
    by (simp add: mark_completed_def tracker_wf_settle split: option.split)
next
  case (Cleanup now)
  have "tracker_wf t \<Longrightarrow> tracker_wf (fold (expire_action now) ids t)" for ids and t :: "'a ActionTracker"
    by (induction ids arbitrary: t) (simp_all add: tracker_wf_expire)
  moreover assume "tracker_wf tr"
  ultimately show ?thesis using Cleanup by (simp add: cleanup_stale_def Let_def)
next
  case (Progress t0 t1 t2 g c n)
  moreover assume "tracker_wf tr"
  ultimately show ?thesis by (simp add: update_goal_progress_def tracker_wf_def)
qed (simp_all add: tracker_wf_mark_executing tracker_wf_mark_failed)

lemma tracker_wf_run: "tracker_wf tr \<Longrightarrow> tracker_wf (tracker_run fmt ops tr)"
  by (induction ops arbitrary: tr) (simp_all add: tracker_wf_step)

section \<open>Timeouts\<close>

definition timed_out :: "timestamp \<Rightarrow> 'j TrackedAction \<Rightarrow> 'j TrackedAction" where
  "timed_out now a = a\<lparr>ta_status := ActFailed,
     ta_result := Some \<lparr>ar_success = False, ar_message = Some ''Timeout'', ar_completed_at = now\<rparr>\<rparr>"

lemma expire_action_present:
  "hm_get (tr_actions tr) i = Some a \<Longrightarrow>
   expire_action now i tr =
     add_to_history (timed_out now a) (tr\<lparr>tr_actions := hm_remove i (tr_actions tr)\<rparr>)"
  by (simp add: expire_action_def timed_out_def)

lemma expire_action_get [simp]:
  "hm_get (tr_actions (expire_action now i tr)) j = (if j = i then None else hm_get (tr_actions tr) j)"
  by (simp add: expire_action_def split: option.split)

lemma fold_expire_get [simp]:
  "hm_get (tr_actions (fold (expire_action now) ids tr)) j =
     (if j \<in> set ids then None else hm_get (tr_actions tr) j)"
  by (induction ids arbitrary: tr) simp_all

lemma fold_expire_history:
  assumes "distinct (map fst es)" and "\<forall>(i, a) \<in> set es. hm_get (tr_actions tr) i = Some a"
    and "length (tr_action_history tr) \<le> tr_max_history tr"
  shows "tr_action_history (fold (expire_action now) (map fst es) tr) =
    trim_history (tr_max_history tr) (tr_action_history tr @ map (\<lambda>e. timed_out now (snd e)) es)"
  using assms
proof (induction es arbitrary: tr)
  case (Cons e es)
  obtain i a where e: "e = (i, a)" by fastforce
  let ?t = "expire_action now i tr"
  have i: "hm_get (tr_actions tr) i = Some a" using Cons.prems(2) e by simp
  then have h: "tr_action_history ?t =
      trim_history (tr_max_history tr) (tr_action_history tr @ [timed_out now a])"
    by (simp add: expire_action_present)
  have "\<forall>(j, b) \<in> set es. hm_get (tr_actions ?t) j = Some b"
    using Cons.prems(1,2) e by force
  then have "tr_action_history (fold (expire_action now) (map fst es) ?t) =
      trim_history (tr_max_history tr) (tr_action_history ?t @ map (\<lambda>e. timed_out now (snd e)) es)"
    using Cons.IH [of ?t] Cons.prems(1) by (simp add: h)
  then show ?case by (simp add: e h trim_history_trim)
qed simp

lemma cleanup_stale_get:
  assumes "tracker_wf tr"
  shows "hm_get (tr_actions (cleanup_stale now tr)) i =
    (case hm_get (tr_actions tr) i of
       Some a \<Rightarrow> if is_stale now (tr_action_timeout tr) a then None else Some a
     | None \<Rightarrow> None)"
proof -
  note ok = tracker_wf_ok [OF assms]
  have "i \<in> set (map fst (filter (\<lambda>(_, a). is_stale now (tr_action_timeout tr) a) (tr_actions tr)))
      \<longleftrightarrow> (\<exists>a. (i, a) \<in> set (tr_actions tr) \<and> is_stale now (tr_action_timeout tr) a)"
    by force
  then show ?thesis
    by (auto simp: cleanup_stale_def Let_def hm.items_get [OF ok] split: option.split)
qed

lemma cleanup_stale_history:
  assumes "tracker_wf tr"
  shows "tr_action_history (cleanup_stale now tr) =
    trim_history (tr_max_history tr)
      (tr_action_history tr @
       map (timed_out now) (filter (is_stale now (tr_action_timeout tr)) (hm_values (tr_actions tr))))"
proof -
  let ?es = "filter (\<lambda>(_, a). is_stale now (tr_action_timeout tr) a) (tr_actions tr)"
  note ok = tracker_wf_ok [OF assms]
  have "distinct (map fst ?es)" using hm.items_distinct [OF ok] by (rule distinct_map_filter)
  moreover have "\<forall>(i, a) \<in> set ?es. hm_get (tr_actions tr) i = Some a"
    using hm.items_get [OF ok] by auto
  moreover have "length (tr_action_history tr) \<le> tr_max_history tr"
    using assms by (simp add: tracker_wf_def)
  moreover have "map (\<lambda>e. timed_out now (snd e)) ?es =
      map (timed_out now) (filter (is_stale now (tr_action_timeout tr)) (hm_values (tr_actions tr)))"
    by (simp add: hm_values_def filter_map comp_def case_prod_beta')
  ultimately show ?thesis
    using fold_expire_history [of ?es tr now] by (simp add: cleanup_stale_def Let_def)
qed

section \<open>Retries\<close>

definition fails_of :: "string \<Rightarrow> 'j tracker_op list \<Rightarrow> nat" where
  "fails_of i ops = length (filter (\<lambda>op. case op of Fail j _ _ \<Rightarrow> j = i | _ \<Rightarrow> False) ops)"

text \<open>Operations that leave the fate of action \<open>i\<close> to its failures.\<close>

fun only_fails :: "string \<Rightarrow> 'j tracker_op \<Rightarrow> bool" where
  "only_fails i (Track j _ _) \<longleftrightarrow> j \<noteq> i"
| "only_fails i (Complete j _ _) \<longleftrightarrow> j \<noteq> i"
| "only_fails i (Cleanup _) \<longleftrightarrow> False"
| "only_fails i _ \<longleftrightarrow> True"

lemma step_other_absent:
  assumes "only_fails i op" "hm_get (tr_actions tr) i = None"
  shows "hm_get (tr_actions (tracker_step fmt op tr)) i = None"
  using assms
  by (cases op) (auto simp: track_action_def mark_executing_def mark_completed_def mark_failed_def
      update_goal_progress_def Let_def split: option.splits)

lemma run_other_absent:
  "list_all (only_fails i) ops \<Longrightarrow> hm_get (tr_actions tr) i = None \<Longrightarrow>
   hm_get (tr_actions (tracker_run fmt ops tr)) i = None"
  by (induction ops arbitrary: tr) (simp_all add: step_other_absent)

lemma retry_succ:
  fixes r m :: u32
  assumes "r < m"
  shows "unat (r + 1) = Suc (unat r)"
proof -
  have "unat r < unat m" using assms by (simp add: word_less_nat_alt)
  with unat_bound [of m] have "Suc (unat r) < 2 ^ 32" by simp
  then show ?thesis by (simp add: unat_word_ariths)
qed

lemma step_own_entry:
  assumes wf: "tracker_wf tr" and "only_fails i op" and a: "hm_get (tr_actions tr) i = Some a"
  shows "let k = unat (ta_retry_count a) + fails_of i [op] in
    if k < unat (tr_max_retries tr)
    then \<exists>b. hm_get (tr_actions (tracker_step fmt op tr)) i = Some b \<and> unat (ta_retry_count b) = k
    else hm_get (tr_actions (tracker_step fmt op tr)) i = None"
proof -
  have live: "ta_retry_count a < tr_max_retries tr"
    using tracker_wf_live [OF wf a] by (simp add: live_action_def)
  note succ = retry_succ [OF live]
  have less: "unat (ta_retry_count a) < unat (tr_max_retries tr)"
    using live by (simp add: word_less_nat_alt)
  have ge: "tr_max_retries tr \<le> ta_retry_count a + 1 \<longleftrightarrow>
      \<not> Suc (unat (ta_retry_count a)) < unat (tr_max_retries tr)"
    by (simp add: word_le_nat_alt succ not_less)
  show ?thesis
  proof (cases op)
    case (Fail j m now)
    then show ?thesis
      using a less ge succ
      by (cases "j = i") (auto simp: fails_of_def mark_failed_def Let_def split: option.split)
  qed (use assms(2) a less in \<open>auto simp: fails_of_def track_action_def mark_executing_def
      mark_completed_def update_goal_progress_def Let_def split: option.split\<close>)
qed

lemma fails_of_Cons: "fails_of i (op # ops) = fails_of i [op] + fails_of i ops"
  by (simp add: fails_of_def)

lemma run_own_entry:
  assumes "tracker_wf tr" "list_all (only_fails i) ops" "hm_get (tr_actions tr) i = Some a"
  shows "hm_get (tr_actions (tracker_run fmt ops tr)) i \<noteq> None \<longleftrightarrow>
    unat (ta_retry_count a) + fails_of i ops < unat (tr_max_retries tr)"
  using assms
proof (induction ops arbitrary: tr a)
  case Nil
  then show ?case
    using tracker_wf_live [of tr i a] by (simp add: fails_of_def live_action_def word_less_nat_alt)
next
  case (Cons op ops)
  let ?t = "tracker_step fmt op tr"
  have ops: "only_fails i op" "list_all (only_fails i) ops" using Cons.prems(2) by simp_all
  note step = step_own_entry [OF Cons.prems(1) ops(1) Cons.prems(3), of fmt]
  show ?case
  proof (cases "unat (ta_retry_count a) + fails_of i [op] < unat (tr_max_retries tr)")
    case True
    with step obtain b where b: "hm_get (tr_actions ?t) i = Some b"
      "unat (ta_retry_count b) = unat (ta_retry_count a) + fails_of i [op]" by (auto simp: Let_def)
    from Cons.IH [OF tracker_wf_step [OF Cons.prems(1)] ops(2) b(1)] show ?thesis
      by (simp add: b(2) fails_of_Cons [of i op ops] add.assoc)
  next
    case False
    with step have "hm_get (tr_actions ?t) i = None" by (auto simp: Let_def)
    from run_other_absent [OF ops(2) this, of fmt] False show ?thesis
      by (simp add: fails_of_Cons [of i op ops])
  qed
qed

section \<open>Progress counters\<close>

definition outcomes :: "string \<Rightarrow> (bool \<Rightarrow> bool) \<Rightarrow> 'j tracker_op list \<Rightarrow> nat" where
  "outcomes g P ops =
     length (filter (\<lambda>op. case op of Progress _ _ _ g' c _ \<Rightarrow> g' = g \<and> P c | _ \<Rightarrow> False) ops)"

lemma outcomes_snoc:
  "outcomes g P (ops @ [op]) = outcomes g P ops +
     (case op of Progress _ _ _ g' c _ \<Rightarrow> if g' = g \<and> P c then 1 else 0 | _ \<Rightarrow> 0)"
  by (simp add: outcomes_def split: tracker_op.split)

lemma outcomes_le: "outcomes g P ops \<le> length ops"
  by (simp add: outcomes_def)

lemma outcomes_split:
  "outcomes g (\<lambda>_. True) ops = outcomes g (\<lambda>c. c) ops + outcomes g Not ops"
  by (induction ops) (auto simp: outcomes_def split: tracker_op.split)

definition progress_entry_ok :: "'j tracker_op list \<Rightarrow> string \<Rightarrow> GoalProgress \<Rightarrow> bool" where
  "progress_entry_ok ops g e \<longleftrightarrow>
     gp_goal_id e = g
     \<and> unat (gp_actions_proposed e) = outcomes g (\<lambda>_. True) ops
     \<and> unat (gp_actions_completed e) = outcomes g (\<lambda>c. c) ops
     \<and> unat (gp_actions_failed e) = outcomes g Not ops
     \<and> 0 < outcomes g (\<lambda>_. True) ops
     \<and> gp_estimated_progress e = percent_u8 (gp_actions_completed e) (gp_actions_proposed e)
     \<and> length (gp_notes e) \<le> 50"

lemma unat_u32_succ: "unat w = n \<Longrightarrow> Suc n < 2 ^ 32 \<Longrightarrow> unat (w + 1 :: u32) = Suc n"
  by (simp add: unat_word_ariths)

lemma push_note_bound: "length ns \<le> 50 \<Longrightarrow> length (push_note n ns) \<le> 50"
  by (simp add: push_note_def Let_def)

lemma record_outcome_simps:
  "gp_goal_id (record_outcome fmt t t' c n e) = gp_goal_id e"
  "gp_actions_proposed (record_outcome fmt t t' c n e) = gp_actions_proposed e + 1"
  "gp_actions_completed (record_outcome fmt t t' c n e) =
     (if c then gp_actions_completed e + 1 else gp_actions_completed e)"
  "gp_actions_failed (record_outcome fmt t t' c n e) =
     (if c then gp_actions_failed e else gp_actions_failed e + 1)"
  "gp_estimated_progress (record_outcome fmt t t' c n e) =
     percent_u8 (if c then gp_actions_completed e + 1 else gp_actions_completed e)
       (max (gp_actions_proposed e + 1) 1)"
  "length (gp_notes e) \<le> 50 \<Longrightarrow> length (gp_notes (record_outcome fmt t t' c n e)) \<le> 50"
  by (auto simp: record_outcome_def Let_def push_note_bound split: option.split)

lemma tracker_step_progress:
  "tr_goal_progress (tracker_step fmt op tr) =
     (case op of
        Progress t0 t1 t2 g c n \<Rightarrow> tr_goal_progress (update_goal_progress fmt t0 t1 t2 g c n tr)
      | _ \<Rightarrow> tr_goal_progress tr)"
  by (cases op) (simp_all add: track_action_def mark_executing_def mark_completed_def
      mark_failed_def cleanup_stale_def Let_def split: option.split)

lemma record_outcome_ok:
  assumes "progress_entry_ok ops g e \<or> e = goal_progress_new g t0 \<and> outcomes g (\<lambda>_. True) ops = 0"
    and "Suc (length ops) < 2 ^ 32"
  shows "progress_entry_ok (ops @ [Progress t0 t1 t2 g c n]) g (record_outcome fmt t1 t2 c n e)"
proof -
  have counts: "unat (gp_actions_proposed e) = outcomes g (\<lambda>_. True) ops"
    "unat (gp_actions_completed e) = outcomes g (\<lambda>c. c) ops"
    "unat (gp_actions_failed e) = outcomes g Not ops" "gp_goal_id e = g" "length (gp_notes e) \<le> 50"
    using assms(1) outcomes_split [of g ops]
    by (auto simp: progress_entry_ok_def goal_progress_new_def)
  have bound: "Suc (outcomes g P ops) < 2 ^ 32" for P
    using outcomes_le [of g P ops] assms(2) by simp
  note succ = unat_u32_succ [OF counts(1) bound] unat_u32_succ [OF counts(2) bound]
    unat_u32_succ [OF counts(3) bound]
  have "max (gp_actions_proposed e + 1) 1 = gp_actions_proposed e + 1"
    by (intro max.absorb1) (simp only: word_le_nat_alt succ(1), simp)
  then show ?thesis
    using succ counts by (simp add: progress_entry_ok_def record_outcome_simps outcomes_snoc)
qed

lemma outcomes_other:
  "(case op of Progress _ _ _ g' _ _ \<Rightarrow> g' \<noteq> g | _ \<Rightarrow> True) \<Longrightarrow> outcomes g P (ops @ [op]) = outcomes g P ops"
  by (simp add: outcomes_snoc split: tracker_op.splits)

lemma progress_inv:
  assumes "length ops < 2 ^ 32"
  shows "case hm_get (tr_goal_progress (tracker_run fmt ops tracker_new)) g of
      None \<Rightarrow> outcomes g (\<lambda>_. True) ops = 0
    | Some e \<Rightarrow> progress_entry_ok ops g e"
  using assms
proof (induction ops arbitrary: g rule: rev_induct)
  case Nil
  then show ?case by (simp add: tracker_new_def outcomes_def)
next
  case (snoc op ops)
  let ?tr = "tracker_run fmt ops tracker_new"
  have IH: "case hm_get (tr_goal_progress ?tr) h of
      None \<Rightarrow> outcomes h (\<lambda>_. True) ops = 0 | Some e \<Rightarrow> progress_entry_ok ops h e" for h
    using snoc by simp
  have run: "tracker_run fmt (ops @ [op]) tracker_new = tracker_step fmt op ?tr"
    by (simp add: tracker_run_append)
  have other: ?case if "case op of Progress _ _ _ g' _ _ \<Rightarrow> g' \<noteq> g | _ \<Rightarrow> True"
  proof -
    have "hm_get (tr_goal_progress (tracker_step fmt op ?tr)) g = hm_get (tr_goal_progress ?tr) g"
      using that unfolding tracker_step_progress
      by (cases op) (simp_all add: update_goal_progress_def Let_def)
    then show ?thesis
      using IH [of g] outcomes_other [OF that]
      by (simp add: run progress_entry_ok_def split: option.splits)
  qed
  show ?case
  proof (cases op)
    case (Progress t0 t1 t2 g' c n)
    show ?thesis
    proof (cases "g' = g")
      case True
      define e where "e = (case hm_get (tr_goal_progress ?tr) g of
        None \<Rightarrow> goal_progress_new g t0 | Some e \<Rightarrow> e)"
      have "progress_entry_ok ops g e \<or> e = goal_progress_new g t0 \<and> outcomes g (\<lambda>_. True) ops = 0"
        using IH [of g] by (auto simp: e_def split: option.splits)
      then have "progress_entry_ok (ops @ [op]) g (record_outcome fmt t1 t2 c n e)"
        using record_outcome_ok snoc.prems Progress True by simp
      then show ?thesis
        unfolding run using Progress True by (simp add: update_goal_progress_def e_def Let_def)
    qed (use other Progress in simp)
  qed (use other in simp_all)
qed

section \<open>Every action is accounted for\<close>

definition track_ids :: "'j tracker_op list \<Rightarrow> string list" where
  "track_ids ops = concat (map (\<lambda>op. case op of Track i _ _ \<Rightarrow> [i] | _ \<Rightarrow> []) ops)"

text \<open>The identifiers the tracker knows: of its live actions and of its history.\<close>

definition known_ids :: "'j ActionTracker \<Rightarrow> string multiset" where
  "known_ids tr = mset (map fst (tr_actions tr)) + mset (map ta_id (tr_action_history tr))"

lemma hm_get_mem: "hm_get m k = Some v \<Longrightarrow> k \<in> fst ` set m"
  unfolding hm_get_def by (drule map_of_SomeD) (rule image_eqI [of _ _ "(k, v)"], simp_all)

lemma hm_insert_keys:
  "image_mset fst (mset (hm_insert k v m)) =
     (if k \<in> fst ` set m then image_mset fst (mset m) else add_mset k (image_mset fst (mset m)))"
  by (simp add: hm_insert_def update_keys flip: mset_map)

lemma hm_remove_keys:
  assumes "hm_ok m" "hm_get m k = Some v"
  shows "image_mset fst (mset m) = add_mset k (image_mset fst (mset (hm_remove k m)))"
proof -
  have d: "distinct (map fst m)" using assms(1) by (simp add: hm_ok_def)
  have k: "k \<in> set (map fst m)" using hm_get_mem [OF assms(2)] by simp
  have "map fst (hm_remove k m) = removeAll k (map fst m)" by (simp add: hm_remove_def delete_keys)
  also have "\<dots> = remove1 k (map fst m)" using d by (simp add: distinct_remove1_removeAll)
  finally have "mset (map fst (hm_remove k m)) = mset (map fst m) - {#k#}" by simp
  then show ?thesis using k by simp
qed

lemma hm_modify_keys: "image_mset fst (mset (hm_modify k f m)) = image_mset fst (mset m)"
proof (cases "hm_get m k")
  case (Some v)
  then show ?thesis using hm_get_mem [OF Some] by (simp add: hm_modify_def hm_insert_keys)
qed (simp add: hm_modify_def)

lemma settle_conserves:
  assumes "tracker_wf tr" "hm_get (tr_actions tr) i = Some a" "ta_id b = i"
    and "size (known_ids tr) \<le> tr_max_history tr"
  shows "known_ids (add_to_history b (tr\<lparr>tr_actions := hm_remove i (tr_actions tr)\<rparr>)) = known_ids tr"
proof -
  note keys = hm_remove_keys [OF tracker_wf_ok [OF assms(1)] assms(2)]
  have "tr_actions tr \<noteq> []" using assms(2) by auto
  then have "length (tr_action_history tr) < tr_max_history tr"
    using assms(4) by (cases "tr_actions tr") (simp_all add: known_ids_def)
  then show ?thesis using keys assms(3) by (simp add: known_ids_def)
qed

lemma fold_expire_conserves:
  assumes "tracker_wf tr" "size (known_ids tr) \<le> tr_max_history tr"
  shows "known_ids (fold (expire_action now) ids tr) = known_ids tr"
  using assms
proof (induction ids arbitrary: tr)
  case (Cons i ids)
  have "known_ids (expire_action now i tr) = known_ids tr"
  proof (cases "hm_get (tr_actions tr) i")
    case None
    then show ?thesis by (simp add: expire_action_def)
  next
    case (Some a)
    then show ?thesis
      using settle_conserves [OF Cons.prems(1) Some _ Cons.prems(2)] tracker_wf_live [OF Cons.prems(1) Some]
      by (simp add: expire_action_present timed_out_def)
  qed
  then show ?case using Cons.IH [of "expire_action now i tr"] Cons.prems
    by (simp add: tracker_wf_expire)
qed simp

lemma step_conserves:
  assumes wf: "tracker_wf tr" and sz: "size (known_ids tr) \<le> tr_max_history tr"
    and fresh: "\<And>i now a. op = Track i now a \<Longrightarrow> i \<notin># known_ids tr"
  shows "known_ids (tracker_step fmt op tr) = known_ids tr + mset (track_ids [op])"
proof (cases op)
  case (Track i now a)
  with fresh have "i \<notin> fst ` set (tr_actions tr)" by (auto simp: known_ids_def)
  then show ?thesis
    using Track by (simp add: track_action_def Let_def known_ids_def hm_insert_keys track_ids_def)
next
  case (Start i)
  then show ?thesis by (simp add: mark_executing_def known_ids_def hm_modify_keys track_ids_def)
next
  case (Complete i m now)
  show ?thesis
  proof (cases "hm_get (tr_actions tr) i")
    case (Some a)
    then show ?thesis
      using settle_conserves [OF wf Some _ sz] tracker_wf_live [OF wf Some] Complete
      by (simp add: mark_completed_def track_ids_def)
  qed (simp add: Complete mark_completed_def track_ids_def)
next
  case (Fail i m now)
  show ?thesis
  proof (cases "hm_get (tr_actions tr) i")
    case (Some a)
    then have "known_ids (tr\<lparr>tr_actions := hm_insert i b (tr_actions tr)\<rparr>) = known_ids tr" for b
      by (simp add: known_ids_def hm_insert_keys hm_get_mem)
    then show ?thesis
      using settle_conserves [OF wf Some _ sz] tracker_wf_live [OF wf Some] Fail Some
      by (simp add: mark_failed_def track_ids_def Let_def)
  qed (simp add: Fail mark_failed_def track_ids_def)
next
  case (Cleanup now)
  then show ?thesis
    using fold_expire_conserves [OF wf sz] by (simp add: cleanup_stale_def Let_def track_ids_def)
next
  case (Progress t0 t1 t2 g c n)
  then show ?thesis by (simp add: update_goal_progress_def known_ids_def track_ids_def)
qed

lemma track_ids_append: "track_ids (xs @ ys) = track_ids xs @ track_ids ys"
  by (simp add: track_ids_def)

lemma run_conserves:
  assumes "distinct (track_ids ops)" "length (track_ids ops) \<le> 1000"
  shows "known_ids (tracker_run fmt ops tracker_new) = mset (track_ids ops)"
  using assms
proof (induction ops rule: rev_induct)
  case Nil
  then show ?case by (simp add: known_ids_def tracker_new_def track_ids_def)
next
  case (snoc op ops)
  let ?tr = "tracker_run fmt ops tracker_new"
  have IH: "known_ids ?tr = mset (track_ids ops)" using snoc by (simp add: track_ids_append)
  have max: "tr_max_history ?tr = 1000" by (simp add: tracker_new_def)
  have "known_ids (tracker_step fmt op ?tr) = known_ids ?tr + mset (track_ids [op])"
  proof (rule step_conserves)
    show "tracker_wf ?tr" by (simp add: tracker_wf_run)
    show "size (known_ids ?tr) \<le> tr_max_history ?tr"
      unfolding IH max using snoc.prems(2) by (simp add: track_ids_append)
    show "i \<notin># known_ids ?tr" if "op = Track i now a" for i now a
      using snoc.prems(1) that by (simp add: IH track_ids_append track_ids_def)
  qed
  then show ?case by (simp add: tracker_run_append IH track_ids_append)
qed

section \<open>Similar actions\<close>

lemma is_similar_sym: "is_similar_action a b \<longleftrightarrow> is_similar_action b a"
  by (cases a; cases b) auto

lemma is_similar_trans: "is_similar_action a b \<Longrightarrow> is_similar_action b c \<Longrightarrow> is_similar_action a c"
  by (cases a; cases b; cases c) auto

fun deduplicated :: "'j BrainAction \<Rightarrow> bool" where
  "deduplicated (ScheduleTask _ _ _) = True"
| "deduplicated (RebalanceTask _ _) = True"
| "deduplicated (CancelTask _) = True"
| "deduplicated (MarkNodeDegraded _ _) = True"
| "deduplicated _ = False"

lemma is_similar_refl: "is_similar_action a a \<longleftrightarrow> deduplicated a"
  by (cases a) simp_all

lemma has_similar_pending_iff:
  "tracker_wf tr \<Longrightarrow> has_similar_pending b tr \<longleftrightarrow>
     (\<exists>i a. hm_get (tr_actions tr) i = Some a \<and> is_similar_action (ta_action a) b)"
  by (simp add: has_similar_pending_def list_ex_iff Bex_def hm_values_get [OF tracker_wf_ok]) blast

section \<open>Statistics\<close>

lemma length_filter_partition:
  assumes "\<And>x. x \<in> set xs \<Longrightarrow> P x \<noteq> Q x"
  shows "length (filter P xs) + length (filter Q xs) = length xs"
  using assms by (induction xs) force+

lemma stats_totals:
  assumes "tracker_wf tr"
  shows "st_pending (get_stats tr) + st_executing (get_stats tr) = length (tr_actions tr)"
    and "st_completed (get_stats tr) + st_failed (get_stats tr) = st_history_size (get_stats tr)"
proof -
  have "ta_status a = ActProposed \<or> ta_status a = ActExecuting" if "a \<in> set (hm_values (tr_actions tr))" for a
    using that assms tracker_wf_live [OF assms]
    by (auto simp: hm_values_get [OF tracker_wf_ok [OF assms]] live_action_def)
  then have "length (filter (\<lambda>a. ta_status a = ActProposed) (hm_values (tr_actions tr)))
      + length (filter (\<lambda>a. ta_status a = ActExecuting) (hm_values (tr_actions tr)))
      = length (hm_values (tr_actions tr))"
    by (intro length_filter_partition) auto
  then show "st_pending (get_stats tr) + st_executing (get_stats tr) = length (tr_actions tr)"
    by (simp add: get_stats_def hm_values_def)
  have "(ta_status a = ActCompleted) \<noteq> (ta_status a = ActFailed)" if "a \<in> set (tr_action_history tr)" for a
  proof -
    have "settled_action a" using that assms by (simp add: tracker_wf_def)
    then show ?thesis by (cases "ta_result a") (simp_all add: settled_action_def)
  qed
  then show "st_completed (get_stats tr) + st_failed (get_stats tr) = st_history_size (get_stats tr)"
    using length_filter_partition [of "tr_action_history tr" "\<lambda>a. ta_status a = ActCompleted"
        "\<lambda>a. ta_status a = ActFailed"]
    by (simp add: get_stats_def)
qed

text \<open>The failures reported of an action since it was last tracked, read off the operations.\<close>

fun tracks :: "string \<Rightarrow> 'j tracker_op \<Rightarrow> bool" where
  "tracks i (Track j now a) \<longleftrightarrow> j = i"
| "tracks i _ \<longleftrightarrow> False"

fun fails :: "string \<Rightarrow> 'j tracker_op \<Rightarrow> bool" where
  "fails i (Fail j m now) \<longleftrightarrow> j = i"
| "fails i _ \<longleftrightarrow> False"

definition failures_since_tracked :: "string \<Rightarrow> 'j tracker_op list \<Rightarrow> nat" where
  "failures_since_tracked i ops = length (filter (fails i) (takeWhile (\<lambda>op. \<not> tracks i op) (rev ops)))"

lemma failures_since_tracked_simps [simp]:
  "failures_since_tracked i [] = 0"
  "failures_since_tracked i (ops @ [op]) =
     (if tracks i op then 0 else (if fails i op then 1 else 0) + failures_since_tracked i ops)"
  by (simp_all add: failures_since_tracked_def)

lemma live_count:
  assumes "hm_get (tr_actions (tracker_run fmt ops tracker_new)) i = Some x"
  shows "unat (ta_retry_count x) = failures_since_tracked i ops \<and> failures_since_tracked i ops < 3"
  using assms
proof (induction ops arbitrary: x rule: rev_induct)
  case Nil
  then show ?case by (simp add: tracker_new_def hm_get_def)
next
  case (snoc op ops)
  let ?tr = "tracker_run fmt ops tracker_new"
  have wf: "tracker_wf ?tr" by (simp add: tracker_wf_run)
  have run: "hm_get (tr_actions (tracker_step fmt op ?tr)) i = Some x" using snoc.prems by (simp add: tracker_run_append)
  have max: "tr_max_retries tracker_new = 3" by (simp add: tracker_new_def)
  show ?case
  proof (cases op)
    case (Fail j m now)
    show ?thesis
    proof (cases "j = i")
      case True
      from run Fail True obtain y where y: "hm_get (tr_actions ?tr) i = Some y" "\<not> 3 \<le> ta_retry_count y + 1"
        "ta_retry_count x = ta_retry_count y + 1"
        by (auto simp: mark_failed_def Let_def max split: option.splits if_splits)
      from snoc.IH [OF y(1)] have "unat (ta_retry_count y) < 3" by simp
      then have "unat (ta_retry_count y + 1) = Suc (unat (ta_retry_count y))" by (simp add: unat_word_ariths)
      moreover from y(2) have "unat (ta_retry_count y + 1) < 3" by unat_arith
      ultimately show ?thesis using snoc.IH [OF y(1)] y(3) Fail True by simp
    next
      case False
      with run Fail have "hm_get (tr_actions ?tr) i = Some x"
        by (auto simp: mark_failed_def Let_def split: option.splits if_splits)
      from snoc.IH [OF this] Fail False show ?thesis by simp
    qed
  next
    case (Track j now a)
    with run snoc.IH show ?thesis by (auto simp: track_action_def Let_def split: if_splits)
  next
    case (Start j)
    with run snoc.IH show ?thesis by (auto simp: mark_executing_def split: if_splits)
  next
    case (Complete j m now)
    with run snoc.IH show ?thesis by (auto simp: mark_completed_def split: option.splits if_splits)
  next
    case (Cleanup now)
    with run snoc.IH wf show ?thesis by (auto simp: cleanup_stale_get split: option.splits if_splits)
  next
    case (Progress t0 t1 t2 g c n)
    with run snoc.IH show ?thesis by (simp add: update_goal_progress_def Let_def)
  qed
qed

section \<open>Properties\<close>

text \<open>C26. Whatever operations are applied to a new tracker, in any order and with any arguments:
  its table holds each action under its own identifier, only actions that are proposed or
  executing, without a result and with retries to spare; its history holds only settled actions
  whose status matches their result, and never more than 1000 of them; and the retry count of an
  action in the table is the number of failures reported of it since it was tracked, which is at
  most two: the third takes it out.\<close>

theorem tracker_invariant:
  "tracker_wf (tracker_run fmt ops tracker_new)
   \<and> length (tr_action_history (tracker_run fmt ops tracker_new)) \<le> 1000
   \<and> (\<forall>i x. hm_get (tr_actions (tracker_run fmt ops tracker_new)) i = Some x \<longrightarrow>
        unat (ta_retry_count x) = failures_since_tracked i ops \<and> failures_since_tracked i ops < 3)"
proof -
  have wf: "tracker_wf (tracker_run fmt ops tracker_new)" by (simp add: tracker_wf_run)
  have "tr_max_history (tracker_run fmt ops tracker_new) = 1000" by (simp add: tracker_new_def)
  with wf have "length (tr_action_history (tracker_run fmt ops tracker_new)) \<le> 1000" unfolding tracker_wf_def by metis
  with wf live_count show ?thesis by blast
qed

theorem tracker_invariant_witness:
  "\<exists>x. hm_get (tr_actions (tracker_run (\<lambda>_. []) [Track ''a'' 0 (NoOp ''x'' :: unit BrainAction), Fail ''a'' None 1, Fail ''a'' None 2]
      tracker_new)) ''a'' = Some x \<and> unat (ta_retry_count x) = 2"
proof -
  let ?ops = "[Track ''a'' 0 (NoOp ''x'' :: unit BrainAction), Fail ''a'' None 1, Fail ''a'' None 2]"
  have retries: "tr_max_retries (tracker_new :: unit ActionTracker) = 3" by (simp add: tracker_new_def)
  obtain x where x: "hm_get (tr_actions (tracker_run (\<lambda>_. []) ?ops tracker_new)) ''a'' = Some x"
    by (simp add: track_action_def mark_failed_def Let_def retries word_le_nat_alt)
  have "failures_since_tracked ''a'' ?ops = 2" by (simp add: failures_since_tracked_def)
  with tracker_invariant [of "\<lambda>_. []" ?ops] x show ?thesis by auto
qed

text \<open>The loop that trims the history terminates and drops exactly the oldest surplus entries.\<close>

theorem trim_keeps_newest: "trim_history n xs = drop (length xs - n) xs"
  by (rule trim_history_drop)

text \<open>C27. No action is lost or duplicated: if the drawn identifiers are distinct and at most 1000
  actions were tracked, then after any operations each identifier is in the table or in the
  history, exactly once, and no other identifier is.\<close>

theorem no_action_lost:
  assumes "distinct (track_ids ops)" and "length (track_ids ops) \<le> 1000"
  shows "known_ids (tracker_run fmt ops tracker_new) = mset (track_ids ops)"
  using assms by (rule run_conserves)

theorem no_action_lost_witness:
  "known_ids (tracker_run (\<lambda>_. []) [Track ''a'' 0 (NoOp ''x''), Start ''a'', Complete ''a'' None 1,
     Track ''b'' 2 (CancelTask ''t'' :: nat BrainAction), Fail ''b'' None 3] tracker_new)
   = {#''a'', ''b''#}"
  using no_action_lost [of "[Track ''a'' 0 (NoOp ''x''), Start ''a'', Complete ''a'' None 1,
     Track ''b'' 2 (CancelTask ''t'' :: nat BrainAction), Fail ''b'' None 3]" "\<lambda>_. []"]
  by (simp add: track_ids_def)

text \<open>An action that is neither completed nor expired survives exactly its first two failures:
  after it was tracked it is in the table as long as it failed fewer than three times, and leaves
  it at the third, however the operations on other actions interleave.\<close>

theorem given_up_at_third_failure:
  assumes "list_all (only_fails i) ops"
  shows "hm_get (tr_actions (tracker_run fmt (before @ Track i now a # ops) tracker_new)) i \<noteq> None
    \<longleftrightarrow> fails_of i ops < 3"
proof -
  let ?tr = "tracker_run fmt (before @ [Track i now a]) tracker_new"
  have wf: "tracker_wf ?tr" by (simp add: tracker_wf_run)
  have max: "unat (tr_max_retries ?tr) = 3" by (simp add: tracker_new_def)
  obtain x where x: "hm_get (tr_actions ?tr) i = Some x" "ta_retry_count x = 0"
    by (simp add: tracker_run_append track_action_def Let_def)
  from run_own_entry [OF wf assms x(1), of fmt] show ?thesis
    unfolding max x(2) by (simp add: tracker_run_append)
qed

theorem given_up_at_third_failure_witness:
  "hm_get (tr_actions (tracker_run (\<lambda>_. []) ([] @ Track ''a'' 0 (NoOp ''x'' :: nat BrainAction) #
     [Start ''a'', Fail ''a'' None 1, Fail ''a'' None 2, Fail ''a'' None 3]) tracker_new)) ''a'' = None"
  using given_up_at_third_failure [of "''a''" "[Start ''a'', Fail ''a'' None 1, Fail ''a'' None 2,
    Fail ''a'' None 3 :: nat tracker_op]" "\<lambda>_. []" "[]" 0 "NoOp ''x''"]
  by (simp add: fails_of_def)

text \<open>\<open>cleanup_stale\<close> removes exactly the executing actions proposed more than the timeout ago,
  leaves every other action as it is (a proposed one never expires), and appends the removed ones
  to the history as failed with the message \<open>Timeout\<close>.\<close>

theorem cleanup_expires_stale:
  assumes "tracker_wf tr"
  shows "hm_get (tr_actions (cleanup_stale now tr)) i =
      (case hm_get (tr_actions tr) i of
         Some a \<Rightarrow> if is_stale now (tr_action_timeout tr) a then None else Some a
       | None \<Rightarrow> None)
    \<and> tr_action_history (cleanup_stale now tr) =
      trim_history (tr_max_history tr)
        (tr_action_history tr @
         map (timed_out now) (filter (is_stale now (tr_action_timeout tr)) (hm_values (tr_actions tr))))"
  using cleanup_stale_get [OF assms] cleanup_stale_history [OF assms] by blast

theorem cleanup_expires_stale_witness:
  "hm_get (tr_actions (cleanup_stale (five_minutes + 1)
     (tracker_run (\<lambda>_. []) [Track ''a'' 0 (NoOp ''x'' :: nat BrainAction), Start ''a''] tracker_new))) ''a'' = None"
proof -
  let ?tr = "tracker_run (\<lambda>_. []) [Track ''a'' 0 (NoOp ''x'' :: nat BrainAction), Start ''a''] tracker_new"
  have wf: "tracker_wf ?tr" by (rule tracker_wf_run) simp
  have "\<exists>a. hm_get (tr_actions ?tr) ''a'' = Some a \<and> is_stale (five_minutes + 1) (tr_action_timeout ?tr) a"
    by (simp add: track_action_def mark_executing_def Let_def is_stale_def tracker_new_def)
  then show ?thesis using cleanup_expires_stale [OF wf, of "five_minutes + 1" "''a''"] by auto
qed

text \<open>The progress record of a goal counts the outcomes reported for it (fewer than \<open>2^32\<close>
  reports, so that no counter wraps): proposed, completed and failed actions are exactly the
  numbers of reports, of successes and of failures, and at most 50 notes are kept.\<close>

theorem progress_counts_outcomes:
  assumes "length ops < 2 ^ 32"
    and "get_goal_progress g (tracker_run fmt ops tracker_new) = Some e"
  shows "unat (gp_actions_proposed e) = outcomes g (\<lambda>_. True) ops
    \<and> unat (gp_actions_completed e) = outcomes g (\<lambda>c. c) ops
    \<and> unat (gp_actions_failed e) = outcomes g Not ops
    \<and> length (gp_notes e) \<le> 50"
  using progress_inv [OF assms(1), where fmt = fmt and g = g] assms(2)
  by (simp add: get_goal_progress_def progress_entry_ok_def)

theorem progress_counts_outcomes_witness:
  "\<exists>e. get_goal_progress ''g'' (tracker_run (\<lambda>_. []) [Progress 0 0 0 ''g'' True None :: nat tracker_op] tracker_new)
       = Some e \<and> unat (gp_actions_completed e) = 1"
proof -
  let ?ops = "[Progress 0 0 0 ''g'' True None :: nat tracker_op]"
  obtain e where e: "get_goal_progress ''g'' (tracker_run (\<lambda>_. []) ?ops tracker_new) = Some e"
    by (simp add: get_goal_progress_def update_goal_progress_def Let_def)
  then show ?thesis
    using progress_counts_outcomes [OF _ e] by (simp add: outcomes_def)
qed

text \<open>C39. The estimate computed in 32-bit floating point is the percentage of completed actions, up to
  rounding, as long as fewer than \<open>2^32\<close> operations were made: it is less than 1.02 away from
  \<open>100 * c / t\<close>, where \<open>t\<close> outcomes were reported of the goal and \<open>c\<close> of them are completions, and it
  never exceeds 100. For up to \<open>2^24\<close> outcomes it reads 100 exactly when all are completions; beyond
  that a float no longer tells \<open>t\<close> from \<open>t - 1\<close>, so 100 can be read earlier.\<close>

theorem progress_is_percentage:
  assumes "length ops < 2 ^ 32"
    and "get_goal_progress g (tracker_run fmt ops tracker_new) = Some e"
  shows "0 < outcomes g (\<lambda>_. True) ops
    \<and> \<bar>of_int (uint (gp_estimated_progress e))
         - 100 * of_nat (outcomes g (\<lambda>c. c) ops) / of_nat (outcomes g (\<lambda>_. True) ops)\<bar> < (102 / 100 :: rat)
    \<and> uint (gp_estimated_progress e) \<le> 100
    \<and> (outcomes g (\<lambda>_. True) ops \<le> 2 ^ 24 \<longrightarrow>
        (uint (gp_estimated_progress e) = 100 \<longleftrightarrow> outcomes g (\<lambda>c. c) ops = outcomes g (\<lambda>_. True) ops))"
proof -
  let ?c = "gp_actions_completed e" and ?p = "gp_actions_proposed e"
  have ok: "progress_entry_ok ops g e"
    using progress_inv [OF assms(1), where fmt = fmt and g = g] assms(2) by (simp add: get_goal_progress_def)
  have le: "?c \<le> ?p" and pos: "0 < ?p"
    using ok outcomes_split [of g ops]
    by (simp_all add: progress_entry_ok_def word_le_nat_alt word_less_nat_alt)
  have est: "gp_estimated_progress e = percent_u8 ?c ?p"
    and counts: "outcomes g (\<lambda>_. True) ops = unat ?p" "outcomes g (\<lambda>c. c) ops = unat ?c"
    using ok by (simp_all add: progress_entry_ok_def)
  have "uint (percent_u8 ?c ?p) = 100 \<longleftrightarrow> ?c = ?p" if "unat ?p \<le> 2 ^ 24"
  proof (cases "?c = ?p")
    case False
    with le have "?c < ?p" by (rule order.not_eq_order_implies_strict [rotated])
    then show ?thesis using percent_u8_lt_100 [OF _ that, of ?c] False by simp
  qed (simp add: percent_u8_full [OF pos])
  moreover have "0 < unat ?p" using pos by (simp add: word_less_nat_alt)
  ultimately show ?thesis
    unfolding est counts word_unat_eq_iff [symmetric] using percent_u8_le_100 [OF pos le] percent_u8_close [OF pos le] by blast
qed

theorem progress_is_percentage_witness:
  "\<exists>e. get_goal_progress ''g'' (tracker_run (\<lambda>_. []) [Progress 0 0 0 ''g'' True None, Progress 1 1 1 ''g'' False None :: nat tracker_op]
       tracker_new) = Some e \<and> \<bar>of_int (uint (gp_estimated_progress e)) - 50\<bar> < (102 / 100 :: rat)"
proof -
  let ?ops = "[Progress 0 0 0 ''g'' True None, Progress 1 1 1 ''g'' False None :: nat tracker_op]"
  obtain e where e: "get_goal_progress ''g'' (tracker_run (\<lambda>_. []) ?ops tracker_new) = Some e"
    by (simp add: get_goal_progress_def update_goal_progress_def Let_def)
  then show ?thesis using progress_is_percentage [OF _ e] by (simp add: outcomes_def)
qed

text \<open>Similarity of actions is symmetric and transitive, and holds between an action and itself
  exactly for the four kinds that are deduplicated; scheduling two tasks is similar when the target
  and the kind of payload agree, whatever the payloads say.\<close>

theorem similarity_is_partial_equivalence:
  "(is_similar_action a b \<longleftrightarrow> is_similar_action b a)
   \<and> (is_similar_action a b \<and> is_similar_action b c \<longrightarrow> is_similar_action a c)
   \<and> (is_similar_action a a \<longleftrightarrow> deduplicated a)"
  using is_similar_sym is_similar_trans is_similar_refl by blast

theorem similarity_is_partial_equivalence_witness:
  "is_similar_action (CancelTask ''t'') (CancelTask ''t'' :: nat BrainAction)"
  using similarity_is_partial_equivalence
    [of "CancelTask ''t'' :: nat BrainAction" "CancelTask ''t''" "CancelTask ''t''"] by simp

text \<open>The statistics of a tracker add up: pending and executing actions make up the table,
  completed and failed ones the history.\<close>

theorem statistics_add_up:
  "st_pending (get_stats (tracker_run fmt ops tracker_new))
     + st_executing (get_stats (tracker_run fmt ops tracker_new))
     = length (tr_actions (tracker_run fmt ops tracker_new))
   \<and> st_completed (get_stats (tracker_run fmt ops tracker_new))
     + st_failed (get_stats (tracker_run fmt ops tracker_new))
     = st_history_size (get_stats (tracker_run fmt ops tracker_new))"
  by (simp add: stats_totals tracker_wf_run)

end
