(* ===== verification/Watch.thy ===== *)
theory Watch
  imports Prelude
begin

text \<open>
  The channel by which \<open>src/daemon.rs\<close> announces the end: \<open>tokio::sync::watch\<close>, a dependency, so its
  operations are a parameter (\<open>watch_api\<close>) and its documentation is the contract \<open>watch\<close>. The channel
  holds one value; a receiver remembers whether it has seen the newest one, a clone remembers what
  its original has seen, \<open>borrow\<close> reads without marking, and \<open>changed\<close> is ready exactly when there is
  a value the receiver has not seen, which it then marks. \<open>attached c r\<close> says that \<open>r\<close> is a receiver
  of \<open>c\<close>, \<open>unseen c r\<close> that the newest value of \<open>c\<close> is new to it.

  \<open>wt_changed W c r\<close> is \<open>None\<close> while the future of \<open>changed\<close> waits, and otherwise the receiver
  afterwards.
\<close>

record ('c, 'r) watch_api =
  wt_channel :: "bool \<Rightarrow> 'c \<times> 'r"
  wt_send :: "bool \<Rightarrow> 'c \<Rightarrow> 'c"
  wt_clone :: "'r \<Rightarrow> 'r"
  wt_borrow :: "'c \<Rightarrow> 'r \<Rightarrow> bool"
  wt_changed :: "'c \<Rightarrow> 'r \<Rightarrow> 'r option"

locale watch =
  fixes W :: "('c, 'r) watch_api"
    and attached :: "'c \<Rightarrow> 'r \<Rightarrow> bool"
    and unseen :: "'c \<Rightarrow> 'r \<Rightarrow> bool"
  assumes opened: "wt_channel W v = (c, r) \<Longrightarrow> attached c r \<and> wt_borrow W c r = v \<and> \<not> unseen c r"
    and sent: "attached c r \<Longrightarrow> attached (wt_send W v c) r \<and> wt_borrow W (wt_send W v c) r = v \<and> unseen (wt_send W v c) r"
    and cloned: "attached c r \<Longrightarrow> attached c (wt_clone W r) \<and> wt_borrow W c (wt_clone W r) = wt_borrow W c r
      \<and> unseen c (wt_clone W r) = unseen c r"
    and changed_ready: "attached c r \<Longrightarrow> wt_changed W c r = None \<longleftrightarrow> \<not> unseen c r"
    and changed_marks: "attached c r \<Longrightarrow> wt_changed W c r = Some r' \<Longrightarrow> attached c r' \<and> \<not> unseen c r'"
begin

text \<open>What a receiver knows before and after the one value that is ever sent.\<close>

definition tuned :: "bool \<Rightarrow> 'c \<Rightarrow> 'r \<Rightarrow> bool" where
  "tuned told c r \<longleftrightarrow> attached c r \<and> wt_borrow W c r = told \<and> unseen c r = told"

lemma tuned_channel: "wt_channel W False = (c, r) \<Longrightarrow> tuned False c r"
  using opened by (simp add: tuned_def)

lemma tuned_send: "tuned told c r \<Longrightarrow> tuned True (wt_send W True c) r"
  using sent by (simp add: tuned_def)

lemma tuned_clone: "tuned told c r \<Longrightarrow> tuned told c (wt_clone W r)"
  using cloned by (simp add: tuned_def)

lemma tuned_borrow: "tuned told c r \<Longrightarrow> wt_borrow W c r = told"
  by (simp add: tuned_def)

lemma tuned_changed: "tuned told c r \<Longrightarrow> wt_changed W c r = None \<longleftrightarrow> \<not> told"
  using changed_ready by (simp add: tuned_def)

lemma tuned_ready: "tuned True c r \<Longrightarrow> \<exists>r'. wt_changed W c r = Some r'"
  using tuned_changed by fastforce

end

text \<open>The contract can be met: a channel that counts its values, receivers that keep the count of the
  last one they saw.\<close>

definition counted_watch :: "(nat \<times> bool, nat) watch_api" where
  "counted_watch = \<lparr>wt_channel = (\<lambda>v. ((0, v), 0)), wt_send = (\<lambda>v (n, _). (Suc n, v)), wt_clone = (\<lambda>r. r),
     wt_borrow = (\<lambda>(_, v) _. v), wt_changed = (\<lambda>(n, _) r. if r = n then None else Some n)\<rparr>"

interpretation counted: watch counted_watch "\<lambda>(n, v) r. r \<le> n" "\<lambda>(n, v) r. r \<noteq> n"
  by unfold_locales (auto simp: counted_watch_def split: prod.splits if_splits)

end
