(* ===== verification/Daemon.thy ===== *)
theory Daemon
  imports Config ExecProps Attachments Tracker Watch
begin

text \<open>
  The daemon of \<open>src/daemon.rs\<close>: the identity of a node, its start, and one tick of each of its
  three loops (heartbeat, task runner, planner). Tokio starts the loops as tasks that interleave at
  every \<open>await\<close>; a loop is the sequence of its ticks, and what the others do meanwhile is what the
  contract \<open>replicator\<close> lets a call of the replicator bring along. Only the planner loop uses the
  tracker, so the tracker is the state of its ticks. Instants and identifiers the planner draws for
  the n-th action of a plan are the record \<open>act_env\<close>.
\<close>

section \<open>Identity\<close>

text \<open>The loop that copies at most eight bytes into a zeroed array.\<close>

fun copy_bytes :: "nat \<Rightarrow> u8 list \<Rightarrow> u8 list \<Rightarrow> u8 list" where
  "copy_bytes i [] arr = arr"
| "copy_bytes i (b # bs) arr = copy_bytes (Suc i) bs (arr[i := b])"

definition raft_node_id :: "NodeId \<Rightarrow> u64" where
  "raft_node_id node_id =
     (let bytes = as_bytes node_id;
          arr = copy_bytes 0 (take 8 bytes) (replicate 8 0)
      in from_le_bytes arr)"

section \<open>Start\<close>

datatype brain_choice = UseNoOp | UseLlm LlmConfig

record ('j, 'c, 'r) HiveDaemon =
  hd_node_id :: NodeId
  hd_hostname :: string
  hd_tags :: "string list"
  hd_raft_id :: u64
  hd_conns :: HiveNetworkFactory
  hd_brain :: brain_choice
  hd_policy :: ExecutionPolicy
  hd_attachments :: "'j AttachmentRegistry"
  hd_tracker :: "'j ActionTracker"
  hd_config :: NodeConfig
  hd_shutdown_tx :: 'c
  hd_shutdown_rx :: 'r

datatype daemon_error =
    DataDirFailed string
  | RaftNotStarted string
  | DaemonReplicator replicator_error

fun daemon_error_text :: "daemon_error \<Rightarrow> string" where
  "daemon_error_text (DataDirFailed e) = e"
| "daemon_error_text (RaftNotStarted e) = e"
| "daemon_error_text (DaemonReplicator e) = replicator_error_text e"

definition choose_brain :: "(string \<Rightarrow> string option) \<Rightarrow> LlmSettings \<Rightarrow> brain_choice" where
  "choose_brain getenv s =
     (if ls_enabled s then
        (let llm_config = to_llm_config getenv s in
         if lc_api_key llm_config = [] then UseNoOp else UseLlm llm_config)
      else UseNoOp)"

text \<open>What the process asks of its environment: variables, the name of the host, an identifier.\<close>

record host_env =
  he_getenv :: "string \<Rightarrow> string option"
  he_hostname :: "string option"
  he_uuid :: string

definition daemon_new ::
  "host_env \<Rightarrow> ('c, 'r) watch_api \<Rightarrow> 'w raft_boot \<Rightarrow> NodeConfig \<Rightarrow> 'w \<Rightarrow> (daemon_error + ('j, 'c, 'r) HiveDaemon) \<times> 'w" where
  "daemon_new H W B config w =
     (let node_id = effective_node_id (he_uuid H) config;
          hostname = effective_hostname (he_hostname H) config;
          raft_id = raft_node_id node_id
      in st_then (st_map_err DataDirFailed (rb_create_dir B (cf_data_dir config) w)) (\<lambda>_ w.
         st_then (st_map_err RaftNotStarted
             (raft_new B raft_id (listen_addr config) hostname (cf_data_dir config) w)) (\<lambda>conns w.
         let (shutdown_tx, shutdown_rx) = wt_channel W False in
           (Ok \<lparr>hd_node_id = node_id, hd_hostname = hostname, hd_tags = cf_tags config,
                hd_raft_id = raft_id, hd_conns = conns,
                hd_brain = choose_brain (he_getenv H) (cf_llm config),
                hd_policy = to_execution_policy (cf_policy config),
                hd_attachments = registry_new node_id, hd_tracker = tracker_new,
                hd_config = config, hd_shutdown_tx = shutdown_tx, hd_shutdown_rx = shutdown_rx\<rparr>, w))))"

definition self_status :: "timestamp \<Rightarrow> NodeId \<Rightarrow> string \<Rightarrow> string list \<Rightarrow> NodeStatus" where
  "self_status now node_id hostname tags =
     \<lparr>ns_node_id = node_id, ns_hostname = hostname, ns_tags = tags, ns_health = Healthy,
      ns_last_heartbeat = now, ns_cpu_usage = 0, ns_memory_usage = 0, ns_disk_usage = 0\<rparr>"

definition register_self ::
  "('j, 'w) replicator_api \<Rightarrow> timestamp \<Rightarrow> ('j, 'c, 'r) HiveDaemon \<Rightarrow> 'w \<Rightarrow> (daemon_error + unit) \<times> 'w" where
  "register_self R now d w =
     st_map_err DaemonReplicator
       (rp_apply R (RegisterNode (self_status now (hd_node_id d) (hd_hostname d) (hd_tags d))) w)"

text \<open>\<open>run\<close> up to the point where the loops are spawned.\<close>

definition daemon_start ::
  "('j, 'w) raft_api \<Rightarrow> timestamp \<Rightarrow> ('j, 'c, 'r) HiveDaemon \<Rightarrow> 'w rr_world \<Rightarrow> (daemon_error + unit) \<times> 'w rr_world" where
  "daemon_start A now d w =
     st_then (if cf_peers (hd_config d) = []
              then st_map_err DaemonReplicator (initialize_single A (hd_raft_id d) w)
              else (Ok (), w)) (\<lambda>_ w.
       register_self (raft_replicator A (hd_raft_id d)) now d w)"

definition shutdown :: "('c, 'r) watch_api \<Rightarrow> ('j, 'c, 'r) HiveDaemon \<Rightarrow> ('j, 'c, 'r) HiveDaemon" where
  "shutdown W d = d\<lparr>hd_shutdown_tx := wt_send W True (hd_shutdown_tx d)\<rparr>"

section \<open>The heartbeat\<close>

definition collect_node_metrics :: NodeMetrics where
  "collect_node_metrics = \<lparr>nm_cpu_usage = 0, nm_memory_usage = 0, nm_disk_usage = 0\<rparr>"

text \<open>A failure is logged and the loop goes on.\<close>

definition heartbeat_tick :: "('j, 'w) replicator_api \<Rightarrow> NodeId \<Rightarrow> 'w \<Rightarrow> 'w" where
  "heartbeat_tick R node_id w =
     (case rp_apply R (UpdateNodeHealth node_id Healthy collect_node_metrics) w of (_, w) \<Rightarrow> w)"

section \<open>The task runner\<close>

fun run_tasks ::
  "'j json_api \<Rightarrow> 'w os_api \<Rightarrow> ('j, 'w) replicator_api \<Rightarrow> NodeId \<Rightarrow> 'j Task list \<Rightarrow> 'w \<Rightarrow> 'w" where
  "run_tasks J S R node_id [] w = w"
| "run_tasks J S R node_id (t # ts) w =
     (case run_task J S R node_id t w of (_, w) \<Rightarrow> run_tasks J S R node_id ts w)"

definition my_pending :: "NodeId \<Rightarrow> 'j ClusterView \<Rightarrow> 'j Task list" where
  "my_pending node_id view =
     filter (\<lambda>t. tk_target_node t = node_id \<and> tk_status t = Pending) (cv_tasks view)"

definition task_runner_tick ::
  "'j json_api \<Rightarrow> 'w os_api \<Rightarrow> ('j, 'w) replicator_api \<Rightarrow> NodeId \<Rightarrow> 'w \<Rightarrow> 'w" where
  "task_runner_tick J S R node_id w =
     (let (view, w) = rp_snapshot R w in run_tasks J S R node_id (my_pending node_id view) w)"

section \<open>The planner\<close>

fun extract_goal_id :: "'j BrainAction \<Rightarrow> GoalId option" where
  "extract_goal_id (UpdateGoalProgress goal_id _ _) = Some goal_id"
| "extract_goal_id _ = None"

definition is_recently_failed :: "'j BrainAction \<Rightarrow> 'j TrackedAction list \<Rightarrow> bool" where
  "is_recently_failed action recent_failures \<longleftrightarrow>
     list_ex (\<lambda>f. is_similar_action (ta_action f) action) recent_failures"

record act_env =
  ae_id :: string
  ae_tracked :: timestamp
  ae_uuid :: string
  ae_t1 :: timestamp
  ae_t2 :: timestamp
  ae_done :: timestamp
  ae_p0 :: timestamp
  ae_p1 :: timestamp
  ae_p2 :: timestamp

definition note_progress ::
  "(timestamp \<Rightarrow> string) \<Rightarrow> act_env \<Rightarrow> GoalId option \<Rightarrow> bool \<Rightarrow> string option \<Rightarrow> 'j ActionTracker \<Rightarrow> 'j ActionTracker" where
  "note_progress fmt e goal_id completed msg tr =
     (case goal_id of
        Some gid \<Rightarrow> update_goal_progress fmt (ae_p0 e) (ae_p1 e) (ae_p2 e) gid completed msg tr
      | None \<Rightarrow> tr)"

text \<open>The body of the loop over the actions of a plan. Both \<open>continue\<close>s skip the rest.\<close>

definition plan_step ::
  "(timestamp \<Rightarrow> string) \<Rightarrow> ('j, 'w) replicator_api \<Rightarrow> ExecutionPolicy \<Rightarrow> 'j TrackedAction list \<Rightarrow> act_env
     \<Rightarrow> 'j BrainAction \<Rightarrow> 'j ActionTracker \<times> 'w \<Rightarrow> 'j ActionTracker \<times> 'w" where
  "plan_step fmt R pol recent_failures e action st =
     (case st of (tr, w) \<Rightarrow>
      if has_similar_pending action tr then (tr, w)
      else if is_recently_failed action recent_failures then (tr, w)
      else
        (let (action_id, tr) = track_action (ae_id e) (ae_tracked e) action tr;
             tr = mark_executing action_id tr;
             goal_id = extract_goal_id action;
             (r, w) = execute R pol (ae_uuid e) (ae_t1 e) (ae_t2 e) action w
         in case r of
              Inr _ \<Rightarrow>
                (note_progress fmt e goal_id True None (mark_completed action_id None (ae_done e) tr), w)
            | Inl err \<Rightarrow>
                (let msg = exec_error_text err;
                     (should_retry, tr) = mark_failed action_id (Some msg) (ae_done e) tr
                 in (note_progress fmt e goal_id False (Some msg) tr, w))))"

fun plan_steps ::
  "(timestamp \<Rightarrow> string) \<Rightarrow> ('j, 'w) replicator_api \<Rightarrow> ExecutionPolicy \<Rightarrow> 'j TrackedAction list \<Rightarrow> (nat \<Rightarrow> act_env)
     \<Rightarrow> nat \<Rightarrow> 'j BrainAction list \<Rightarrow> 'j ActionTracker \<times> 'w \<Rightarrow> 'j ActionTracker \<times> 'w" where
  "plan_steps fmt R pol fs envs n [] st = st"
| "plan_steps fmt R pol fs envs n (a # as) st =
     plan_steps fmt R pol fs envs (Suc n) as (plan_step fmt R pol fs (envs n) a st)"

record plan_env =
  pe_now :: timestamp
  pe_acts :: "nat \<Rightarrow> act_env"

definition planner_tick ::
  "(timestamp \<Rightarrow> string) \<Rightarrow> ('j, 'w) replicator_api \<Rightarrow> ExecutionPolicy \<Rightarrow> ('j, 'w) brain_api
     \<Rightarrow> 'j AttachmentRegistry \<Rightarrow> plan_env \<Rightarrow> 'j ActionTracker \<times> 'w \<Rightarrow> 'j ActionTracker \<times> 'w" where
  "planner_tick fmt R pol B reg e st =
     (case st of (tr, w) \<Rightarrow>
      (let tr = cleanup_stale (pe_now e) tr;
           (leads, w) = rp_is_leader R w
       in if \<not> leads then (tr, w)
          else
            (let (view, w) = rp_snapshot R w;
                 attachment_list = registry_list reg
             in if cv_goals view = [] then (tr, w)
                else
                  (let recent_failures = get_recent_failures 10 tr;
                       (plan, w) = br_plan B (cv_goals view) view attachment_list w
                   in case plan of
                        Inl _ \<Rightarrow> (tr, w)
                      | Inr actions \<Rightarrow> plan_steps fmt R pol recent_failures (pe_acts e) 0 actions (tr, w)))))"

fun planner_run ::
  "(timestamp \<Rightarrow> string) \<Rightarrow> ('j, 'w) replicator_api \<Rightarrow> ExecutionPolicy \<Rightarrow> ('j, 'w) brain_api
     \<Rightarrow> 'j AttachmentRegistry \<Rightarrow> plan_env list \<Rightarrow> 'j ActionTracker \<times> 'w \<Rightarrow> 'j ActionTracker \<times> 'w" where
  "planner_run fmt R pol B reg [] st = st"
| "planner_run fmt R pol B reg (e # es) st =
     planner_run fmt R pol B reg es (planner_tick fmt R pol B reg e st)"

end
