(* ===== verification/DaemonProps.thy ===== *)
theory DaemonProps
  imports Daemon
begin

text \<open>
  The properties of the daemon: identity of nodes, start, and the three loops over every replicator
  that keeps the contract. \<open>within_policy\<close> is the abstract specification of the planner loop: how a
  tick may change the replicated state.
\<close>

section \<open>Identity\<close>

lemma copy_bytes_append:
  "i + length bs \<le> length arr \<Longrightarrow> copy_bytes i bs arr = take i arr @ bs @ drop (i + length bs) arr"
proof (induction i bs arr rule: copy_bytes.induct)
  case (2 i b bs arr)
  then have "copy_bytes (Suc i) bs (arr[i := b]) =
      take (Suc i) (arr[i := b]) @ bs @ drop (Suc i + length bs) (arr[i := b])" by simp
  moreover have "take (Suc i) (arr[i := b]) = take i arr @ [b]"
    using "2.prems" by (simp add: take_Suc_conv_app_nth)
  ultimately show ?case by simp
qed simp

lemma raft_node_id_eq:
  "raft_node_id s = from_le_bytes (take 8 (as_bytes s) @ replicate (8 - length s) 0)"
proof -
  have "copy_bytes 0 (take 8 (as_bytes s)) (replicate 8 0) =
      take 8 (as_bytes s) @ replicate (8 - min 8 (length s)) 0"
    by (subst copy_bytes_append) (simp_all add: min.commute)
  moreover have "8 - min 8 (length s) = 8 - length s" by simp
  ultimately show ?thesis by (simp only: raft_node_id_def Let_def)
qed

lemma padded_inject:
  assumes "0 \<notin> set xs" "0 \<notin> set ys"
  shows "xs @ replicate m 0 = ys @ replicate n (0 :: u8) \<longleftrightarrow> xs = ys \<and> m = n"
proof
  have strip: "takeWhile (\<lambda>b. b \<noteq> 0) (zs @ replicate k 0) = zs" if "0 \<notin> set zs" for zs :: "u8 list" and k
    using that by (induction zs) (auto simp: takeWhile_eq_Nil_iff)
  assume *: "xs @ replicate m 0 = ys @ replicate n (0 :: u8)"
  then have "takeWhile (\<lambda>b. b \<noteq> 0) (xs @ replicate m 0) = takeWhile (\<lambda>b. b \<noteq> 0) (ys @ replicate n 0)"
    by simp
  then have "xs = ys" by (simp add: strip assms)
  with * show "xs = ys \<and> m = n" by simp
qed simp

lemma zero_byte: "0 \<in> set (as_bytes s) \<longleftrightarrow> CHR 0x00 \<in> set s"
proof -
  have "of_nat (of_char c) = (0 :: u8) \<longleftrightarrow> c = CHR 0x00" for c
    using byte_of_char_inject [of c "CHR 0x00"] by simp
  then have "b \<in> set (as_bytes s) \<and> b = 0 \<longleftrightarrow> b = 0 \<and> CHR 0x00 \<in> set s" for b
    by (force simp: as_bytes_def)
  then show ?thesis by blast
qed

lemma take_as_bytes: "take k (as_bytes s) = as_bytes (take k s)"
  by (simp add: as_bytes_def take_map)

section \<open>The task runner\<close>

text \<open>A task that is carried out with the outcome \<open>r\<close>: it is marked as running, its payload is run
  once and ends with \<open>r\<close>, and the status and result that \<open>r\<close> stands for are written. A list of tasks
  with their outcomes is carried out one after the other, and nothing else happens.\<close>

fun carries_out ::
  "'j json_api \<Rightarrow> 'w os_api \<Rightarrow> ('j, 'w) replicator_api \<Rightarrow> 'j Task \<times> (runner_error + 'j) \<Rightarrow> 'w \<Rightarrow> 'w \<Rightarrow> bool" where
  "carries_out J S R (t, r) w w' \<longleftrightarrow> (\<exists>w1 w2. rp_apply R (UpdateTaskStatus (tk_id t) Running None) w = (Ok (), w1)
     \<and> run_payload J S runner_new (tk_payload t) w1 = (r, w2)
     \<and> rp_apply R (case r of Inr v \<Rightarrow> UpdateTaskStatus (tk_id t) Completed (Some v)
         | Inl e \<Rightarrow> UpdateTaskStatus (tk_id t) (Failed (runner_error_text e)) None) w2 = (Ok (), w'))"

fun carried ::
  "'j json_api \<Rightarrow> 'w os_api \<Rightarrow> ('j, 'w) replicator_api \<Rightarrow> ('j Task \<times> (runner_error + 'j)) list \<Rightarrow> 'w \<Rightarrow> 'w \<Rightarrow> bool" where
  "carried J S R [] w w' \<longleftrightarrow> w' = w"
| "carried J S R (x # xs) w w' \<longleftrightarrow> (\<exists>w1. carries_out J S R x w w1 \<and> carried J S R xs w1 w')"

lemma carried_ran:
  "carried J S R xs w w' \<Longrightarrow> (x, r) \<in> set xs \<Longrightarrow> \<exists>u. r = fst (run_payload J S runner_new (tk_payload x) u)"
  by (induction xs arbitrary: w) (auto, metis fst_conv)

text \<open>The task as the outcome leaves it, apart from the instant.\<close>

definition ended_as :: "'j Task \<Rightarrow> runner_error + 'j \<Rightarrow> 'j Task" where
  "ended_as t r = (forget_updated t)\<lparr>
     tk_status := (case r of Inr v \<Rightarrow> Completed | Inl e \<Rightarrow> Failed (runner_error_text e)),
     tk_result := (case r of Inr v \<Rightarrow> Some v | Inl e \<Rightarrow> None)\<rparr>"

lemma outcome_write:
  "UpdateTaskStatus i (fst (task_outcome r)) (snd (task_outcome r)) =
     (case r of Inr v \<Rightarrow> UpdateTaskStatus i Completed (Some v)
       | Inl e \<Rightarrow> UpdateTaskStatus i (Failed (runner_error_text e)) None)"
  by (cases r) simp_all

lemma ended_as_outcome:
  "(forget_updated t)\<lparr>tk_status := fst (task_outcome r), tk_result := snd (task_outcome r)\<rparr> = ended_as t r"
  by (cases r) (simp_all add: ended_as_def)

text \<open>Worlds in which this node can write, and which it does not leave by itself.\<close>

definition keeps_up :: "('j, 'w) replicator_api \<Rightarrow> 'w os_api \<Rightarrow> ('w \<Rightarrow> bool) \<Rightarrow> bool" where
  "keeps_up R S up \<longleftrightarrow> (\<forall>w. up w \<longrightarrow> (\<forall>c. \<exists>w'. rp_apply R c w = (Ok (), w') \<and> up w')
     \<and> up (snd (rp_snapshot R w)) \<and> (\<forall>prog args t. up (snd (os_run S prog args t w))))"

lemma keeps_up_commit:
  assumes "keeps_up R S up" "up w"
  obtains w' where "commit R c w = (Ok (), w')" "up w'"
  using assms unfolding keeps_up_def commit_Ok by blast

lemma keeps_up_payload: "keeps_up R S up \<Longrightarrow> up w \<Longrightarrow> up (snd (run_payload J S rn p w))"
  unfolding keeps_up_def run_payload_effect by (auto split: option.split TaskPayload.split)

lemma run_task_replies:
  assumes up: "keeps_up R S up" "up w" and "run_task J S R n t w = (r, w')"
  shows "up w' \<and> (\<forall>d. r \<noteq> Err (ExecReplicator d))"
proof (cases "tk_target_node t = n")
  case True
  obtain w1 where w1: "commit R (UpdateTaskStatus (tk_id t) Running None) w = (Ok (), w1)" "up w1"
    by (rule keeps_up_commit [OF up])
  obtain result w2 where w2: "run_payload J S runner_new (tk_payload t) w1 = (result, w2)" by fastforce
  with keeps_up_payload [OF up(1) w1(2), of J runner_new "tk_payload t"] have "up w2" by simp
  from keeps_up_commit [OF up(1) this]
  obtain w3 where "commit R (UpdateTaskStatus (tk_id t) (fst (task_outcome result)) (snd (task_outcome result))) w2
      = (Ok (), w3)" "up w3" .
  with w1(1) w2 True assms(3) show ?thesis
    by (cases result) (auto simp: run_task_def Let_def)
next
  case False
  with assms show ?thesis by (auto simp: run_task_wrong_node)
qed

lemma task_of_two_updates:
  "task_of (apply_log [(n1, UpdateTaskStatus i st1 r1), (n2, UpdateTaskStatus i st r)] s) j =
     (if j = i then map_option (\<lambda>t. t\<lparr>tk_status := st, tk_result := r\<rparr>) (task_of s j) else task_of s j)"
  by (simp add: task_of_apply option.map_comp comp_def del: apply_command.simps)

context quiet_env
begin

lemma run_task_carried:
  assumes "keeps_up R S up" "up w" "run_task J S R n t w = (q, w')" "tk_target_node t = n"
  obtains r where "carries_out J S R (t, r) w w'" "up w'"
proof -
  have ok: "up w'" "\<forall>d. q \<noteq> Err (ExecReplicator d)" using run_task_replies [OF assms(1-3)] by blast+
  obtain w1 w2 r where
    "rp_apply R (UpdateTaskStatus (tk_id t) Running None) w = (Ok (), w1)"
    "run_payload J S runner_new (tk_payload t) w1 = (r, w2)"
    "rp_apply R (UpdateTaskStatus (tk_id t) (fst (task_outcome r)) (snd (task_outcome r))) w2 = (Ok (), w')"
    by (rule run_task_steps [OF assms(3,4) ok(2)])
  then have "carries_out J S R (t, r) w w'" unfolding outcome_write by auto
  then show thesis using that ok(1) by blast
qed

lemma carries_out_effect:
  assumes "carries_out J S R (t, r) w w'" "hive_wf (hive w)"
  shows "hive_wf (hive w')"
    and "task_of (hive w') j = (if j = tk_id t
        then map_option (\<lambda>t. t\<lparr>tk_status := fst (task_outcome r), tk_result := snd (task_outcome r)\<rparr>) (task_of (hive w) j)
        else task_of (hive w) j)"
proof -
  obtain w1 w2 where steps: "rp_apply R (UpdateTaskStatus (tk_id t) Running None) w = (Ok (), w1)"
    "run_payload J S runner_new (tk_payload t) w1 = (r, w2)"
    "rp_apply R (UpdateTaskStatus (tk_id t) (fst (task_outcome r)) (snd (task_outcome r))) w2 = (Ok (), w')"
    using assms(1) unfolding outcome_write by auto
  from evolves_trans [OF evolves_trans [OF apply_quiet [OF steps(1)] run_payload_quiet [OF steps(2)]] apply_quiet [OF steps(3)]]
  have e: "evolves [UpdateTaskStatus (tk_id t) Running None,
      UpdateTaskStatus (tk_id t) (fst (task_outcome r)) (snd (task_outcome r))] (hive w) (hive w')" by simp
  show "hive_wf (hive w')" by (rule evolves_wf [OF e assms(2)])
  show "task_of (hive w') j = (if j = tk_id t
      then map_option (\<lambda>t. t\<lparr>tk_status := fst (task_outcome r), tk_result := snd (task_outcome r)\<rparr>) (task_of (hive w) j)
      else task_of (hive w) j)"
    using evolves_same [OF e] by (simp only: same_hive_lookups list.map task_of_two_updates)
qed

lemma run_tasks_carried:
  assumes "keeps_up R S up" "up w" "\<And>t. t \<in> set ts \<Longrightarrow> tk_target_node t = n"
  shows "\<exists>rs. length rs = length ts \<and> carried J S R (zip ts rs) w (run_tasks J S R n ts w)"
  using assms(2,3)
proof (induction ts arbitrary: w)
  case (Cons t ts)
  obtain q w1 where s: "run_task J S R n t w = (q, w1)" by fastforce
  obtain r where r: "carries_out J S R (t, r) w w1" "up w1"
    by (rule run_task_carried [OF assms(1) Cons.prems(1) s]) (use Cons.prems(2) in simp)
  obtain rs where "length rs = length ts" "carried J S R (zip ts rs) w1 (run_tasks J S R n ts w1)"
    using Cons.IH [OF r(2)] Cons.prems(2) by auto
  with r(1) s show ?case by (intro exI [of _ "r # rs"]) (auto simp del: carries_out.simps)
qed simp

lemma carried_effect:
  assumes "carried J S R xs w w'" "hive_wf (hive w)" "distinct (map (\<lambda>x. tk_id (fst x)) xs)"
  shows "(\<forall>i. (\<forall>x \<in> set xs. tk_id (fst x) \<noteq> i) \<longrightarrow> task_of (hive w') i = task_of (hive w) i)
    \<and> (\<forall>(t, r) \<in> set xs. task_of (hive w) (tk_id t) = Some (forget_updated t) \<longrightarrow> task_of (hive w') (tk_id t) = Some (ended_as t r))"
  using assms
proof (induction xs arbitrary: w)
  case (Cons x xs)
  obtain t r where x: "x = (t, r)" by fastforce
  obtain w1 where w1: "carries_out J S R (t, r) w w1" "carried J S R xs w1 w'" using Cons.prems(1) x by auto
  note eff = carries_out_effect [OF w1(1) Cons.prems(2)]
  have ih: "(\<forall>i. (\<forall>x \<in> set xs. tk_id (fst x) \<noteq> i) \<longrightarrow> task_of (hive w') i = task_of (hive w1) i)
    \<and> (\<forall>(t, r) \<in> set xs. task_of (hive w1) (tk_id t) = Some (forget_updated t) \<longrightarrow> task_of (hive w') (tk_id t) = Some (ended_as t r))"
    using Cons.IH [OF w1(2) eff(1)] Cons.prems(3) by simp
  have fresh: "\<forall>y \<in> set xs. tk_id (fst y) \<noteq> tk_id t" using Cons.prems(3) x by force
  with ih have "task_of (hive w') (tk_id t) = task_of (hive w1) (tk_id t)" by blast
  then have "task_of (hive w) (tk_id t) = Some (forget_updated t) \<longrightarrow> task_of (hive w') (tk_id t) = Some (ended_as t r)"
    by (simp add: eff(2) ended_as_outcome)
  moreover have "task_of (hive w1) (tk_id u) = task_of (hive w) (tk_id u)" if "(u, q) \<in> set xs" for u q
    using fresh that by (auto simp: eff(2))
  ultimately show ?case using ih eff(2) x by auto
qed simp

lemma task_runner_carries:
  assumes ku: "keeps_up R S up" and "up w" "hive_wf (hive w)"
  shows "\<exists>xs. carried J S R xs (snd (rp_snapshot R w)) (task_runner_tick J S R n w)
    \<and> distinct (map (\<lambda>x. tk_id (fst x)) xs)
    \<and> (\<forall>i t. task_of (hive w) i = Some t \<and> tk_target_node t = n \<and> tk_status t = Pending
         \<longleftrightarrow> (\<exists>(x, r) \<in> set xs. tk_id x = i \<and> forget_updated x = t))
    \<and> (\<forall>(x, r) \<in> set xs. task_of (hive (task_runner_tick J S R n w)) (tk_id x) = Some (ended_as x r))
    \<and> (\<forall>i. (\<forall>x \<in> set xs. tk_id (fst x) \<noteq> i) \<longrightarrow> task_of (hive (task_runner_tick J S R n w)) i = task_of (hive w) i)"
proof -
  obtain v w1 where v: "rp_snapshot R w = (v, w1)" by fastforce
  let ?ts = "my_pending n v"
  have e: "evolves [] (hive w) (hive w1)" by (rule snapshot_quiet [OF v])
  have wf: "hive_wf (hive w1)" by (rule evolves_wf [OF e assms(3)])
  have up1: "up w1" using ku assms(2) v unfolding keeps_up_def by (metis snd_conv)
  note kd = hive_wf_keyed(2) [OF wf]
  have same: "task_of (hive w) j = task_of (hive w1) j" for j
    using evolves_none_same [OF e] by (simp add: same_hive_lookups)
  have ts: "cv_tasks v = hm_values (hs_tasks (hive w1))" using snapshot_shows [OF v] by auto
  have mem: "t \<in> set ?ts \<longleftrightarrow> hm_get (hs_tasks (hive w1)) (tk_id t) = Some t
      \<and> tk_target_node t = n \<and> tk_status t = Pending" for t
    by (auto simp: my_pending_def ts keyed_values_mem [OF kd])
  have dist: "distinct (map tk_id ?ts)"
    unfolding my_pending_def ts by (rule distinct_map_filter) (rule keyed_values_distinct [OF kd])
  have run: "task_runner_tick J S R n w = run_tasks J S R n ?ts w1"
    by (simp add: task_runner_tick_def v)
  obtain rs where rs: "length rs = length ?ts" "carried J S R (zip ?ts rs) w1 (task_runner_tick J S R n w)"
    using run_tasks_carried [OF ku up1, of ?ts n J] run by (auto simp: mem)
  let ?xs = "zip ?ts rs"
  have fst: "map fst ?xs = ?ts" using rs(1) by simp
  have ids: "map (\<lambda>x. tk_id (fst x)) ?xs = map tk_id ?ts" using fst by (metis (no_types, lifting) comp_apply map_eq_conv map_map)
  have member: "(\<exists>r. (x, r) \<in> set ?xs) \<longleftrightarrow> x \<in> set ?ts" for x
    using arg_cong [OF fst, of set] by (force simp: image_iff)
  note eff = carried_effect [OF rs(2) wf, unfolded ids, OF dist]
  have "task_of (hive w1) (tk_id x) = Some (forget_updated x)" if "x \<in> set ?ts" for x
    using that by (simp add: mem task_of_def)
  then have ended: "\<forall>(x, r) \<in> set ?xs. task_of (hive (task_runner_tick J S R n w)) (tk_id x) = Some (ended_as x r)"
    using eff member by fast
  have pend: "task_of (hive w) i = Some t \<and> tk_target_node t = n \<and> tk_status t = Pending
      \<longleftrightarrow> (\<exists>x \<in> set ?ts. tk_id x = i \<and> forget_updated x = t)" for i t
  proof
    assume a: "task_of (hive w) i = Some t \<and> tk_target_node t = n \<and> tk_status t = Pending"
    then obtain z where z: "hm_get (hs_tasks (hive w1)) i = Some z" "t = forget_updated z" unfolding same by (auto simp: task_of_def)
    then have "tk_id z = i" by (intro keyed_key [OF kd])
    with z a show "\<exists>x \<in> set ?ts. tk_id x = i \<and> forget_updated x = t" by (intro bexI [of _ z]) (auto simp: mem)
  next
    assume "\<exists>x \<in> set ?ts. tk_id x = i \<and> forget_updated x = t"
    then show "task_of (hive w) i = Some t \<and> tk_target_node t = n \<and> tk_status t = Pending"
      unfolding same by (auto simp: mem task_of_def)
  qed
  have "\<forall>i t. task_of (hive w) i = Some t \<and> tk_target_node t = n \<and> tk_status t = Pending
      \<longleftrightarrow> (\<exists>(x, r) \<in> set ?xs. tk_id x = i \<and> forget_updated x = t)"
    unfolding pend using member by fast
  with rs(2) ids dist ended eff same show ?thesis unfolding v by (intro exI [of _ ?xs]) simp
qed

end

section \<open>The planner\<close>

text \<open>How the planner may change the state: the payload of a task is as it was or permitted by the
  policy, its node is as it was or a node of the cluster, an attachment is as it was or permitted,
  and nodes and goals neither come nor go.\<close>

definition within_policy :: "ExecutionPolicy \<Rightarrow> 'j HiveState \<Rightarrow> 'j HiveState \<Rightarrow> bool" where
  "within_policy pol s s' \<longleftrightarrow>
     (\<forall>i t'. task_of s' i = Some t' \<longrightarrow>
        (payload_ok pol (tk_payload t') \<or> (\<exists>t. task_of s i = Some t \<and> tk_payload t' = tk_payload t))
      \<and> (node_of s (tk_target_node t') \<noteq> None
         \<or> (\<exists>t. task_of s i = Some t \<and> tk_target_node t' = tk_target_node t)))
   \<and> (\<forall>i a. hm_get (hs_attachments s') i = Some a \<longrightarrow>
        kind_ok pol (at_kind a) \<or> hm_get (hs_attachments s) i = Some a)
   \<and> (\<forall>i. node_of s' i \<noteq> None \<longleftrightarrow> node_of s i \<noteq> None)
   \<and> (\<forall>i. hm_get (hs_goals s') i = hm_get (hs_goals s) i)"

lemma within_policy_same: "same_hive s' s \<Longrightarrow> within_policy pol s s'"
  by (simp add: within_policy_def same_hive_lookups)

lemma within_policy_trans:
  assumes "within_policy pol a b" "within_policy pol b c"
  shows "within_policy pol a c"
  unfolding within_policy_def
proof (intro conjI allI impI)
  note ab = assms(1) [unfolded within_policy_def]
  note bc = assms(2) [unfolded within_policy_def]
  fix i t' x
  show "node_of c i \<noteq> None \<longleftrightarrow> node_of a i \<noteq> None" using ab bc by metis
  show "hm_get (hs_goals c) i = hm_get (hs_goals a) i" using ab bc by simp
  show "kind_ok pol (at_kind x) \<or> hm_get (hs_attachments a) i = Some x"
    if "hm_get (hs_attachments c) i = Some x" using ab bc that by metis
  assume t': "task_of c i = Some t'"
  with bc have p: "payload_ok pol (tk_payload t') \<or> (\<exists>t. task_of b i = Some t \<and> tk_payload t' = tk_payload t)"
    and n: "node_of b (tk_target_node t') \<noteq> None
      \<or> (\<exists>t. task_of b i = Some t \<and> tk_target_node t' = tk_target_node t)" by blast+
  from p show "payload_ok pol (tk_payload t') \<or> (\<exists>t. task_of a i = Some t \<and> tk_payload t' = tk_payload t)"
    using ab by metis
  from n show "node_of a (tk_target_node t') \<noteq> None
      \<or> (\<exists>t. task_of a i = Some t \<and> tk_target_node t' = tk_target_node t)"
    using ab by metis
qed

lemma node_of_apply:
  "node_of (apply_command now c s) i =
     (case c of
        RegisterNode n \<Rightarrow> if i = ns_node_id n then Some (forget_heartbeat n) else node_of s i
      | UpdateNodeHealth j h m \<Rightarrow>
          if i = j then map_option (\<lambda>n. forget_heartbeat (set_node_health h m 0 n)) (node_of s i) else node_of s i
      | RemoveNode j \<Rightarrow> if i = j then None else node_of s i
      | _ \<Rightarrow> node_of s i)"
  by (cases c) (auto simp: node_of_def option.map_comp comp_def set_node_health_def forget_heartbeat_def
      intro!: option.map_cong)

lemma command_frame:
  "hs_attachments (apply_command now (PutTask t) s) = hs_attachments s"
  "hs_goals (apply_command now (PutTask t) s) = hs_goals s"
  "hs_attachments (apply_command now (UpdateTaskStatus i st r) s) = hs_attachments s"
  "hs_goals (apply_command now (UpdateTaskStatus i st r) s) = hs_goals s"
  "hs_attachments (apply_command now (UpdateNodeHealth n h m) s) = hs_attachments s"
  "hs_goals (apply_command now (UpdateNodeHealth n h m) s) = hs_goals s"
  "hs_attachments (apply_command now (RegisterNode x) s) = hs_attachments s"
  "hs_goals (apply_command now (RegisterNode x) s) = hs_goals s"
  by simp_all

text \<open>An action the state admits keeps within the policy.\<close>

lemma admitted_within_policy:
  assumes "hive_wf s" "state_verdict pol a s = Ok ()"
    and "same_hive s' (apply_log (map (Pair 0) (action_commands uuid t1 t2 a s)) s)"
  shows "within_policy pol s s'"
proof -
  let ?s = "apply_log (map (Pair 0) (action_commands uuid t1 t2 a s)) s"
  have ok: "admissible pol (to_cluster_view None 0 s) a" using assms(2) by (simp add: state_verdict_Ok)
  note ids = state_ids [OF assms(1)]
  have "within_policy pol s ?s"
  proof (cases a)
    case (ScheduleTask p n pr)
    with ok have "node_of s n \<noteq> None" "payload_ok pol p" by (simp_all add: ids)
    then show ?thesis
      by (auto simp: ScheduleTask within_policy_def task_of_apply node_of_apply command_frame new_task_def
          simp del: apply_command.simps split: if_splits)
  next
    case (RebalanceTask i n)
    with ok have n: "node_of s n \<noteq> None" by (simp add: ids)
    show ?thesis
    proof (cases "hm_get (hs_tasks s) i")
      case None
      then show ?thesis by (simp add: RebalanceTask within_policy_def)
    next
      case (Some t)
      then have id: "tk_id t = i" by (intro keyed_key [OF hive_wf_keyed(2) [OF assms(1)]])
      have old: "task_of s i = Some (forget_updated t)" by (simp add: task_of_def Some)
      show ?thesis
        using n old id
        by (auto simp: RebalanceTask Some within_policy_def task_of_apply node_of_apply command_frame moved_task_def
            simp del: apply_command.simps split: if_splits)
    qed
  next
    case (CancelTask i)
    then show ?thesis
      by (auto simp: within_policy_def task_of_apply node_of_apply command_frame simp del: apply_command.simps split: if_splits)
  next
    case (MarkNodeDegraded i r)
    then show ?thesis
      by (auto simp: within_policy_def task_of_apply node_of_apply command_frame simp del: apply_command.simps split: if_splits)
  next
    case (CreateAttachment n k cs)
    with ok show ?thesis
      by (auto simp: within_policy_def new_attachment_def task_of_def node_of_def split: if_splits)
  next
    case (RemoveAttachment i)
    then show ?thesis
      by (auto simp: within_policy_def task_of_def node_of_def split: if_splits)
  qed (simp_all add: within_policy_def)
  then show ?thesis using within_policy_same [OF assms(3)] by (rule within_policy_trans)
qed

text \<open>What one round of the loop does to the tracker, as operations of \<open>Tracker\<close>.\<close>

definition progress_ops :: "act_env \<Rightarrow> 'j BrainAction \<Rightarrow> bool \<Rightarrow> string option \<Rightarrow> 'j tracker_op list" where
  "progress_ops e a completed msg =
     (case extract_goal_id a of
        Some g \<Rightarrow> [Progress (ae_p0 e) (ae_p1 e) (ae_p2 e) g completed msg] | None \<Rightarrow> [])"

definition round_ops :: "act_env \<Rightarrow> 'j BrainAction \<Rightarrow> exec_error + unit \<Rightarrow> 'j tracker_op list" where
  "round_ops e a r =
     [Track (ae_id e) (ae_tracked e) a, Start (ae_id e)]
     @ (case r of
          Inr _ \<Rightarrow> Complete (ae_id e) None (ae_done e) # progress_ops e a True None
        | Inl err \<Rightarrow> Fail (ae_id e) (Some (exec_error_text err)) (ae_done e)
            # progress_ops e a False (Some (exec_error_text err)))"

lemma plan_step_skip:
  "has_similar_pending a tr \<or> is_recently_failed a fs \<Longrightarrow> plan_step fmt R pol fs e a (tr, w) = (tr, w)"
  by (auto simp: plan_step_def)

lemma note_progress_ops:
  "note_progress fmt e (extract_goal_id a) completed msg tr = tracker_run fmt (progress_ops e a completed msg) tr"
  by (simp add: note_progress_def progress_ops_def split: option.split)

lemma plan_step_act:
  assumes "\<not> has_similar_pending a tr" "\<not> is_recently_failed a fs"
    and "execute R pol (ae_uuid e) (ae_t1 e) (ae_t2 e) a w = (r, w')"
  shows "plan_step fmt R pol fs e a (tr, w) = (tracker_run fmt (round_ops e a r) tr, w')"
  using assms
  by (cases r) (simp_all add: plan_step_def round_ops_def note_progress_ops tracker_run_append
      track_action_def Let_def split: prod.split)

lemma plan_step_cases:
  obtains (skipped) "has_similar_pending a tr \<or> is_recently_failed a fs"
      "plan_step fmt R pol fs e a (tr, w) = (tr, w)"
  | (acted) r w' where "\<not> has_similar_pending a tr" "\<not> is_recently_failed a fs"
      "execute R pol (ae_uuid e) (ae_t1 e) (ae_t2 e) a w = (r, w')"
      "plan_step fmt R pol fs e a (tr, w) = (tracker_run fmt (round_ops e a r) tr, w')"
proof (cases "has_similar_pending a tr \<or> is_recently_failed a fs")
  case True
  show thesis by (rule skipped [OF True plan_step_skip [OF True]])
next
  case False
  obtain r w' where "execute R pol (ae_uuid e) (ae_t1 e) (ae_t2 e) a w = (r, w')" by fastforce
  with False show thesis using acted [OF _ _ _ plan_step_act] by blast
qed

text \<open>A tick: idle, failed to plan, or a plan carried out.\<close>

lemma planner_tick_cases:
  obtains (follower) w1 where "rp_is_leader R w = (False, w1)"
      "planner_tick fmt R pol B reg e (tr, w) = (cleanup_stale (pe_now e) tr, w1)"
  | (no_goals) w1 v w2 where "rp_is_leader R w = (True, w1)" "rp_snapshot R w1 = (v, w2)" "cv_goals v = []"
      "planner_tick fmt R pol B reg e (tr, w) = (cleanup_stale (pe_now e) tr, w2)"
  | (no_plan) w1 v w2 err w3 where "rp_is_leader R w = (True, w1)" "rp_snapshot R w1 = (v, w2)" "cv_goals v \<noteq> []"
      "br_plan B (cv_goals v) v (registry_list reg) w2 = (Err err, w3)"
      "planner_tick fmt R pol B reg e (tr, w) = (cleanup_stale (pe_now e) tr, w3)"
  | (planned) w1 v w2 actions w3 where "rp_is_leader R w = (True, w1)" "rp_snapshot R w1 = (v, w2)" "cv_goals v \<noteq> []"
      "br_plan B (cv_goals v) v (registry_list reg) w2 = (Ok actions, w3)"
      "planner_tick fmt R pol B reg e (tr, w) =
         plan_steps fmt R pol (get_recent_failures 10 (cleanup_stale (pe_now e) tr)) (pe_acts e) 0 actions
           (cleanup_stale (pe_now e) tr, w3)"
proof -
  obtain leads w1 where l: "rp_is_leader R w = (leads, w1)" by fastforce
  obtain v w2 where v: "rp_snapshot R w1 = (v, w2)" by fastforce
  obtain q w3 where q: "br_plan B (cv_goals v) v (registry_list reg) w2 = (q, w3)" by fastforce
  show thesis
  proof (cases leads)
    case False
    with l show thesis using follower by (simp add: planner_tick_def)
  next
    case True
    show thesis
    proof (cases "cv_goals v = []")
      case goals: True
      with True l v show thesis using no_goals by (simp add: planner_tick_def)
    next
      case goals: False
      with True l v q show thesis using no_plan planned by (cases q) (simp_all add: planner_tick_def Let_def)
    qed
  qed
qed

locale planning = quiet_replicator R hive
  for R :: "('j, 'w) replicator_api" and hive :: "'w \<Rightarrow> 'j HiveState" +
  fixes B :: "('j, 'w) brain_api"
  assumes plan_quiet: "br_plan B goals cluster attachments w = (r, w') \<Longrightarrow> evolves [] (hive w) (hive w')"
begin

lemma step_within:
  assumes "hive_wf (hive w)" "plan_step fmt R pol fs e a (tr, w) = (tr', w')"
  shows "hive_wf (hive w') \<and> within_policy pol (hive w) (hive w')"
proof (cases rule: plan_step_cases [of a tr fs fmt R pol e w])
  case skipped
  then show ?thesis using assms by (simp add: within_policy_same same_hive_def)
next
  case (acted r w1)
  then have "w1 = w'" using assms(2) by simp
  with execute_quiet_any [OF acted(3) assms(1)]
  have "evolves [] (hive w) (hive w') \<or> state_verdict pol a (hive w) = Ok ()
      \<and> evolves (action_commands (ae_uuid e) (ae_t1 e) (ae_t2 e) a (hive w)) (hive w) (hive w')" by simp
  then show ?thesis
    using evolves_wf assms(1) within_policy_same evolves_none_same evolves_same
      admitted_within_policy [OF assms(1)] by metis
qed

lemma steps_within:
  "hive_wf (hive w) \<Longrightarrow> plan_steps fmt R pol fs envs n as (tr, w) = (tr', w') \<Longrightarrow>
     hive_wf (hive w') \<and> within_policy pol (hive w) (hive w')"
proof (induction as arbitrary: n tr w)
  case Nil
  then show ?case by (simp add: within_policy_same same_hive_def)
next
  case (Cons a as)
  obtain tr1 w1 where s: "plan_step fmt R pol fs (envs n) a (tr, w) = (tr1, w1)" by fastforce
  with Cons.prems(2) have "plan_steps fmt R pol fs envs (Suc n) as (tr1, w1) = (tr', w')" by simp
  from Cons.IH [OF _ this] step_within [OF Cons.prems(1) s] show ?case
    using within_policy_trans by blast
qed

lemma tick_within:
  assumes "hive_wf (hive w)" "planner_tick fmt R pol B reg e (tr, w) = (tr', w')"
  shows "hive_wf (hive w') \<and> within_policy pol (hive w) (hive w')"
proof -
  have quiet: "hive_wf (hive w2) \<and> within_policy pol (hive w1) (hive w2)"
    if "hive_wf (hive w1)" "evolves [] (hive w1) (hive w2)" for w1 w2
    using that evolves_wf within_policy_same evolves_none_same by metis
  note trans = evolves_trans [where cs = "[]" and ds = "[]", simplified]
  show ?thesis
  proof (cases rule: planner_tick_cases [of R w fmt pol B reg e tr])
    case (follower w1)
    then show ?thesis using quiet [OF assms(1) leader_quiet] assms(2) by auto
  next
    case (no_goals w1 v w2)
    then have "evolves [] (hive w) (hive w2)" using trans leader_quiet snapshot_quiet by blast
    with no_goals assms(2) show ?thesis using quiet [OF assms(1)] by auto
  next
    case (no_plan w1 v w2 err w3)
    then have "evolves [] (hive w) (hive w3)" using trans leader_quiet snapshot_quiet plan_quiet by blast
    with no_plan assms(2) show ?thesis using quiet [OF assms(1)] by auto
  next
    case (planned w1 v w2 actions w3)
    then have "evolves [] (hive w) (hive w3)" using trans leader_quiet snapshot_quiet plan_quiet by blast
    note q = quiet [OF assms(1) this]
    have "plan_steps fmt R pol (get_recent_failures 10 (cleanup_stale (pe_now e) tr)) (pe_acts e) 0 actions
        (cleanup_stale (pe_now e) tr, w3) = (tr', w')" using planned(5) assms(2) by simp
    from steps_within [OF _ this] q show ?thesis using within_policy_trans by blast
  qed
qed

lemma run_within:
  "hive_wf (hive w) \<Longrightarrow> planner_run fmt R pol B reg es (tr, w) = (tr', w') \<Longrightarrow>
     hive_wf (hive w') \<and> within_policy pol (hive w) (hive w')"
proof (induction es arbitrary: tr w)
  case Nil
  then show ?case by (simp add: within_policy_same same_hive_def)
next
  case (Cons e es)
  obtain tr1 w1 where s: "planner_tick fmt R pol B reg e (tr, w) = (tr1, w1)" by fastforce
  with Cons.prems(2) have "planner_run fmt R pol B reg es (tr1, w1) = (tr', w')" by simp
  from Cons.IH [OF _ this] tick_within [OF Cons.prems(1) s] show ?case
    using within_policy_trans by blast
qed

end

section \<open>The tracker under the planner\<close>

text \<open>Operations that are not about the action \<open>i\<close>.\<close>

fun spares :: "string \<Rightarrow> 'j tracker_op \<Rightarrow> bool" where
  "spares i (Track j _ _) \<longleftrightarrow> j \<noteq> i"
| "spares i (Start j) \<longleftrightarrow> j \<noteq> i"
| "spares i (Complete j _ _) \<longleftrightarrow> j \<noteq> i"
| "spares i (Fail j _ _) \<longleftrightarrow> j \<noteq> i"
| "spares i (Cleanup _) \<longleftrightarrow> False"
| "spares i (Progress _ _ _ _ _ _) \<longleftrightarrow> True"

lemma step_spares: "spares i op \<Longrightarrow> hm_get (tr_actions (tracker_step fmt op tr)) i = hm_get (tr_actions tr) i"
  by (cases op) (auto simp: track_action_def mark_executing_def mark_completed_def mark_failed_def
      update_goal_progress_def Let_def split: option.split)

lemma run_spares:
  "list_all (spares i) ops \<Longrightarrow> hm_get (tr_actions (tracker_run fmt ops tr)) i = hm_get (tr_actions tr) i"
  by (induction ops arbitrary: tr) (simp_all add: step_spares)

lemma round_spares: "ae_id e \<noteq> i \<Longrightarrow> list_all (spares i) (round_ops e a r)"
  by (simp add: round_ops_def progress_ops_def split: sum.split option.split)

lemma progress_run_frame:
  "tr_actions (tracker_run fmt (progress_ops e a c m) tr) = tr_actions tr"
  "tr_action_history (tracker_run fmt (progress_ops e a c m) tr) = tr_action_history tr"
  by (simp_all add: progress_ops_def update_goal_progress_def Let_def split: option.split)

text \<open>The action of a round, and what the round leaves of it.\<close>

definition fresh_action :: "act_env \<Rightarrow> 'j BrainAction \<Rightarrow> 'j TrackedAction" where
  "fresh_action e a = \<lparr>ta_id = ae_id e, ta_action = a, ta_proposed_at = ae_tracked e,
     ta_status = ActProposed, ta_result = None, ta_retry_count = 0\<rparr>"

lemma round_succeeded:
  "hm_get (tr_actions (tracker_run fmt (round_ops e a (Inr u)) tr)) j =
     (if j = ae_id e then None else hm_get (tr_actions tr) j)"
  "tr_action_history (tracker_run fmt (round_ops e a (Inr u)) tr) =
     trim_history (tr_max_history tr) (tr_action_history tr @ [(fresh_action e a)\<lparr>ta_status := ActCompleted,
       ta_result := Some \<lparr>ar_success = True, ar_message = None, ar_completed_at = ae_done e\<rparr>\<rparr>])"
  by (simp_all add: round_ops_def progress_run_frame track_action_def mark_executing_def mark_completed_def
      fresh_action_def Let_def)

lemma round_failed:
  assumes "1 < tr_max_retries tr"
  shows "hm_get (tr_actions (tracker_run fmt (round_ops e a (Inl err)) tr)) j =
     (if j = ae_id e then Some ((fresh_action e a)\<lparr>ta_retry_count := 1\<rparr>) else hm_get (tr_actions tr) j)"
  "tr_action_history (tracker_run fmt (round_ops e a (Inl err)) tr) = tr_action_history tr"
proof -
  have "\<not> tr_max_retries tr \<le> 1" using assms by (simp add: not_le)
  then show "hm_get (tr_actions (tracker_run fmt (round_ops e a (Inl err)) tr)) j =
     (if j = ae_id e then Some ((fresh_action e a)\<lparr>ta_retry_count := 1\<rparr>) else hm_get (tr_actions tr) j)"
    "tr_action_history (tracker_run fmt (round_ops e a (Inl err)) tr) = tr_action_history tr"
    by (simp_all add: round_ops_def progress_run_frame track_action_def mark_executing_def
        mark_failed_def fresh_action_def Let_def)
qed

text \<open>An entry that waits for a retry stays, whatever the planner does with other actions.\<close>

definition waits :: "string \<Rightarrow> 'j TrackedAction \<Rightarrow> 'j ActionTracker \<Rightarrow> bool" where
  "waits i x tr \<longleftrightarrow> tracker_wf tr \<and> hm_get (tr_actions tr) i = Some x \<and> ta_status x = ActProposed"

lemma waits_cleanup: "waits i x tr \<Longrightarrow> waits i x (cleanup_stale now tr)"
  using tracker_wf_step [of tr _ "Cleanup now"] by (simp add: waits_def cleanup_stale_get is_stale_def)

lemma waits_step:
  assumes "waits i x tr" "ae_id e \<noteq> i" "plan_step fmt R pol fs e a (tr, w) = (tr', w')"
  shows "waits i x tr'"
proof (cases rule: plan_step_cases [of a tr fs fmt R pol e w])
  case (acted r w1)
  then have tr': "tr' = tracker_run fmt (round_ops e a r) tr" using assms(3) by simp
  have "hm_get (tr_actions tr') i = hm_get (tr_actions tr) i"
    unfolding tr' by (rule run_spares [OF round_spares [OF assms(2)]])
  moreover have "tracker_wf tr'" unfolding tr' using assms(1) by (simp add: waits_def tracker_wf_run)
  ultimately show ?thesis using assms(1) by (simp add: waits_def)
qed (use assms in simp)

lemma waits_steps:
  "waits i x tr \<Longrightarrow> \<forall>n. ae_id (envs n) \<noteq> i \<Longrightarrow> plan_steps fmt R pol fs envs k as (tr, w) = (tr', w') \<Longrightarrow>
     waits i x tr'"
proof (induction as arbitrary: k tr w)
  case (Cons a as)
  obtain tr1 w1 where s: "plan_step fmt R pol fs (envs k) a (tr, w) = (tr1, w1)" by fastforce
  with Cons.prems(3) have "plan_steps fmt R pol fs envs (Suc k) as (tr1, w1) = (tr', w')" by simp
  with Cons.IH waits_step [OF Cons.prems(1) _ s] Cons.prems(2) show ?case by blast
qed simp

lemma waits_tick:
  assumes "waits i x tr" "\<forall>n. ae_id (pe_acts e n) \<noteq> i" "planner_tick fmt R pol B reg e (tr, w) = (tr', w')"
  shows "waits i x tr'"
  using waits_cleanup [OF assms(1), of "pe_now e"] assms(3)
proof (cases rule: planner_tick_cases [of R w fmt pol B reg e tr])
  case (planned w1 v w2 actions w3)
  then have "plan_steps fmt R pol (get_recent_failures 10 (cleanup_stale (pe_now e) tr)) (pe_acts e) 0 actions
      (cleanup_stale (pe_now e) tr, w3) = (tr', w')" using assms(3) by simp
  then show ?thesis by (rule waits_steps [OF waits_cleanup [OF assms(1)] assms(2)])
qed simp_all

lemma waits_run:
  "waits i x tr \<Longrightarrow> \<forall>e \<in> set es. \<forall>n. ae_id (pe_acts e n) \<noteq> i \<Longrightarrow>
     planner_run fmt R pol B reg es (tr, w) = (tr', w') \<Longrightarrow> waits i x tr'"
proof (induction es arbitrary: tr w)
  case (Cons e es)
  obtain tr1 w1 where s: "planner_tick fmt R pol B reg e (tr, w) = (tr1, w1)" by fastforce
  with Cons.prems(3) have "planner_run fmt R pol B reg es (tr1, w1) = (tr', w')" by simp
  with Cons.IH waits_tick [OF Cons.prems(1) _ s] Cons.prems(2) show ?case by simp
qed simp

lemma waits_blocks:
  "waits i x tr \<Longrightarrow> is_similar_action (ta_action x) b \<Longrightarrow> has_similar_pending b tr"
proof -
  assume x: "waits i x tr" "is_similar_action (ta_action x) b"
  then have "hm_ok (tr_actions tr)" "hm_get (tr_actions tr) i = Some x"
    by (simp_all add: waits_def tracker_wf_ok)
  then have "x \<in> set (hm_values (tr_actions tr))" by (auto simp: hm_values_get)
  with x(2) show ?thesis by (auto simp: has_similar_pending_def list_ex_iff)
qed

text \<open>What the planner loop leaves in a tracker it alone uses.\<close>

definition planner_tracker :: "'j ActionTracker \<Rightarrow> bool" where
  "planner_tracker tr \<longleftrightarrow> tracker_wf tr \<and> tr_max_retries tr = 3
     \<and> (\<forall>i x. hm_get (tr_actions tr) i = Some x \<longrightarrow> ta_status x = ActProposed \<and> ta_retry_count x = 1)
     \<and> (\<forall>x \<in> set (tr_action_history tr). ta_status x = ActCompleted)"

lemma planner_tracker_new: "planner_tracker tracker_new"
  by (simp add: planner_tracker_def) (simp add: tracker_new_def)

lemma planner_tracker_cleanup:
  assumes "planner_tracker tr"
  shows "cleanup_stale now tr = tr"
proof -
  have wf: "tracker_wf tr" using assms by (simp add: planner_tracker_def)
  have "\<not> is_stale now t a" if "(i, a) \<in> set (tr_actions tr)" for t i a
    using that assms hm.items_get [OF tracker_wf_ok [OF wf]]
    by (simp add: planner_tracker_def is_stale_def)
  then have "filter (\<lambda>(_, a). is_stale now (tr_action_timeout tr) a) (tr_actions tr) = []"
    by (auto simp: filter_empty_conv)
  then show ?thesis by (simp add: cleanup_stale_def Let_def)
qed

lemma planner_tracker_step:
  assumes "planner_tracker tr" "plan_step fmt R pol fs e a (tr, w) = (tr', w')"
  shows "planner_tracker tr'"
proof (cases rule: plan_step_cases [of a tr fs fmt R pol e w])
  case (acted r w1)
  then have tr': "tr' = tracker_run fmt (round_ops e a r) tr" using assms(2) by simp
  have wf: "tracker_wf tr'" "tr_max_retries tr' = 3"
    using assms(1) by (simp_all add: tr' planner_tracker_def tracker_wf_run)
  show ?thesis
  proof (cases r)
    case (Inl err)
    then show ?thesis
      using assms(1) wf round_failed [of tr fmt e a err]
      by (auto simp: tr' planner_tracker_def fresh_action_def split: if_splits)
  next
    case (Inr u)
    have "\<forall>x \<in> set (tr_action_history tr'). ta_status x = ActCompleted"
      using assms(1) set_trim_history by (fastforce simp: tr' Inr round_succeeded planner_tracker_def)
    then show ?thesis
      using assms(1) wf by (auto simp: planner_tracker_def tr' Inr round_succeeded split: if_splits)
  qed
qed (use assms in simp)

lemma planner_tracker_steps:
  "planner_tracker tr \<Longrightarrow> plan_steps fmt R pol fs envs k as (tr, w) = (tr', w') \<Longrightarrow> planner_tracker tr'"
proof (induction as arbitrary: k tr w)
  case (Cons a as)
  obtain tr1 w1 where s: "plan_step fmt R pol fs (envs k) a (tr, w) = (tr1, w1)" by fastforce
  with Cons.prems(2) have "plan_steps fmt R pol fs envs (Suc k) as (tr1, w1) = (tr', w')" by simp
  with Cons.IH planner_tracker_step [OF Cons.prems(1) s] show ?case by blast
qed simp

lemma planner_tracker_tick:
  assumes "planner_tracker tr" "planner_tick fmt R pol B reg e (tr, w) = (tr', w')"
  shows "planner_tracker tr'"
  using assms(2)
proof (cases rule: planner_tick_cases [of R w fmt pol B reg e tr])
  case (planned w1 v w2 actions w3)
  then have "plan_steps fmt R pol (get_recent_failures 10 tr) (pe_acts e) 0 actions (tr, w3) = (tr', w')"
    using assms by (simp add: planner_tracker_cleanup)
  then show ?thesis by (rule planner_tracker_steps [OF assms(1)])
qed (use assms in \<open>simp_all add: planner_tracker_cleanup\<close>)

lemma planner_tracker_run:
  "planner_tracker tr \<Longrightarrow> planner_run fmt R pol B reg es (tr, w) = (tr', w') \<Longrightarrow> planner_tracker tr'"
proof (induction es arbitrary: tr w)
  case (Cons e es)
  obtain tr1 w1 where s: "planner_tick fmt R pol B reg e (tr, w) = (tr1, w1)" by fastforce
  with Cons.prems(2) have "planner_run fmt R pol B reg es (tr1, w1) = (tr', w')" by simp
  with Cons.IH planner_tracker_tick [OF Cons.prems(1) s] show ?case by blast
qed simp

lemma planner_tracker_failures: "planner_tracker tr \<Longrightarrow> get_recent_failures k tr = []"
  unfolding planner_tracker_def get_recent_failures_def by (auto simp: filter_empty_conv)

context lone_openraft
begin

lemma raft_quiet: "quiet_replicator (raft_replicator A n) (\<lambda>w. ra_state A (rr_raft w))"
  by (rule quiet_replicator_axioms)

end

section \<open>A node on which the daemon runs\<close>

text \<open>The one-node cluster with one node, one goal and some tasks, and a model with a fixed answer.\<close>

definition live_hive :: "'j Task list \<Rightarrow> 'j HiveState" where
  "live_hive ts = \<lparr>hs_nodes = [(''node-1'', demo_node)], hs_tasks = map (\<lambda>t. (tk_id t, t)) ts,
     hs_attachments = [], hs_goals = [(''g'', demo_goal True)], hs_last_applied_index = 0\<rparr>"

definition scripted_env :: "'j PlannerOutput \<Rightarrow> ('j, 'w) planner_env" where
  "scripted_env out =
     \<lparr>pv_request = (\<lambda>config system user w. (Ok [Some ''answer''], w)), pv_render = (\<lambda>i. Ok ''input''),
      pv_parse = (\<lambda>s. Ok out), pv_debug_kind = (\<lambda>k. ''kind'')\<rparr>"

lemma live_hive_wf: "distinct (map tk_id ts) \<Longrightarrow> hive_wf (live_hive ts)"
  by (auto simp: hive_wf_def live_hive_def keyed_def hm_ok_def comp_def demo_node_def demo_goal_def)

lemma live_hive_goals [simp]: "hm_values (hs_goals (live_hive ts)) = [demo_goal True]"
  by (simp add: live_hive_def hm_values_def)

lemma scripted_chat: "llm_chat (pv_request (scripted_env out)) config prompt msg w = (Ok ''answer'', w)"
  by (simp add: llm_chat_def scripted_env_def)

lemma scripted_plan:
  "llm_plan J (scripted_env out) config goals v atts w =
     (if \<forall>g \<in> set goals. \<not> gl_active g then (Ok [NoOp ''No active goals''], w)
      else (Ok (parse_actions J (po_actions out)), w))"
  unfolding llm_plan_def scripted_chat by (auto simp: filter_empty_conv scripted_env_def)

interpretation scripted: planning "raft_replicator solo_raft n" solo_hive "llm_brain J (scripted_env out) config"
  by (intro planning.intro solo_quiet_law planning_axioms.intro)
    (auto simp: llm_brain_def scripted_plan split: if_splits)

lemma solo_writable_apply:
  "so_up (rr_raft w) \<Longrightarrow> rp_apply (raft_replicator solo_raft n) c w = (Ok (), solo_commit c w)"
  by simp

lemma solo_is_leader [simp]: "so_up (rr_raft w) \<Longrightarrow> raft_is_leader solo_raft n w = (n = 1, w)"
  by (simp add: raft_is_leader_def on_raft_def)

lemma solo_keeps_up: "keeps_up (raft_replicator solo_raft n) (idle_os r) (\<lambda>w. so_up (rr_raft w))"
  by (simp add: keeps_up_def idle_os_def)

definition unit_json :: "unit json_api" where
  "unit_json = \<lparr>js_get = (\<lambda>j k. None), js_as_str = (\<lambda>j. None), js_as_u64 = (\<lambda>j. None), js_obj = (\<lambda>kvs. ()),
     js_str = (\<lambda>s. ()), js_u64 = (\<lambda>n. ()), js_bool = (\<lambda>b. ()), js_i32 = (\<lambda>i. ()), js_null = ()\<rparr>"

section \<open>Properties\<close>

text \<open>Two node ids without NUL bytes get the same Raft id exactly when their first eight bytes
  agree: ids that differ later, like \<open>node-0001\<close> and \<open>node-0002\<close>, collide.\<close>

theorem raft_ids_are_prefixes:
  assumes "CHR 0x00 \<notin> set a" "CHR 0x00 \<notin> set b"
  shows "raft_node_id a = raft_node_id b \<longleftrightarrow> take 8 a = take 8 b"
proof -
  have z: "0 \<notin> set (as_bytes (take 8 a))" "0 \<notin> set (as_bytes (take 8 b))"
    using assms in_set_takeD [of "CHR 0x00" 8] by (auto simp: zero_byte)
  have len: "length (as_bytes (take 8 s) @ replicate (8 - length s) 0) = 8" for s by simp
  have "raft_node_id a = raft_node_id b \<longleftrightarrow>
      as_bytes (take 8 a) @ replicate (8 - length a) 0 = as_bytes (take 8 b) @ replicate (8 - length b) 0"
    unfolding raft_node_id_eq take_as_bytes by (rule from_le_bytes_inject [OF len len])
  also have "\<dots> \<longleftrightarrow> take 8 a = take 8 b \<and> 8 - length a = 8 - length b"
    by (simp only: padded_inject [OF z] as_bytes_inject)
  also have "\<dots> \<longleftrightarrow> take 8 a = take 8 b"
  proof -
    have "min (length a) 8 = min (length b) 8" if "take 8 a = take 8 b"
      using that by (metis length_take)
    then show ?thesis by auto
  qed
  finally show ?thesis .
qed

theorem raft_ids_are_prefixes_witness:
  "raft_node_id ''node-0001'' = raft_node_id ''node-0002'' \<and> raft_node_id ''node-1'' \<noteq> raft_node_id ''node-2''"
  using raft_ids_are_prefixes [of "''node-0001''" "''node-0002''"] raft_ids_are_prefixes [of "''node-1''" "''node-2''"]
  by simp

text \<open>C14. One tick of the task runner carries out this node's pending tasks, when every write of the
  node succeeds (\<open>keeps_up\<close>) and nobody else writes (\<open>quiet_env\<close>). The world after the tick is the
  world after these steps and no others: each task that is pending on this node at the tick's
  snapshot is, one after the other, marked as running, its payload run once by \<open>run_payload\<close>, and
  the status and result of that very outcome written. Afterwards each of them has the status and
  the result of its outcome, and every other task is as it was.\<close>

theorem task_runner_carries_out_pending:
  assumes "quiet_env R hive S" "keeps_up R S up" "up w" "hive_wf (hive w)"
  shows "\<exists>xs. carried J S R xs (snd (rp_snapshot R w)) (task_runner_tick J S R n w)
    \<and> distinct (map (\<lambda>x. tk_id (fst x)) xs)
    \<and> (\<forall>i t. task_of (hive w) i = Some t \<and> tk_target_node t = n \<and> tk_status t = Pending
         \<longleftrightarrow> (\<exists>(x, r) \<in> set xs. tk_id x = i \<and> forget_updated x = t))
    \<and> (\<forall>(x, r) \<in> set xs. task_of (hive (task_runner_tick J S R n w)) (tk_id x) = Some (ended_as x r))
    \<and> (\<forall>i. (\<forall>x \<in> set xs. tk_id (fst x) \<noteq> i) \<longrightarrow> task_of (hive (task_runner_tick J S R n w)) i = task_of (hive w) i)"
  by (rule quiet_env.task_runner_carries [OF assms])

definition waiting_task :: "unit Task" where
  "waiting_task = (demo_task ''a'' Pending)\<lparr>tk_payload := Echo ''hi''\<rparr>"

theorem task_runner_carries_out_pending_witness:
  "task_of (solo_hive (task_runner_tick unit_json (idle_os ProcElapsed) solo_replicator ''node-1''
     (solo_world (live_hive [waiting_task])))) ''a''
   = Some ((forget_updated waiting_task)\<lparr>tk_status := Completed, tk_result := Some ()\<rparr>)"
proof -
  let ?w = "solo_world (live_hive [waiting_task])"
  have wf: "hive_wf (solo_hive ?w)" by (simp add: live_hive_wf)
  have t: "task_of (solo_hive ?w) ''a'' = Some (forget_updated waiting_task) \<and> tk_target_node (forget_updated waiting_task) = ''node-1''
      \<and> tk_status (forget_updated waiting_task) = Pending"
    by (simp add: task_of_def live_hive_def hm_get_def waiting_task_def demo_task_def)
  from task_runner_carries_out_pending [where J = unit_json and n = "''node-1''" and R = solo_replicator
      and S = "idle_os ProcElapsed", OF solo_env_law solo_keeps_up _ wf]
  obtain xs where xs: "\<forall>i t. task_of (solo_hive ?w) i = Some t \<and> tk_target_node t = ''node-1'' \<and> tk_status t = Pending
         \<longleftrightarrow> (\<exists>(x, r) \<in> set xs. tk_id x = i \<and> forget_updated x = t)"
    and e: "\<forall>(x, r) \<in> set xs. task_of (solo_hive (task_runner_tick unit_json (idle_os ProcElapsed) solo_replicator ''node-1'' ?w))
         (tk_id x) = Some (ended_as x r)"
    and c: "carried unit_json (idle_os ProcElapsed) solo_replicator xs (snd (rp_snapshot solo_replicator ?w))
         (task_runner_tick unit_json (idle_os ProcElapsed) solo_replicator ''node-1'' ?w)" by auto
  from xs t obtain x r where x: "(x, r) \<in> set xs" "tk_id x = ''a''" "forget_updated x = forget_updated waiting_task" by blast
  then have "tk_payload x = Echo ''hi''"
    using forget_updated_keeps(4) [of x] forget_updated_keeps(4) [of waiting_task] by (simp add: waiting_task_def)
  with carried_ran [OF c x(1)] have "r = Ok ()" by auto
  with e x show ?thesis by (auto simp: ended_as_def)
qed


text \<open>C2. The planner loop stays within the policy. Whatever the brain proposes, in any number of
  ticks and with nobody else writing, a task ends up with a payload it had or one the policy
  permits, on the node it had or on a node of the cluster; attachments are as they were or
  permitted; no node or goal is added or removed.\<close>

theorem planner_respects_policy:
  assumes "planning R hive B" "hive_wf (hive w)"
    and "planner_run fmt R pol B reg es (tr, w) = (tr', w')"
  shows "within_policy pol (hive w) (hive w')"
  using planning.run_within [OF assms] by blast

definition echo_output :: "json PlannerOutput" where
  "echo_output = \<lparr>po_reasoning = ''r'', po_actions =
     [render_action json_reference (ScheduleTask (Echo ''hi'') ''node-1'' 5)]\<rparr>"

definition demo_act :: "nat \<Rightarrow> act_env" where
  "demo_act n = \<lparr>ae_id = replicate n (CHR ''x'') @ ''act'', ae_tracked = 0, ae_uuid = replicate n (CHR ''x'') @ ''task'', ae_t1 = 1, ae_t2 = 2,
     ae_done = 3, ae_p0 = 4, ae_p1 = 5, ae_p2 = 6\<rparr>"

lemma validate_live_view:
  "validate pol (ScheduleTask p ''node-1'' k) (to_cluster_view l t (live_hive [])) = Ok ()
     \<longleftrightarrow> payload_ok pol p \<and> 0 < ep_max_concurrent_tasks_per_node pol"
  by (simp add: validate_Ok node_ids_def live_hive_def hm_values_def demo_node_def active_tasks_def)

text \<open>A tick of the leader with this plan schedules the task.\<close>

lemma echo_tick:
  fixes tr :: "json ActionTracker"
  assumes "tr = tracker_new"
  shows "\<exists>tr' w'. planner_tick fmt solo_replicator execution_policy_default
       (llm_brain json_reference (scripted_env echo_output) llm_config_default) (registry_new ''node-1'')
       \<lparr>pe_now = 0, pe_acts = demo_act\<rparr> (tr, solo_world (live_hive [])) = (tr', w')
     \<and> task_of (solo_hive w') ''task'' =
         Some (forget_updated (new_task ''task'' 1 2 (Echo ''hi'') ''node-1'' 5))"
proof -
  let ?a = "ScheduleTask (Echo ''hi'') ''node-1'' 5 :: json BrainAction"
  have plan: "parse_actions json_reference (po_actions echo_output) = [?a]"
    using jref.parse_render_actions [of "[?a]"] by (simp add: echo_output_def)
  have brain: "br_plan (llm_brain json_reference (scripted_env echo_output) llm_config_default)
      (cv_goals (to_cluster_view l t (live_hive []))) v atts w = (Ok [?a], w)" for l t v atts and w :: "json solo rr_world"
    by (simp add: llm_brain_def scripted_plan plan demo_goal_def)
  have ok: "validate execution_policy_default ?a (to_cluster_view l t (live_hive [])) = Ok ()" for l t
    unfolding validate_live_view by (simp add: execution_policy_default_def)
  obtain w1 where run: "execute solo_replicator execution_policy_default ''task'' 1 2 ?a (solo_world (live_hive []))
      = (Ok (), w1)" "w1 = solo_commit (PutTask (new_task ''task'' 1 2 (Echo ''hi'') ''node-1'' 5)) (solo_world (live_hive []))"
    by (simp add: execute_def ok commit_def)
  have idle: "\<not> has_similar_pending ?a tracker_new" "\<not> is_recently_failed ?a []"
    "get_recent_failures 10 tracker_new = ([] :: json TrackedAction list)"
    by (simp_all add: has_similar_pending_def is_recently_failed_def get_recent_failures_def tracker_new_def hm_values_def)
  have envs: "ae_uuid (demo_act 0) = ''task''" "ae_t1 (demo_act 0) = 1" "ae_t2 (demo_act 0) = 2"
    by (simp_all add: demo_act_def)
  have clean: "cleanup_stale 0 tracker_new = (tracker_new :: json ActionTracker)"
    by (rule planner_tracker_cleanup [OF planner_tracker_new])
  have step: "plan_step fmt solo_replicator execution_policy_default [] (demo_act 0) ?a (tracker_new, solo_world (live_hive []))
      = (tracker_run fmt (round_ops (demo_act 0) ?a (Inr ())) tracker_new, w1)"
    by (rule plan_step_act [OF idle(1,2)]) (simp add: envs run(1))
  have tick: "planner_tick fmt solo_replicator execution_policy_default
       (llm_brain json_reference (scripted_env echo_output) llm_config_default) (registry_new ''node-1'')
       \<lparr>pe_now = 0, pe_acts = demo_act\<rparr> (tr, solo_world (live_hive []))
     = (tracker_run fmt (round_ops (demo_act 0) ?a (Inr ())) tracker_new, w1)"
    using brain by (simp add: assms planner_tick_def clean idle(3) step)
  have "task_of (solo_hive w1) ''task'' = Some (forget_updated (new_task ''task'' 1 2 (Echo ''hi'') ''node-1'' 5))"
    by (simp add: run(2) task_of_apply new_task_def del: apply_command.simps)
  with tick show ?thesis by blast
qed

theorem planner_respects_policy_witness:
  "\<exists>tr' w'. planner_run (\<lambda>_. []) solo_replicator execution_policy_default
       (llm_brain json_reference (scripted_env echo_output) llm_config_default) (registry_new ''node-1'')
       [\<lparr>pe_now = 0, pe_acts = demo_act\<rparr>] (tracker_new, solo_world (live_hive [])) = (tr', w')
     \<and> task_of (solo_hive w') ''task'' \<noteq> None
     \<and> within_policy execution_policy_default (live_hive []) (solo_hive w')"
proof -
  obtain tr' w' where run: "planner_run (\<lambda>_. []) solo_replicator execution_policy_default
       (llm_brain json_reference (scripted_env echo_output) llm_config_default) (registry_new ''node-1'')
       [\<lparr>pe_now = 0, pe_acts = demo_act\<rparr>] (tracker_new, solo_world (live_hive [])) = (tr', w')"
    "task_of (solo_hive w') ''task'' \<noteq> None"
    using echo_tick [OF refl, of "\<lambda>_. []"] by auto
  have wf: "hive_wf (solo_hive (solo_world (live_hive ([] :: json Task list))))" by (simp add: live_hive_wf)
  from planner_respects_policy [OF scripted.planning_axioms wf run(1)] run show ?thesis by auto
qed

text \<open>A node that is not the leader, a cluster without goals and a brain that fails each end the
  tick: the world is as the reads left it, and of the tracker only stale actions expire.\<close>

theorem planner_idle:
  assumes "planner_tick fmt R pol B reg e (tr, w) = (tr', w')"
    and "rp_is_leader R w = (leads, w1)" "rp_snapshot R w1 = (v, w2)"
    and "br_plan B (cv_goals v) v (registry_list reg) w2 = (q, w3)"
    and "\<not> leads \<or> cv_goals v = [] \<or> \<not> is_ok q"
  shows "tr' = cleanup_stale (pe_now e) tr \<and> w' = (if \<not> leads then w1 else if cv_goals v = [] then w2 else w3)"
  using assms by (cases q) (auto simp: planner_tick_def Let_def split: if_splits)

theorem planner_idle_witness:
  "planner_tick (\<lambda>_. []) (raft_replicator solo_raft 2) execution_policy_default
       (llm_brain json_reference (scripted_env echo_output) llm_config_default) (registry_new ''node-1'')
       \<lparr>pe_now = 0, pe_acts = demo_act\<rparr> (tracker_new, solo_world (live_hive []))
     = (tracker_new, solo_world (live_hive []))"
proof -
  let ?w = "solo_world (live_hive []) :: json solo rr_world"
  let ?B = "llm_brain json_reference (scripted_env echo_output) llm_config_default"
  obtain tr' w' where t: "planner_tick (\<lambda>_. []) (raft_replicator solo_raft 2) execution_policy_default ?B
      (registry_new ''node-1'') \<lparr>pe_now = 0, pe_acts = demo_act\<rparr> (tracker_new, ?w) = (tr', w')" by fastforce
  have l: "rp_is_leader (raft_replicator solo_raft 2) ?w = (False, ?w)" by simp
  obtain v where v: "rp_snapshot (raft_replicator solo_raft 2) ?w = (v, ?w)" by simp
  obtain q w3 where q: "br_plan ?B (cv_goals v) v (registry_list (registry_new ''node-1'')) ?w = (q, w3)" by fastforce
  from planner_idle [OF t l v q] t show ?thesis
    by (simp add: planner_tracker_cleanup [OF planner_tracker_new])
qed

text \<open>C28. A failed action bars every similar one for good: once a step of the planner has carried out an
  action that fails, whatever ticks follow, as long as identifiers are not drawn twice, a step for an
  action that \<open>is_similar_action\<close> finds similar to it does nothing. That includes the action itself
  exactly when it is of one of the four kinds that are similar to themselves (\<open>deduplicated\<close> in
  \<open>Tracker\<close>); an action of another kind, like an update of the progress of an unknown goal, is
  tried again whenever it is proposed.\<close>

theorem failed_action_bars_similar_ones:
  assumes "tracker_wf tr" "1 < tr_max_retries tr"
    and "\<not> has_similar_pending a tr" "\<not> is_recently_failed a fs"
    and "execute R pol (ae_uuid e) (ae_t1 e) (ae_t2 e) a w = (Err err, w1)"
    and "\<forall>p \<in> set es. \<forall>n. ae_id (pe_acts p n) \<noteq> ae_id e"
    and "planner_run fmt R pol B reg es (plan_step fmt R pol fs e a (tr, w)) = (tr', w')"
    and "is_similar_action a b"
  shows "plan_step fmt R pol fs' e' b (tr', w') = (tr', w')"
proof -
  let ?tr = "tracker_run fmt (round_ops e a (Inl err)) tr" and ?x = "(fresh_action e a)\<lparr>ta_retry_count := 1\<rparr>"
  have s: "plan_step fmt R pol fs e a (tr, w) = (?tr, w1)" by (rule plan_step_act [OF assms(3-5)])
  have "waits (ae_id e) ?x ?tr"
    using assms(1) by (simp add: waits_def tracker_wf_run round_failed(1) [OF assms(2)] fresh_action_def)
  from waits_run [OF this assms(6) assms(7) [unfolded s]]
  have "has_similar_pending b tr'"
    by (rule waits_blocks) (simp add: fresh_action_def assms(8))
  then show ?thesis by (intro plan_step_skip) simp
qed

text \<open>A container is refused by the default policy, and then every other container on the node is skipped.\<close>

theorem failed_action_bars_similar_ones_witness:
  "\<exists>tr' w'. plan_step (\<lambda>_. []) solo_replicator execution_policy_default [] (demo_act 0)
       (ScheduleTask (DockerRun ''img'' []) ''node-1'' 5 :: unit BrainAction) (tracker_new, solo_world (live_hive [])) = (tr', w')
     \<and> plan_step (\<lambda>_. []) solo_replicator execution_policy_default [] (demo_act 1)
       (ScheduleTask (DockerRun ''other'' []) ''node-1'' 9) (tr', w') = (tr', w')"
proof -
  let ?a = "ScheduleTask (DockerRun ''img'' []) ''node-1'' 5 :: unit BrainAction"
  let ?w = "solo_world (live_hive []) :: unit solo rr_world"
  have "is_ok (validate execution_policy_default ?a (to_cluster_view l t (live_hive []))) = False" for l t
    using validate_live_view [of execution_policy_default "DockerRun ''img'' []" 5 l t]
    by (simp add: is_ok_unit execution_policy_default_def)
  then obtain err where err: "validate execution_policy_default ?a
      (to_cluster_view (Some (u64_to_string 1)) 1 (live_hive [])) = Err err"
    by (metis is_ok_simps(2) sum.exhaust)
  have run: "execute solo_replicator execution_policy_default (ae_uuid (demo_act 0)) (ae_t1 (demo_act 0))
      (ae_t2 (demo_act 0)) ?a ?w = (Err (ExecInvalid err), ?w)"
    by (simp add: execute_def err del: One_nat_def)
  have idle: "\<not> has_similar_pending ?a tracker_new" "\<not> is_recently_failed ?a []"
    by (simp_all add: has_similar_pending_def is_recently_failed_def tracker_new_def hm_values_def)
  obtain tr' w' where s: "plan_step (\<lambda>_. []) solo_replicator execution_policy_default [] (demo_act 0) ?a (tracker_new, ?w)
      = (tr', w')" by fastforce
  have max: "1 < tr_max_retries (tracker_new :: unit ActionTracker)" by (simp add: tracker_new_def)
  have none: "\<forall>p \<in> set []. \<forall>n. ae_id (pe_acts p n) \<noteq> ae_id (demo_act 0)" by simp
  have after: "planner_run (\<lambda>_. []) solo_replicator execution_policy_default noop_brain (registry_new ''node-1'') []
      (plan_step (\<lambda>_. []) solo_replicator execution_policy_default [] (demo_act 0) ?a (tracker_new, ?w)) = (tr', w')"
    by (simp add: s)
  have sim: "is_similar_action ?a (ScheduleTask (DockerRun ''other'' []) ''node-1'' 9)" by simp
  from failed_action_bars_similar_ones [OF tracker_wf_new max idle run none after sim] s
  show ?thesis by blast
qed

text \<open>C29. In a tracker the planner loop alone uses, from an empty one on, failures never reach the
  history: after any run every live action is one that failed once and waits, the history holds
  successes only, the list of recent failures is empty and no action is ever stale.\<close>

theorem planner_failures_stay_pending:
  assumes "planner_run fmt R pol B reg es (tracker_new, w) = (tr, w')"
  shows "(\<forall>i x. hm_get (tr_actions tr) i = Some x \<longrightarrow> ta_status x = ActProposed \<and> ta_retry_count x = 1)
    \<and> (\<forall>x \<in> set (tr_action_history tr). ta_status x = ActCompleted)
    \<and> get_recent_failures k tr = [] \<and> cleanup_stale now tr = tr"
proof -
  note p = planner_tracker_run [OF planner_tracker_new assms]
  then show ?thesis
    using planner_tracker_failures planner_tracker_cleanup unfolding planner_tracker_def by blast
qed

theorem planner_failures_stay_pending_witness:
  "\<exists>tr w'. planner_run (\<lambda>_. []) solo_replicator execution_policy_default
       (llm_brain json_reference (scripted_env echo_output) llm_config_default) (registry_new ''node-1'')
       [\<lparr>pe_now = 0, pe_acts = demo_act\<rparr>] (tracker_new, solo_world (live_hive [])) = (tr, w')
     \<and> get_recent_failures 10 tr = []"
proof -
  obtain tr w' where run: "planner_run (\<lambda>_. []) solo_replicator execution_policy_default
       (llm_brain json_reference (scripted_env echo_output) llm_config_default) (registry_new ''node-1'')
       [\<lparr>pe_now = 0, pe_acts = demo_act\<rparr>] (tracker_new, solo_world (live_hive [])) = (tr, w')" by fastforce
  from planner_failures_stay_pending [OF run] run show ?thesis by blast
qed

text \<open>A heartbeat makes the node healthy again with zero load, even if it had been marked as
  degraded, and touches nothing else; a node that was removed stays removed.\<close>

theorem heartbeat_effect:
  assumes "quiet_replicator R hive"
    and "rp_apply R (UpdateNodeHealth n Healthy collect_node_metrics) w = (Ok (), w')"
  shows "node_of (hive (heartbeat_tick R n w)) i =
      (if i = n then map_option (\<lambda>x. forget_heartbeat (set_node_health Healthy collect_node_metrics 0 x)) (node_of (hive w) i)
       else node_of (hive w) i)
    \<and> task_of (hive (heartbeat_tick R n w)) j = task_of (hive w) j
    \<and> hm_get (hs_goals (hive (heartbeat_tick R n w))) k = hm_get (hs_goals (hive w)) k"
proof -
  have "evolves [UpdateNodeHealth n Healthy collect_node_metrics] (hive w) (hive w')"
    using quiet_replicator.apply_quiet [OF assms] .
  from evolves_same [OF this] have "same_hive (hive w') (apply_command 0 (UpdateNodeHealth n Healthy collect_node_metrics) (hive w))"
    by simp
  then show ?thesis
    by (simp add: heartbeat_tick_def assms(2) same_hive_lookups node_of_apply task_of_apply command_frame
        del: apply_command.simps)
qed

definition degraded_hive :: "unit HiveState" where
  "degraded_hive = (live_hive [])\<lparr>hs_nodes := [(''node-1'', demo_node\<lparr>ns_health := Degraded ''disk''\<rparr>)]\<rparr>"

theorem heartbeat_effect_witness:
  "map_option ns_health (node_of (solo_hive (heartbeat_tick solo_replicator ''node-1'' (solo_world degraded_hive))) ''node-1'')
     = Some Healthy"
proof -
  let ?w = "solo_world degraded_hive"
  have run: "rp_apply solo_replicator (UpdateNodeHealth ''node-1'' Healthy collect_node_metrics) ?w
      = (Ok (), solo_commit (UpdateNodeHealth ''node-1'' Healthy collect_node_metrics) ?w)" by simp
  have "node_of degraded_hive ''node-1'' = Some (forget_heartbeat (demo_node\<lparr>ns_health := Degraded ''disk''\<rparr>))"
    by (simp add: node_of_def degraded_hive_def hm_get_def)
  with heartbeat_effect [OF solo_quiet_law run, of "''node-1''"] show ?thesis
    by (simp add: set_node_health_def)
qed

text \<open>A node that starts alone first makes itself a cluster and then registers: when the start
  succeeds, the replicated state holds the node as healthy under its id and is otherwise what it
  was.\<close>

theorem start_registers_node:
  assumes "lone_openraft A" and "daemon_start A now d w = (Ok (), w')"
  shows "node_of (ra_state A (rr_raft w')) i =
      (if i = hd_node_id d then Some (forget_heartbeat (self_status now (hd_node_id d) (hd_hostname d) (hd_tags d)))
       else node_of (ra_state A (rr_raft w)) i)
    \<and> task_of (ra_state A (rr_raft w')) j = task_of (ra_state A (rr_raft w)) j
    \<and> hm_get (hs_goals (ra_state A (rr_raft w'))) k = hm_get (hs_goals (ra_state A (rr_raft w))) k"
proof -
  obtain w1 where w1: "evolves [] (ra_state A (rr_raft w)) (ra_state A (rr_raft w1))"
    "register_self (raft_replicator A (hd_raft_id d)) now d w1 = (Ok (), w')"
  proof (cases "cf_peers (hd_config d) = []")
    case True
    with assms(2) obtain x where x: "ra_initialize A [(hd_raft_id d, \<lparr>hn_addr = ''127.0.0.1:9000'', hn_hostname = ''localhost''\<rparr>)]
        (rr_raft w) = (Ok (), x)" "register_self (raft_replicator A (hd_raft_id d)) now d (w\<lparr>rr_raft := x\<rparr>) = (Ok (), w')"
      by (auto simp: daemon_start_def st_then_eq_Ok initialize_single_def on_raft_eq)
    then show thesis by (intro that [of "w\<lparr>rr_raft := x\<rparr>"]) (simp_all add: lone_openraft.initialize_lone [OF assms(1) x(1)])
  next
    case False
    then show thesis using that [of w] assms(2) by (simp add: daemon_start_def)
  qed
  let ?n = "self_status now (hd_node_id d) (hd_hostname d) (hd_tags d)"
  have "rp_apply (raft_replicator A (hd_raft_id d)) (RegisterNode ?n) w1 = (Ok (), w')"
    using w1(2) by (simp add: register_self_def)
  from quiet_replicator.apply_quiet [OF lone_openraft.raft_quiet [OF assms(1)] this]
  have "evolves [RegisterNode ?n] (ra_state A (rr_raft w1)) (ra_state A (rr_raft w'))" .
  from evolves_trans [OF w1(1) this]
  have "same_hive (ra_state A (rr_raft w')) (apply_command 0 (RegisterNode ?n) (ra_state A (rr_raft w)))"
    using evolves_same by fastforce
  then show ?thesis
    by (simp add: same_hive_lookups node_of_apply task_of_apply command_frame self_status_def
        del: apply_command.simps)
qed

definition demo_daemon :: "(unit, nat \<times> bool, nat) HiveDaemon" where
  "demo_daemon = \<lparr>hd_node_id = ''node-1'', hd_hostname = ''h'', hd_tags = [], hd_raft_id = 1, hd_conns = [],
     hd_brain = UseNoOp, hd_policy = execution_policy_default, hd_attachments = registry_new ''node-1'',
     hd_tracker = tracker_new, hd_config = node_config_default, hd_shutdown_tx = (0, False), hd_shutdown_rx = 0\<rparr>"

definition down_world :: "unit solo rr_world" where
  "down_world = (solo_world hive_new)\<lparr>rr_raft := (rr_raft (solo_world hive_new))\<lparr>so_up := False\<rparr>\<rparr>"

theorem start_registers_node_witness:
  "\<exists>w'. daemon_start solo_raft 7 demo_daemon down_world = (Ok (), w')
     \<and> map_option ns_health (node_of (ra_state solo_raft (rr_raft w')) ''node-1'') = Some Healthy"
proof -
  obtain w' where s: "daemon_start solo_raft 7 demo_daemon down_world = (Ok (), w')"
    by (simp add: daemon_start_def demo_daemon_def node_config_default_def initialize_single_def on_raft_def
        register_self_def down_world_def)
  from start_registers_node [OF solo.lone_openraft_axioms s, of "''node-1''"] s show ?thesis
    by (auto simp: demo_daemon_def self_status_def)
qed

text \<open>
  A node that starts alone again cannot: openraft refuses to initialise a cluster twice, and the
  refusal ends the start before the node is registered.
\<close>

lemma restart_refused:
  assumes "cf_peers (hd_config d) = []" "so_up (rr_raft w)"
  shows "daemon_start solo_raft now d w = (Err (DaemonReplicator (MembershipFailed ''not allowed'')), w)"
  using assms by (simp add: daemon_start_def initialize_single_def on_raft_def)

text \<open>The model is asked only when it is enabled and has a key.\<close>

lemma llm_needs_key: "choose_brain getenv s = UseLlm c \<Longrightarrow> ls_enabled s \<and> lc_api_key c \<noteq> []"
  by (auto simp: choose_brain_def Let_def split: if_splits)

end
