(* ===== verification/Api.thy ===== *)
theory Api
  imports DaemonProps
begin

text \<open>
  The HTTP interface of \<open>src/api.rs\<close> and the requests its client \<open>src/bin/flockctl.rs\<close> makes. axum
  routes a request and reads its JSON body; the handlers are modelled with the request they are
  given, over any replicator. A reply is its status code and what is rendered as its body.

  The properties: what a submitted task becomes, that it does not pass the policy, and that every
  command of the client asks for an endpoint the daemon serves.
\<close>

section \<open>Endpoints\<close>

datatype http_method = HttpGet | HttpPost

datatype endpoint =
    HealthEndpoint
  | StatusEndpoint
  | ClusterEndpoint
  | ListTasksEndpoint
  | SubmitTaskEndpoint
  | ListGoalsEndpoint
  | AddGoalEndpoint
  | AttachmentsEndpoint

definition api_routes :: "((http_method \<times> string) \<times> endpoint) list" where
  "api_routes =
     [((HttpGet, ''/health''), HealthEndpoint),
      ((HttpGet, ''/status''), StatusEndpoint),
      ((HttpGet, ''/cluster''), ClusterEndpoint),
      ((HttpGet, ''/tasks''), ListTasksEndpoint),
      ((HttpPost, ''/tasks''), SubmitTaskEndpoint),
      ((HttpGet, ''/goals''), ListGoalsEndpoint),
      ((HttpPost, ''/goals''), AddGoalEndpoint),
      ((HttpGet, ''/attachments''), AttachmentsEndpoint)]"

record StatusResponse =
  sr_node_id :: string
  sr_is_leader :: bool
  sr_leader_id :: "string option"
  sr_cluster_size :: nat

record 'j SubmitTaskRequest =
  sq_target_node :: string
  sq_payload :: "'j TaskPayload"
  sq_priority :: "u8 option"

record AddGoalRequest =
  gq_description :: string
  gq_constraints :: "string list option"
  gq_priority :: "u8 option"

datatype 'j api_body =
    HealthBody
  | StatusBody StatusResponse
  | ViewBody "'j ClusterView"
  | TasksBody "'j Task list"
  | TaskBody "'j Task"
  | GoalsBody "Goal list"
  | GoalBody Goal
  | AttachmentsBody "'j Attachment list"
  | ErrorBody string

type_synonym 'j api_reply = "nat \<times> 'j api_body"

section \<open>Handlers\<close>

definition health_check :: "'w \<Rightarrow> 'j api_reply \<times> 'w" where
  "health_check w = ((200, HealthBody), w)"

definition get_status :: "('j, 'w) replicator_api \<Rightarrow> NodeId \<Rightarrow> 'w \<Rightarrow> 'j api_reply \<times> 'w" where
  "get_status R node_id w =
     (let (view, w) = rp_snapshot R w;
          (is_leader, w) = rp_is_leader R w;
          (leader_id, w) = rp_leader_id R w
      in ((200, StatusBody \<lparr>sr_node_id = node_id, sr_is_leader = is_leader, sr_leader_id = leader_id,
             sr_cluster_size = length (cv_nodes view)\<rparr>), w))"

definition get_cluster_view :: "('j, 'w) replicator_api \<Rightarrow> 'w \<Rightarrow> 'j api_reply \<times> 'w" where
  "get_cluster_view R w = (let (view, w) = rp_snapshot R w in ((200, ViewBody view), w))"

definition list_tasks :: "('j, 'w) replicator_api \<Rightarrow> 'w \<Rightarrow> 'j api_reply \<times> 'w" where
  "list_tasks R w = (let (view, w) = rp_snapshot R w in ((200, TasksBody (cv_tasks view)), w))"

definition list_goals :: "('j, 'w) replicator_api \<Rightarrow> 'w \<Rightarrow> 'j api_reply \<times> 'w" where
  "list_goals R w = (let (view, w) = rp_snapshot R w in ((200, GoalsBody (cv_goals view)), w))"

definition list_attachments :: "'j AttachmentRegistry \<Rightarrow> 'w \<Rightarrow> 'j api_reply \<times> 'w" where
  "list_attachments reg w = ((200, AttachmentsBody (registry_list reg)), w)"

definition priority_or_default :: "u8 option \<Rightarrow> u8" where
  "priority_or_default p = (case p of Some p \<Rightarrow> p | None \<Rightarrow> 5)"

definition submitted_task :: "string \<Rightarrow> timestamp \<Rightarrow> timestamp \<Rightarrow> 'j SubmitTaskRequest \<Rightarrow> 'j Task" where
  "submitted_task uuid created updated req =
     \<lparr>tk_id = uuid, tk_target_node = sq_target_node req, tk_payload = sq_payload req, tk_status = Pending,
      tk_priority = priority_or_default (sq_priority req), tk_created_at = created, tk_updated_at = updated,
      tk_result = None\<rparr>"

definition submit_task ::
  "('j, 'w) replicator_api \<Rightarrow> string \<Rightarrow> timestamp \<Rightarrow> timestamp \<Rightarrow> 'j SubmitTaskRequest \<Rightarrow> 'w \<Rightarrow> 'j api_reply \<times> 'w" where
  "submit_task R uuid created updated req w =
     (let task = submitted_task uuid created updated req;
          (r, w) = rp_apply R (PutTask task) w
      in case r of
           Inr _ \<Rightarrow> ((201, TaskBody task), w)
         | Inl e \<Rightarrow> ((500, ErrorBody (replicator_error_text e)), w))"

definition requested_goal :: "string \<Rightarrow> timestamp \<Rightarrow> AddGoalRequest \<Rightarrow> Goal" where
  "requested_goal uuid created req =
     \<lparr>gl_id = uuid, gl_description = gq_description req,
      gl_constraints = (case gq_constraints req of Some cs \<Rightarrow> cs | None \<Rightarrow> []),
      gl_priority = priority_or_default (gq_priority req), gl_active = True, gl_created_at = created\<rparr>"

definition add_goal ::
  "('j, 'w) replicator_api \<Rightarrow> string \<Rightarrow> timestamp \<Rightarrow> AddGoalRequest \<Rightarrow> 'w \<Rightarrow> 'j api_reply \<times> 'w" where
  "add_goal R uuid created req w =
     (let goal = requested_goal uuid created req;
          (r, w) = rp_apply R (PutGoal goal) w
      in case r of
           Inr _ \<Rightarrow> ((201, GoalBody goal), w)
         | Inl e \<Rightarrow> ((500, ErrorBody (replicator_error_text e)), w))"

section \<open>The command line client\<close>

datatype task_command =
    TaskList
  | TaskSubmit string "string option" "string option" u8

datatype goal_command =
    GoalList
  | GoalAdd string u8

datatype ctl_command =
    CtlStatus
  | CtlCluster
  | CtlTask task_command
  | CtlGoal goal_command
  | CtlAttachments

datatype ctl_error = NothingToSubmit

record 'j ctl_request =
  cr_method :: http_method
  cr_url :: string
  cr_body :: "'j option"

definition ctl_get :: "string \<Rightarrow> string \<Rightarrow> ctl_error + 'j ctl_request" where
  "ctl_get base path = Ok \<lparr>cr_method = HttpGet, cr_url = base @ path, cr_body = None\<rparr>"

definition ctl_post :: "string \<Rightarrow> string \<Rightarrow> 'j \<Rightarrow> ctl_error + 'j ctl_request" where
  "ctl_post base path body = Ok \<lparr>cr_method = HttpPost, cr_url = base @ path, cr_body = Some body\<rparr>"

text \<open>The payload a submission stands for; \<open>--echo\<close> wins over \<open>--check-service\<close>.\<close>

definition ctl_payload :: "'j json_api \<Rightarrow> string option \<Rightarrow> string option \<Rightarrow> ctl_error + 'j" where
  "ctl_payload J echo svc =
     (case echo of
        Some msg \<Rightarrow> Ok (js_obj J [(''Echo'', js_obj J [(''message'', js_str J msg)])])
      | None \<Rightarrow>
          (case svc of
             Some s \<Rightarrow> Ok (js_obj J [(''CheckService'', js_obj J [(''service_name'', js_str J s)])])
           | None \<Rightarrow> Err NothingToSubmit))"

fun ctl_build :: "'j json_api \<Rightarrow> string \<Rightarrow> ctl_command \<Rightarrow> ctl_error + 'j ctl_request" where
  "ctl_build J base CtlStatus = ctl_get base ''/status''"
| "ctl_build J base CtlCluster = ctl_get base ''/cluster''"
| "ctl_build J base (CtlTask TaskList) = ctl_get base ''/tasks''"
| "ctl_build J base (CtlTask (TaskSubmit node echo svc priority)) =
     try_then (ctl_payload J echo svc) (\<lambda>payload.
       ctl_post base ''/tasks''
         (js_obj J [(''target_node'', js_str J node), (''payload'', payload), (''priority'', js_u64 J (ucast priority))]))"
| "ctl_build J base (CtlGoal GoalList) = ctl_get base ''/goals''"
| "ctl_build J base (CtlGoal (GoalAdd description priority)) =
     ctl_post base ''/goals''
       (js_obj J [(''description'', js_str J description), (''priority'', js_u64 J (ucast priority))])"
| "ctl_build J base CtlAttachments = ctl_get base ''/attachments''"

text \<open>What the client asks of \<open>reqwest\<close> and \<open>serde_json\<close>: sending a request, which is answered by a status
  and a text or fails, reading a text as JSON, and writing JSON out.\<close>

record ('j, 'w) http_client =
  hc_send :: "'j ctl_request \<Rightarrow> 'w \<Rightarrow> (string + nat \<times> string) \<times> 'w"
  hc_json :: "string \<Rightarrow> string + 'j"
  hc_pretty :: "'j \<Rightarrow> string + string"

datatype ctl_failure = CtlUsage ctl_error | CtlRequest string | CtlAnswer string | CtlPrint string

text \<open>Every command sends its request and prints the JSON of the answer; nothing looks at the status.\<close>

definition ctl_show ::
  "('j, 'w) http_client \<Rightarrow> 'j ctl_request \<Rightarrow> 'w \<Rightarrow> (ctl_failure + string) \<times> 'w" where
  "ctl_show H request w =
     st_then (st_map_err CtlRequest (hc_send H request w)) (\<lambda>(status, text) w.
       (try_then (map_err CtlAnswer (hc_json H text)) (\<lambda>resp. map_err CtlPrint (hc_pretty H resp)), w))"

definition ctl_main ::
  "'j json_api \<Rightarrow> ('j, 'w) http_client \<Rightarrow> string option \<Rightarrow> ctl_command \<Rightarrow> 'w \<Rightarrow> (ctl_failure + string) \<times> 'w" where
  "ctl_main J H addr command w =
     (let base_url = (case addr of Some a \<Rightarrow> a | None \<Rightarrow> ''http://127.0.0.1:9000'')
      in st_then (map_err CtlUsage (ctl_build J base_url command), w) (ctl_show H))"

text \<open>The endpoint a command is meant for.\<close>

fun ctl_endpoint :: "ctl_command \<Rightarrow> endpoint" where
  "ctl_endpoint CtlStatus = StatusEndpoint"
| "ctl_endpoint CtlCluster = ClusterEndpoint"
| "ctl_endpoint (CtlTask TaskList) = ListTasksEndpoint"
| "ctl_endpoint (CtlTask (TaskSubmit _ _ _ _)) = SubmitTaskEndpoint"
| "ctl_endpoint (CtlGoal GoalList) = ListGoalsEndpoint"
| "ctl_endpoint (CtlGoal (GoalAdd _ _)) = AddGoalEndpoint"
| "ctl_endpoint CtlAttachments = AttachmentsEndpoint"

section \<open>Lemmas\<close>

lemma submit_task_ok:
  "submit_task R uuid t1 t2 req w = ((201, TaskBody t), w') \<longleftrightarrow>
     t = submitted_task uuid t1 t2 req \<and> rp_apply R (PutTask t) w = (Ok (), w')"
  by (auto simp: submit_task_def Let_def split: prod.splits sum.splits)

lemma submitted_task_fields [simp]:
  "tk_id (submitted_task uuid t1 t2 req) = uuid"
  "tk_target_node (submitted_task uuid t1 t2 req) = sq_target_node req"
  "tk_payload (submitted_task uuid t1 t2 req) = sq_payload req"
  "tk_status (submitted_task uuid t1 t2 req) = Pending"
  by (simp_all add: submitted_task_def)

text \<open>A refusal of the daemon is printed like an answer, and the client ends well.\<close>

lemma refusals_are_printed:
  assumes "ctl_build J base command = Ok request" "hc_send H request w = (Ok (500, text), w')"
    and "hc_json H text = Ok resp" "hc_pretty H resp = Ok out"
  shows "ctl_main J H (Some base) command w = (Ok out, w')"
  using assms by (simp add: ctl_main_def ctl_show_def)

section \<open>Properties\<close>

text \<open>C22. A submitted task is run whatever its payload. When writes succeed and nobody else writes, the
  reply 201 means the task is stored as pending, and the next tick of the target's task runner runs
  the payload of the request by \<open>run_payload\<close> and leaves the task with the status and the result of
  that outcome. No policy stands between the request and the process.\<close>

theorem submitted_task_is_carried_out:
  assumes "quiet_env R hive S" "keeps_up R S up" "up w" "hive_wf (hive w)"
    and "submit_task R uuid t1 t2 req w = ((201, TaskBody t), w')"
  shows "tk_id t = uuid \<and> tk_payload t = sq_payload req \<and> task_of (hive w') uuid = Some (forget_updated t)
    \<and> (\<exists>xs x r. carried J S R xs (snd (rp_snapshot R w')) (task_runner_tick J S R (sq_target_node req) w')
        \<and> (x, r) \<in> set xs \<and> forget_updated x = forget_updated t
        \<and> task_of (hive (task_runner_tick J S R (sq_target_node req) w')) uuid = Some (ended_as t r))"
proof -
  have t: "t = submitted_task uuid t1 t2 req" and a: "rp_apply R (PutTask t) w = (Ok (), w')"
    using submit_task_ok [THEN iffD1, OF assms(5)] by blast+
  have "quiet_replicator R hive" using assms(1) by (rule quiet_env.axioms(1))
  from quiet_replicator.apply_quiet [OF this a] have e: "evolves [PutTask t] (hive w) (hive w')" .
  obtain w'' where "rp_apply R (PutTask t) w = (Ok (), w'')" "up w''"
    using assms(2,3) unfolding keeps_up_def by blast
  with a have up: "up w'" by simp
  have at: "task_of (hive w') uuid = Some (forget_updated t)"
    using evolves_same [OF e] by (simp add: same_hive_lookups task_of_apply t del: apply_command.simps)
  let ?tick = "task_runner_tick J S R (sq_target_node req) w'"
  obtain xs where xs: "carried J S R xs (snd (rp_snapshot R w')) ?tick"
    "\<forall>i t. task_of (hive w') i = Some t \<and> tk_target_node t = sq_target_node req \<and> tk_status t = Pending
      \<longleftrightarrow> (\<exists>(x, r) \<in> set xs. tk_id x = i \<and> forget_updated x = t)"
    "\<forall>(x, r) \<in> set xs. task_of (hive ?tick) (tk_id x) = Some (ended_as x r)"
    using quiet_env.task_runner_carries [OF assms(1,2) up evolves_wf [OF e assms(4)], of J "sq_target_node req"] by blast
  have "task_of (hive w') uuid = Some (forget_updated t) \<and> tk_target_node (forget_updated t) = sq_target_node req
      \<and> tk_status (forget_updated t) = Pending" using at by (simp add: t)
  then obtain x r where x: "(x, r) \<in> set xs" "tk_id x = uuid" "forget_updated x = forget_updated t"
    using xs(2) [rule_format, of uuid "forget_updated t"] by blast
  moreover from x(1,2) xs(3) have "task_of (hive ?tick) uuid = Some (ended_as x r)" by blast
  moreover have "ended_as x r = ended_as t r" using x(3) by (simp add: ended_as_def)
  ultimately show ?thesis using at xs(1) by (simp add: t) metis
qed

text \<open>A container that the default policy forbids, submitted over the interface, is run.\<close>

definition docker_request :: "unit SubmitTaskRequest" where
  "docker_request = \<lparr>sq_target_node = ''node-1'', sq_payload = DockerRun ''img'' [''--privileged''],
     sq_priority = None\<rparr>"

theorem submitted_task_is_carried_out_witness:
  "validate_task_policy execution_policy_default (sq_payload docker_request) = Err DockerNotAllowed
   \<and> (\<exists>w' t. submit_task solo_replicator ''t'' 1 2 docker_request (solo_world (live_hive [])) = ((201, TaskBody t), w')
     \<and> task_of (solo_hive (task_runner_tick unit_json (idle_os (ProcExited (Some 0) [] [])) solo_replicator
          ''node-1'' w')) ''t'' = Some ((forget_updated t)\<lparr>tk_status := Completed, tk_result := Some ()\<rparr>))"
proof -
  have wf: "hive_wf (solo_hive (solo_world (live_hive ([] :: unit Task list))))" by (simp add: live_hive_wf)
  have up: "so_up (rr_raft (solo_world (live_hive ([] :: unit Task list))))" by simp
  obtain w' t where s: "submit_task solo_replicator ''t'' 1 2 docker_request (solo_world (live_hive []))
      = ((201, TaskBody t), w')"
    by (simp add: submit_task_def Let_def)
  from submitted_task_is_carried_out [where J = unit_json and R = solo_replicator and S = "idle_os (ProcExited (Some 0) [] [])",
      OF solo_env_law solo_keeps_up up wf s]
  obtain xs x r where x: "(x, r) \<in> set xs" "forget_updated x = forget_updated t" "tk_payload t = sq_payload docker_request"
    "carried unit_json (idle_os (ProcExited (Some 0) [] [])) solo_replicator xs (snd (rp_snapshot solo_replicator w'))
      (task_runner_tick unit_json (idle_os (ProcExited (Some 0) [] [])) solo_replicator ''node-1'' w')"
    "task_of (solo_hive (task_runner_tick unit_json (idle_os (ProcExited (Some 0) [] [])) solo_replicator ''node-1'' w')) ''t''
      = Some (ended_as t r)"
    by (auto simp: docker_request_def)
  have "tk_payload x = DockerRun ''img'' [''--privileged'']"
    using forget_updated_keeps(4) [of x] forget_updated_keeps(4) [of t] x(2,3) by (simp add: docker_request_def)
  with carried_ran [OF x(4,1)] have "r = Ok ()"
    by (auto simp: idle_os_def docker_run_def exit_success_def)
  with x(5) s show ?thesis by (auto simp: docker_request_def execution_policy_default_def ended_as_def)
qed

text \<open>Every command of the client that makes a request asks for a method and path the daemon
  routes to the endpoint the command is meant for; the only command refused is a submission with
  neither payload.\<close>

theorem client_requests_are_served:
  "case ctl_build J base cmd of
     Inr r \<Rightarrow> \<exists>path. cr_url r = base @ path \<and> map_of api_routes (cr_method r, path) = Some (ctl_endpoint cmd)
       \<and> (cr_body r = None \<longleftrightarrow> cr_method r = HttpGet)
   | Inl NothingToSubmit \<Rightarrow> \<exists>node priority. cmd = CtlTask (TaskSubmit node None None priority)"
proof (cases cmd rule: ctl_endpoint.cases)
  case (4 node echo svc priority)
  then show ?thesis
    by (cases echo; cases svc) (simp_all add: ctl_payload_def ctl_post_def api_routes_def)
qed (simp_all add: ctl_get_def ctl_post_def api_routes_def)

text \<open>The listings show the local state: every node, task and goal of it once and nothing else,
  with the identifiers distinct.\<close>

theorem listings_show_state:
  assumes "replicator R hive" "hive_wf (hive w')"
    and "get_cluster_view R w = ((200, ViewBody v), w')"
  shows "set (cv_tasks v) = {t. hm_get (hs_tasks (hive w')) (tk_id t) = Some t} \<and> distinct (map tk_id (cv_tasks v))
    \<and> set (cv_goals v) = {g. hm_get (hs_goals (hive w')) (gl_id g) = Some g} \<and> distinct (map gl_id (cv_goals v))
    \<and> set (cv_nodes v) = {n. hm_get (hs_nodes (hive w')) (ns_node_id n) = Some n} \<and> distinct (map ns_node_id (cv_nodes v))"
proof -
  have "rp_snapshot R w = (v, w')"
    using assms(3) by (simp add: get_cluster_view_def split: prod.splits)
  from replicator.snapshot_shows [OF assms(1) this] obtain l t where v: "v = to_cluster_view l t (hive w')" by blast
  note k = hive_wf_keyed [OF assms(2)]
  show ?thesis
    using keyed_values_mem [OF k(1)] keyed_values_mem [OF k(2)] keyed_values_mem [OF k(4)]
      keyed_values_distinct [OF k(1)] keyed_values_distinct [OF k(2)] keyed_values_distinct [OF k(4)]
    unfolding v to_cluster_view_simps by blast
qed

theorem listings_show_state_witness:
  "\<exists>v w'. get_cluster_view solo_replicator (solo_world (live_hive [waiting_task])) = ((200, ViewBody v), w')
     \<and> distinct (map tk_id (cv_tasks v)) \<and> waiting_task \<in> set (cv_tasks v)"
proof -
  let ?w = "solo_world (live_hive [waiting_task])"
  obtain v where s: "get_cluster_view solo_replicator ?w = ((200, ViewBody v), ?w)"
    by (simp add: get_cluster_view_def)
  have wf: "hive_wf (solo_hive ?w)" by (simp add: live_hive_wf)
  have "hm_get (hs_tasks (live_hive [waiting_task])) (tk_id waiting_task) = Some waiting_task"
    by (simp add: live_hive_def hm_get_def)
  with listings_show_state [OF solo_replicator_law wf s] s show ?thesis by auto
qed

end
