(* ===== verification/RaftApi.thy ===== *)
theory RaftApi
  imports RaftNode
begin

text \<open>
  The RPCs between nodes: the client side, \<open>RaftNetwork\<close> for \<open>HiveNetwork\<close> in
  \<open>src/replicator/network.rs\<close>, and the server side, the handlers of \<open>src/raft_api.rs\<close>. What openraft
  answers to a request is the parameter \<open>raft_server\<close>; requests and responses are its types. The
  property joins both sides: a call returns what the peer's openraft answered.
\<close>

section \<open>The client\<close>

definition net_append_entries ::
  "(string \<Rightarrow> 'q \<Rightarrow> 'w \<Rightarrow> 'r http_outcome \<times> 'w) \<Rightarrow> (nat \<Rightarrow> string) \<Rightarrow> HiveNetwork \<Rightarrow> 'q \<Rightarrow> 'w \<Rightarrow> (rpc_error + 'r) \<times> 'w" where
  "net_append_entries post status_text nw req w = send_rpc post status_text nw ''append_entries'' req w"

definition net_install_snapshot ::
  "(string \<Rightarrow> 'q \<Rightarrow> 'w \<Rightarrow> 'r http_outcome \<times> 'w) \<Rightarrow> (nat \<Rightarrow> string) \<Rightarrow> HiveNetwork \<Rightarrow> 'q \<Rightarrow> 'w \<Rightarrow> (rpc_error + 'r) \<times> 'w" where
  "net_install_snapshot post status_text nw req w = send_rpc post status_text nw ''install_snapshot'' req w"

definition net_vote ::
  "(string \<Rightarrow> 'q \<Rightarrow> 'w \<Rightarrow> 'r http_outcome \<times> 'w) \<Rightarrow> (nat \<Rightarrow> string) \<Rightarrow> HiveNetwork \<Rightarrow> 'q \<Rightarrow> 'w \<Rightarrow> (rpc_error + 'r) \<times> 'w" where
  "net_vote post status_text nw req w = send_rpc post status_text nw ''vote'' req w"

section \<open>The server\<close>

record ('vq, 'vr, 'aq, 'ar, 'iq, 'ir, 'w) raft_server =
  rs_vote :: "'vq \<Rightarrow> 'w \<Rightarrow> (string + 'vr) \<times> 'w"
  rs_append_entries :: "'aq \<Rightarrow> 'w \<Rightarrow> (string + 'ar) \<times> 'w"
  rs_install_snapshot :: "'iq \<Rightarrow> 'w \<Rightarrow> (string + 'ir) \<times> 'w"

text \<open>A reply: the status code and the JSON body, a response or \<open>{"error": message}\<close>.\<close>

datatype 'r raft_body = RaftResponse 'r | RaftError string

definition handle_vote ::
  "('vq, 'vr, 'aq, 'ar, 'iq, 'ir, 'w) raft_server \<Rightarrow> 'vq \<Rightarrow> 'w \<Rightarrow> (nat \<times> 'vr raft_body) \<times> 'w" where
  "handle_vote srv req w =
     (case rs_vote srv req w of
        (Inr resp, w) \<Rightarrow> ((200, RaftResponse resp), w)
      | (Inl e, w) \<Rightarrow> ((500, RaftError e), w))"

definition handle_append_entries ::
  "('vq, 'vr, 'aq, 'ar, 'iq, 'ir, 'w) raft_server \<Rightarrow> 'aq \<Rightarrow> 'w \<Rightarrow> (nat \<times> 'ar raft_body) \<times> 'w" where
  "handle_append_entries srv req w =
     (case rs_append_entries srv req w of
        (Inr resp, w) \<Rightarrow> ((200, RaftResponse resp), w)
      | (Inl e, w) \<Rightarrow> ((500, RaftError e), w))"

definition handle_install_snapshot ::
  "('vq, 'vr, 'aq, 'ar, 'iq, 'ir, 'w) raft_server \<Rightarrow> 'iq \<Rightarrow> 'w \<Rightarrow> (nat \<times> 'ir raft_body) \<times> 'w" where
  "handle_install_snapshot srv req w =
     (case rs_install_snapshot srv req w of
        (Inr resp, w) \<Rightarrow> ((200, RaftResponse resp), w)
      | (Inl e, w) \<Rightarrow> ((500, RaftError e), w))"

text \<open>\<open>create_raft_router\<close>: the paths it serves, all with POST.\<close>

datatype raft_endpoint = VoteEndpoint | AppendEntriesEndpoint | InstallSnapshotEndpoint

definition raft_routes :: "(string \<times> raft_endpoint) list" where
  "raft_routes = [(''/raft/vote'', VoteEndpoint), (''/raft/append_entries'', AppendEntriesEndpoint),
     (''/raft/install_snapshot'', InstallSnapshotEndpoint)]"

section \<open>A connection\<close>

text \<open>
  An HTTP connection that delivers each request to the node that listens on the address, hands it
  to the handler of its path and brings the reply back. Only a response reads back as a response.
\<close>

fun reply_outcome :: "nat \<times> 'r raft_body \<Rightarrow> 'r http_outcome" where
  "reply_outcome (code, RaftResponse r) = Responded code (Inr r)"
| "reply_outcome (code, RaftError e) = Responded code (Inl e)"

definition deliver ::
  "string \<Rightarrow> raft_endpoint \<Rightarrow> ('q \<Rightarrow> 'w \<Rightarrow> (nat \<times> 'r raft_body) \<times> 'w) \<Rightarrow> string \<Rightarrow> 'q \<Rightarrow> 'w \<Rightarrow> 'r http_outcome \<times> 'w" where
  "deliver addr endpoint handler url req w =
     (if \<exists>(path, ep) \<in> set raft_routes. url = ''http://'' @ addr @ path \<and> ep = endpoint
      then (case handler req w of (reply, w) \<Rightarrow> (reply_outcome reply, w))
      else (Responded 404 (Inl ''not found''), w))"

text \<open>What a caller is told of an answer: a refusal arrives as a failure of the network.\<close>

definition as_seen :: "(nat \<Rightarrow> string) \<Rightarrow> (string + 'r) \<times> 'w \<Rightarrow> (rpc_error + 'r) \<times> 'w" where
  "as_seen status_text a = (map_err (\<lambda>e. NetworkError (''HTTP error: '' @ status_text 500)) (fst a), snd a)"

lemma send_delivered:
  assumes "handler req w = (case answer of (Inr r, w) \<Rightarrow> ((200, RaftResponse r), w) | (Inl e, w) \<Rightarrow> ((500, RaftError e), w))"
    and "(''/raft/'' @ path, ep) \<in> set raft_routes"
  shows "send_rpc (deliver (hn_addr node) ep handler) status_text (new_client target node) path req w = as_seen status_text answer"
proof -
  have url: "rpc_url (new_client target node) path = ''http://'' @ hn_addr node @ ''/raft/'' @ path"
    by (simp add: rpc_url_def new_client_def network_connect_def)
  have "\<exists>(p, e) \<in> set raft_routes. rpc_url (new_client target node) path = ''http://'' @ hn_addr node @ p \<and> e = ep"
    using assms(2) unfolding url by blast
  then have d: "deliver (hn_addr node) ep handler (rpc_url (new_client target node) path) req w =
      (case handler req w of (reply, w) \<Rightarrow> (reply_outcome reply, w))"
    unfolding deliver_def by (rule if_P)
  obtain q w' where "answer = (q, w')" by fastforce
  then show ?thesis
    unfolding send_rpc_def d assms(1) by (cases q) (simp_all add: as_seen_def http_success_def)
qed

section \<open>Properties\<close>

text \<open>A call to a peer reaches the handler of the same RPC: over a connection that delivers, it
  returns what the peer's openraft answered, and when that refused, a network error with status 500.\<close>

theorem rpc_returns_peer_answer:
  "net_vote (deliver (hn_addr node) VoteEndpoint (handle_vote srv)) status_text (new_client target node) vq w
     = as_seen status_text (rs_vote srv vq w)
   \<and> net_append_entries (deliver (hn_addr node) AppendEntriesEndpoint (handle_append_entries srv)) status_text
       (new_client target node) aq w = as_seen status_text (rs_append_entries srv aq w)
   \<and> net_install_snapshot (deliver (hn_addr node) InstallSnapshotEndpoint (handle_install_snapshot srv)) status_text
       (new_client target node) iq w = as_seen status_text (rs_install_snapshot srv iq w)"
  unfolding net_vote_def net_append_entries_def net_install_snapshot_def
  by (intro conjI send_delivered)
    (simp_all add: handle_vote_def handle_append_entries_def handle_install_snapshot_def raft_routes_def)

end
