(* ===== verification/EntryPoint.thy ===== *)
theory EntryPoint
  imports Api RaftApi
begin

text \<open>
  \<open>main\<close> of \<open>src/main.rs\<close>: the command \<open>init\<close>, and the command \<open>run\<close> up to the point where the server and
  the daemon are spawned (\<open>Lifecycle\<close> goes on from there), and the server it starts: the routes of \<open>src/api.rs\<close> merged with those of \<open>src/raft_api.rs\<close>. Routing is
  axum's: a request goes to the route of its path and method, a path without that method is
  answered 405, an unknown path 404, and merging two routers that share a route panics, which is the
  value \<open>None\<close> here. The lemma \<open>run_daemon_Ok\<close> says what a successful start has done.
\<close>

section \<open>Routing\<close>

datatype served = ServeApi endpoint | ServeRaft raft_endpoint

type_synonym route_table = "((http_method \<times> string) \<times> served) list"

datatype dispatched = Routed served | MethodNotAllowed | PathNotFound

definition dispatch :: "route_table \<Rightarrow> http_method \<Rightarrow> string \<Rightarrow> dispatched" where
  "dispatch routes meth path =
     (case map_of routes (meth, path) of
        Some e \<Rightarrow> Routed e
      | None \<Rightarrow> if list_ex (\<lambda>((_, p), _). p = path) routes then MethodNotAllowed else PathNotFound)"

definition merge_routes :: "route_table \<Rightarrow> route_table \<Rightarrow> route_table option" where
  "merge_routes a b = (if list_ex (\<lambda>(k, _). k \<in> set (map fst b)) a then None else Some (a @ b))"

definition server_routes :: "route_table option" where
  "server_routes =
     (let api_router = map (\<lambda>(k, e). (k, ServeApi e)) api_routes;
          raft_router = map (\<lambda>(path, e). ((HttpPost, path), ServeRaft e)) raft_routes
      in merge_routes api_router raft_router)"

section \<open>The start of the process\<close>

datatype entry_error =
    EntryConfig config_error
  | EntryDaemon daemon_error
  | RoutesOverlap
  | BindFailed string

fun entry_error_text :: "entry_error \<Rightarrow> string" where
  "entry_error_text (EntryConfig e) = config_error_text e"
| "entry_error_text (EntryDaemon e) = daemon_error_text e"
| "entry_error_text RoutesOverlap = ''Overlapping method route''"
| "entry_error_text (BindFailed e) = e"

definition run_daemon ::
  "'w toml_api \<Rightarrow> host_env \<Rightarrow> ('c, 'r) watch_api \<Rightarrow> 'w raft_boot \<Rightarrow> (string \<Rightarrow> 'w \<Rightarrow> (string + unit) \<times> 'w) \<Rightarrow> string \<Rightarrow> 'w
     \<Rightarrow> (entry_error + (('j, 'c, 'r) HiveDaemon \<times> route_table)) \<times> 'w" where
  "run_daemon T H W B bind config_path w =
     st_then (map_err EntryConfig (run_config T config_path w), w) (\<lambda>config w.
     st_then (st_map_err EntryDaemon (daemon_new H W B config w)) (\<lambda>daemon w.
       case server_routes of
         None \<Rightarrow> (Err RoutesOverlap, w)
       | Some router \<Rightarrow>
           st_then (st_map_err BindFailed (bind (listen_addr config) w)) (\<lambda>_ w. (Ok (daemon, router), w))))"

text \<open>The command line: clap fills in the default of an option that is absent.\<close>

datatype Commands = Run string | Init string

definition config_arg :: "string option \<Rightarrow> string" where
  "config_arg given = (case given of Some path \<Rightarrow> path | None \<Rightarrow> ''flockmind.toml'')"

definition init_message :: "'w toml_api \<Rightarrow> string \<Rightarrow> string list" where
  "init_message T config_path =
     [''Created config file: '' @ tm_debug T config_path, [], ''Edit the config file to:'',
      ''  - Set a unique node_id'', ''  - Configure peers for multi-node cluster'',
      ''  - Enable LLM brain with API key'', ''  - Adjust execution policy'']"

datatype ('j, 'c, 'r) started =
    Daemon "('j, 'c, 'r) HiveDaemon" route_table
  | Printed "string list"

text \<open>\<open>main\<close>: what the process is doing once its command has been carried out as far as it can be
  without waiting, or the error it exits with.\<close>

definition main_command ::
  "'w toml_api \<Rightarrow> host_env \<Rightarrow> ('c, 'r) watch_api \<Rightarrow> 'w raft_boot \<Rightarrow> (string \<Rightarrow> 'w \<Rightarrow> (string + unit) \<times> 'w) \<Rightarrow> Commands \<Rightarrow> 'w
     \<Rightarrow> (entry_error + ('j, 'c, 'r) started) \<times> 'w" where
  "main_command T H W B bind command w =
     (case command of
        Run config_path \<Rightarrow>
          st_then (run_daemon T H W B bind config_path w) (\<lambda>(daemon, router) w. (Ok (Daemon daemon router), w))
      | Init config_path \<Rightarrow>
          st_then (st_map_err EntryConfig (init_config T config_path w)) (\<lambda>_ w. (Ok (Printed (init_message T config_path)), w)))"

text \<open>The two routers share no route, so the merge never panics.\<close>

lemma server_routes_eq:
  "server_routes = Some (map (\<lambda>(k, e). (k, ServeApi e)) api_routes
     @ map (\<lambda>(path, e). ((HttpPost, path), ServeRaft e)) raft_routes)"
  by (simp add: server_routes_def merge_routes_def api_routes_def raft_routes_def)

lemma run_daemon_Ok:
  assumes "run_daemon T H W B bind path w = (Ok (d, router), w')"
  obtains config w1 where "run_config T path w = Ok config" "daemon_new H W B config w = (Ok d, w1)"
    and "bind (listen_addr config) w1 = (Ok (), w')" "server_routes = Some router"
  using assms by (auto simp: run_daemon_def server_routes_eq st_then_eq_Ok map_err_eq_Ok split: prod.splits)

text \<open>Routing over a table made of two parts.\<close>

lemma map_of_api: "map_of (map (\<lambda>(k, e). (k, ServeApi e)) xs) k = map_option ServeApi (map_of xs k)"
  by (induction xs) auto

lemma dispatch_api:
  assumes "map_of api_routes (meth, path) = Some e" "server_routes = Some routes"
  shows "dispatch routes meth path = Routed (ServeApi e)"
proof -
  have "map_of routes (meth, path) = Some (ServeApi e)"
    using assms by (auto simp: server_routes_eq map_of_api)
  then show ?thesis by (simp add: dispatch_def)
qed

section \<open>Properties\<close>

text \<open>The server answers its clients and its peers. The routes of the API and those of Raft can be
  merged; every request of the command line client goes to the endpoint the command is meant for,
  the only command refused being a submission without a payload; and the URL of every RPC of a node
  goes to the handler of that RPC, when it is posted, and is answered 405 otherwise.\<close>

theorem server_serves_clients_and_peers:
  "\<exists>routes. server_routes = Some routes
    \<and> (case ctl_build J base cmd of
         Inr r \<Rightarrow> \<exists>path. cr_url r = base @ path \<and> dispatch routes (cr_method r) path = Routed (ServeApi (ctl_endpoint cmd))
       | Inl NothingToSubmit \<Rightarrow> \<exists>node priority. cmd = CtlTask (TaskSubmit node None None priority))
    \<and> list_all (\<lambda>(rpc, e). \<exists>path. rpc_url nw rpc = ''http://'' @ nw_target_addr nw @ path
        \<and> dispatch routes HttpPost path = Routed (ServeRaft e) \<and> dispatch routes HttpGet path = MethodNotAllowed)
      [(''vote'', VoteEndpoint), (''append_entries'', AppendEntriesEndpoint), (''install_snapshot'', InstallSnapshotEndpoint)]"
proof -
  obtain routes where routes: "server_routes = Some routes" using server_routes_eq by blast
  have ctl: "case ctl_build J base cmd of
        Inr r \<Rightarrow> \<exists>path. cr_url r = base @ path \<and> dispatch routes (cr_method r) path = Routed (ServeApi (ctl_endpoint cmd))
      | Inl NothingToSubmit \<Rightarrow> \<exists>node priority. cmd = CtlTask (TaskSubmit node None None priority)"
    using client_requests_are_served [where J = J and base = base and cmd = cmd] dispatch_api [OF _ routes]
    by (fastforce split: sum.splits ctl_error.splits)
  have rpc: "dispatch routes HttpPost (''/raft/'' @ p) = Routed (ServeRaft e)
      \<and> dispatch routes HttpGet (''/raft/'' @ p) = MethodNotAllowed"
    if "(p, e) \<in> set [(''vote'', VoteEndpoint), (''append_entries'', AppendEntriesEndpoint),
      (''install_snapshot'', InstallSnapshotEndpoint)]" for p e
    using that routes by (auto simp: server_routes_eq dispatch_def api_routes_def raft_routes_def)
  show ?thesis
    by (intro exI [of _ routes] conjI routes ctl) (simp add: rpc_url_def, use rpc in auto)
qed

end
