(* ===== verification/Certs.thy ===== *)
theory Certs
  imports RustStd
begin

text \<open>
  Certificates of \<open>src/auth/certs.rs\<close>. Keys, signatures, PEM and X.509 belong to rcgen, pem and
  x509-parser, and files to the operating system: the record \<open>pki_api\<close> holds their operations over
  a world \<open>'w\<close> (randomness and files), an abstract type \<open>'k\<close> of key pairs, \<open>'c\<close> of certificates and
  \<open>'ip\<close> of addresses. What this code decides is modelled as it is: the parameters of the
  certificates it has signed (on top of \<open>CertificateParams::default()\<close>), the order of the steps and their errors. The TLS configurations
  made from them are in \<open>Tls\<close>.
\<close>

datatype key_usage = KeyCertSign | CrlSign | DigitalSignature | KeyEncipherment
datatype ext_key_usage = ServerAuth | ClientAuth
datatype is_ca = CaUnconstrained | NoCa
datatype dn_type = CommonName | OrganizationName
datatype 'ip san_type = DnsName string | IpAddress 'ip

record 'ip CertificateParams =
  cp_is_ca :: is_ca
  cp_key_usages :: "key_usage list"
  cp_extended :: "ext_key_usage list"
  cp_distinguished_name :: "(dn_type \<times> string) list"
  cp_subject_alt_names :: "'ip san_type list"

record ('k, 'c, 'ip, 'w) pki_api =
  pk_generate :: "'w \<Rightarrow> (string + 'k) \<times> 'w"
  pk_serialize :: "'k \<Rightarrow> string"
  pk_from_pem :: "string \<Rightarrow> string + 'k"
  pk_default :: "'ip CertificateParams"
  pk_self_signed :: "'ip CertificateParams \<Rightarrow> 'k \<Rightarrow> 'w \<Rightarrow> (string + 'c) \<times> 'w"
  pk_signed_by :: "'ip CertificateParams \<Rightarrow> 'k \<Rightarrow> 'c \<Rightarrow> 'k \<Rightarrow> 'w \<Rightarrow> (string + 'c) \<times> 'w"
  pk_cert_pem :: "'c \<Rightarrow> string"
  pk_ia5 :: "string \<Rightarrow> string + string"
  pk_parse_ip :: "string \<Rightarrow> 'ip option"
  pk_common_names :: "string \<Rightarrow> string + string option list"
  fs_read :: "string \<Rightarrow> 'w \<Rightarrow> string + string"
  fs_write :: "string \<Rightarrow> string \<Rightarrow> 'w \<Rightarrow> (string + unit) \<times> 'w"
  fs_exists :: "string \<Rightarrow> 'w \<Rightarrow> bool"

datatype cert_error = PkiError string | FileError string | NoCommonName

fun cert_error_text :: "cert_error \<Rightarrow> string" where
  "cert_error_text (PkiError e) = e"
| "cert_error_text (FileError e) = e"
| "cert_error_text NoCommonName = ''No CN found in certificate''"

record NodeCertificate =
  nc_cert_pem :: string
  nc_key_pem :: string
  nc_node_id :: string

record 'k CaCertificate =
  ca_key_pair :: 'k
  ca_cn :: string
  ca_cert_pem :: string

text \<open>\<open>clone\<close> writes the key as PEM and reads it back; it panics, here \<open>None\<close>, when that fails.\<close>

definition ca_clone :: "('k, 'c, 'ip, 'w) pki_api \<Rightarrow> 'k CaCertificate \<Rightarrow> 'k CaCertificate option" where
  "ca_clone P ca =
     (case pk_from_pem P (pk_serialize P (ca_key_pair ca)) of
        Inr key_pair \<Rightarrow> Some \<lparr>ca_key_pair = key_pair, ca_cn = ca_cn ca, ca_cert_pem = ca_cert_pem ca\<rparr>
      | Inl _ \<Rightarrow> None)"

definition make_ca_params :: "('k, 'c, 'ip, 'w) pki_api \<Rightarrow> string \<Rightarrow> 'ip CertificateParams" where
  "make_ca_params P cn =
     (pk_default P)\<lparr>cp_is_ca := CaUnconstrained,
       cp_key_usages := [KeyCertSign, CrlSign, DigitalSignature],
       cp_distinguished_name := [(CommonName, cn), (OrganizationName, ''FlockMind'')]\<rparr>"

definition ca_generate ::
  "('k, 'c, 'ip, 'w) pki_api \<Rightarrow> string \<Rightarrow> 'w \<Rightarrow> (cert_error + 'k CaCertificate) \<times> 'w" where
  "ca_generate P cluster_id w =
     (let cn = ''FlockMind CA - '' @ cluster_id; params = make_ca_params P cn in
      st_then (st_map_err PkiError (pk_generate P w)) (\<lambda>key_pair w.
        st_then (st_map_err PkiError (pk_self_signed P params key_pair w)) (\<lambda>cert w.
          (Ok \<lparr>ca_key_pair = key_pair, ca_cn = cn, ca_cert_pem = pk_cert_pem P cert\<rparr>, w))))"

text \<open>The first common name that is a string.\<close>

fun first_string :: "string option list \<Rightarrow> string option" where
  "first_string [] = None"
| "first_string (Some s # _) = Some s"
| "first_string (None # xs) = first_string xs"

definition extract_cn_from_pem :: "('k, 'c, 'ip, 'w) pki_api \<Rightarrow> string \<Rightarrow> cert_error + string" where
  "extract_cn_from_pem P pem =
     try_then (map_err PkiError (pk_common_names P pem)) (\<lambda>names.
       case first_string names of Some cn \<Rightarrow> Ok cn | None \<Rightarrow> Err NoCommonName)"

definition ca_load ::
  "('k, 'c, 'ip, 'w) pki_api \<Rightarrow> string \<Rightarrow> string \<Rightarrow> 'w \<Rightarrow> cert_error + 'k CaCertificate" where
  "ca_load P cert_path key_path w =
     try_then (map_err FileError (fs_read P cert_path w)) (\<lambda>cert_pem.
     try_then (map_err FileError (fs_read P key_path w)) (\<lambda>key_pem.
     try_then (map_err PkiError (pk_from_pem P key_pem)) (\<lambda>key_pair.
       let cn = (case extract_cn_from_pem P cert_pem of Inr cn \<Rightarrow> cn | Inl _ \<Rightarrow> ''FlockMind CA'') in
       Ok \<lparr>ca_key_pair = key_pair, ca_cn = cn, ca_cert_pem = cert_pem\<rparr>)))"

definition ca_save ::
  "('k, 'c, 'ip, 'w) pki_api \<Rightarrow> 'k CaCertificate \<Rightarrow> string \<Rightarrow> string \<Rightarrow> 'w \<Rightarrow> (cert_error + unit) \<times> 'w" where
  "ca_save P ca cert_path key_path w =
     st_then (st_map_err FileError (fs_write P cert_path (ca_cert_pem ca) w)) (\<lambda>_ w.
       st_map_err FileError (fs_write P key_path (pk_serialize P (ca_key_pair ca)) w))"

fun valid_names :: "('k, 'c, 'ip, 'w) pki_api \<Rightarrow> string list \<Rightarrow> 'ip san_type list" where
  "valid_names P [] = []"
| "valid_names P (h # hs) = (case pk_ia5 P h of Inr n \<Rightarrow> [DnsName n] | Inl _ \<Rightarrow> []) @ valid_names P hs"

fun valid_ips :: "('k, 'c, 'ip, 'w) pki_api \<Rightarrow> string list \<Rightarrow> 'ip san_type list" where
  "valid_ips P [] = []"
| "valid_ips P (i # is) = (case pk_parse_ip P i of Some a \<Rightarrow> [IpAddress a] | None \<Rightarrow> []) @ valid_ips P is"

text \<open>The parameters of a node's certificate.\<close>

definition node_params :: "('k, 'c, 'ip, 'w) pki_api \<Rightarrow> string \<Rightarrow> 'ip san_type list \<Rightarrow> 'ip CertificateParams" where
  "node_params P node_id sans =
     (pk_default P)\<lparr>cp_is_ca := NoCa, cp_key_usages := [DigitalSignature, KeyEncipherment],
       cp_extended := [ServerAuth, ClientAuth],
       cp_distinguished_name := [(CommonName, node_id), (OrganizationName, ''FlockMind Node'')],
       cp_subject_alt_names := sans\<rparr>"

definition sign_node ::
  "('k, 'c, 'ip, 'w) pki_api \<Rightarrow> 'k CaCertificate \<Rightarrow> string \<Rightarrow> string list \<Rightarrow> string list \<Rightarrow> 'w
     \<Rightarrow> (cert_error + NodeCertificate) \<times> 'w" where
  "sign_node P ca node_id hostnames ips w =
     (case pk_ia5 P node_id of
        Inl e \<Rightarrow> (Err (PkiError e), w)
      | Inr name \<Rightarrow>
          (let params = node_params P node_id (DnsName name # valid_names P hostnames @ valid_ips P ips) in
           st_then (st_map_err PkiError (pk_generate P w)) (\<lambda>node_key w.
           st_then (st_map_err PkiError (pk_self_signed P (make_ca_params P (ca_cn ca)) (ca_key_pair ca) w))
             (\<lambda>ca_cert w.
           st_then (st_map_err PkiError (pk_signed_by P params node_key ca_cert (ca_key_pair ca) w))
             (\<lambda>cert w.
               (Ok \<lparr>nc_cert_pem = pk_cert_pem P cert, nc_key_pem = pk_serialize P node_key,
                    nc_node_id = node_id\<rparr>, w))))))"

definition node_cert_load ::
  "('k, 'c, 'ip, 'w) pki_api \<Rightarrow> string \<Rightarrow> string \<Rightarrow> 'w \<Rightarrow> cert_error + NodeCertificate" where
  "node_cert_load P cert_path key_path w =
     try_then (map_err FileError (fs_read P cert_path w)) (\<lambda>cert_pem.
     try_then (map_err FileError (fs_read P key_path w)) (\<lambda>key_pem.
     try_then (extract_cn_from_pem P cert_pem) (\<lambda>node_id.
       Ok \<lparr>nc_cert_pem = cert_pem, nc_key_pem = key_pem, nc_node_id = node_id\<rparr>)))"

definition node_cert_save ::
  "('k, 'c, 'ip, 'w) pki_api \<Rightarrow> NodeCertificate \<Rightarrow> string \<Rightarrow> string \<Rightarrow> 'w \<Rightarrow> (cert_error + unit) \<times> 'w" where
  "node_cert_save P c cert_path key_path w =
     st_then (st_map_err FileError (fs_write P cert_path (nc_cert_pem c) w)) (\<lambda>_ w.
       st_map_err FileError (fs_write P key_path (nc_key_pem c) w))"

section \<open>What signing produces\<close>

lemma sign_node_Ok:
  assumes "sign_node P ca node_id hs ips w = (Ok c, w')"
  obtains name key ca_cert cert w1 w2 where "pk_ia5 P node_id = Ok name"
    and "pk_generate P w = (Ok key, w1)"
    and "pk_self_signed P (make_ca_params P (ca_cn ca)) (ca_key_pair ca) w1 = (Ok ca_cert, w2)"
    and "pk_signed_by P (node_params P node_id (DnsName name # valid_names P hs @ valid_ips P ips)) key ca_cert
           (ca_key_pair ca) w2 = (Ok cert, w')"
    and "c = \<lparr>nc_cert_pem = pk_cert_pem P cert, nc_key_pem = pk_serialize P key, nc_node_id = node_id\<rparr>"
  using assms by (auto simp: sign_node_def Let_def st_then_eq_Ok split: sum.splits)

lemma valid_names_mem: "DnsName n \<in> set (valid_names P hs) \<longleftrightarrow> (\<exists>h \<in> set hs. pk_ia5 P h = Ok n)"
  by (induction hs) (auto split: sum.splits)

lemma valid_ips_dns [simp]: "DnsName n \<notin> set (valid_ips P is)"
  by (induction "is") (auto split: option.splits)

lemma valid_ips_mem: "IpAddress a \<in> set (valid_ips P is) \<longleftrightarrow> (\<exists>i \<in> set is. pk_parse_ip P i = Some a)"
  by (induction "is") (auto split: option.splits)

lemma valid_names_ip [simp]: "IpAddress a \<notin> set (valid_names P hs)"
  by (induction hs) (auto split: sum.splits)

text \<open>The alternative names a node's certificate may carry.\<close>

definition certified_names ::
  "('k, 'c, 'ip, 'w) pki_api \<Rightarrow> string \<Rightarrow> string list \<Rightarrow> string list \<Rightarrow> 'ip san_type set" where
  "certified_names P name hostnames ips =
     {DnsName n | n. n = name \<or> (\<exists>h \<in> set hostnames. pk_ia5 P h = Ok n)}
     \<union> {IpAddress a | a. \<exists>i \<in> set ips. pk_parse_ip P i = Some a}"

lemma node_sans:
  "set (DnsName name # valid_names P hostnames @ valid_ips P ips) = certified_names P name hostnames ips"
proof (rule set_eqI)
  fix x
  show "x \<in> set (DnsName name # valid_names P hostnames @ valid_ips P ips)
      \<longleftrightarrow> x \<in> certified_names P name hostnames ips"
    by (cases x) (auto simp: certified_names_def valid_names_mem valid_ips_mem)
qed

section \<open>Files that keep what is written\<close>

text \<open>A file system in which a successful write is read back and leaves other paths alone.\<close>

locale file_system =
  fixes P :: "('k, 'c, 'ip, 'w) pki_api"
  assumes read_written: "fs_write P path text w = (Ok (), w') \<Longrightarrow> fs_read P path w' = Ok text"
    and read_other: "fs_write P path text w = (r, w') \<Longrightarrow> other \<noteq> path \<Longrightarrow> fs_read P other w' = fs_read P other w"
    and exists_written: "fs_write P path text w = (Ok (), w') \<Longrightarrow> fs_exists P path w'"
    and exists_other: "fs_write P path text w = (r, w') \<Longrightarrow> fs_exists P other w \<Longrightarrow> fs_exists P other w'"
    and key_codec: "pk_from_pem P (pk_serialize P k) = Ok k"
begin

lemma save_two_files:
  assumes "fs_write P p a w = (Ok (), w1)" "fs_write P q b w1 = (Ok (), w2)" "p \<noteq> q"
  shows "fs_read P p w2 = Ok a" "fs_read P q w2 = Ok b"
  using read_written [OF assms(1)] read_other [OF assms(2), of p] read_written [OF assms(2)] assms(3)
  by simp_all

lemma ca_save_load:
  assumes "ca_save P ca cp kp w = (Ok (), w')" and "cp \<noteq> kp"
    and "extract_cn_from_pem P (ca_cert_pem ca) = Ok (ca_cn ca)"
  shows "ca_load P cp kp w' = Ok ca"
proof -
  obtain w1 where "fs_write P cp (ca_cert_pem ca) w = (Ok (), w1)"
    "fs_write P kp (pk_serialize P (ca_key_pair ca)) w1 = (Ok (), w')"
    using assms(1) by (auto simp: ca_save_def st_then_eq_Ok)
  from save_two_files [OF this assms(2)] assms(3) show ?thesis
    by (simp add: ca_load_def key_codec)
qed

lemma ca_clone_same: "ca_clone P ca = Some ca"
  by (simp add: ca_clone_def key_codec)

lemma ca_save_exists:
  assumes "ca_save P ca cp kp w = (Ok (), w')"
  shows "fs_exists P cp w' \<and> fs_exists P kp w'"
  using assms exists_written exists_other by (auto simp: ca_save_def st_then_eq_Ok)

lemma node_save_load:
  assumes "node_cert_save P c cp kp w = (Ok (), w')" and "cp \<noteq> kp"
    and "extract_cn_from_pem P (nc_cert_pem c) = Ok (nc_node_id c)"
  shows "node_cert_load P cp kp w' = Ok c"
proof -
  obtain w1 where "fs_write P cp (nc_cert_pem c) w = (Ok (), w1)" "fs_write P kp (nc_key_pem c) w1 = (Ok (), w')"
    using assms(1) by (auto simp: node_cert_save_def st_then_eq_Ok)
  from save_two_files [OF this assms(2)] assms(3) show ?thesis by (simp add: node_cert_load_def)
qed

end

end
