(* ===== verification/Enrollment.thy ===== *)
theory Enrollment
  imports HiveTypes Certs
begin

text \<open>
  \<open>EnrollmentManager\<close> of \<open>src/auth/enrollment.rs\<close>: one-time tokens and the table of enrolled nodes.
  The two tables have locks of their own, which \<open>enroll\<close> takes and releases several times, so it
  is written as its two parts, \<open>enroll_begin\<close> (the lookup of the token) and \<open>enroll_finish\<close> (what
  follows), and \<open>enroll\<close> runs them without a break. Random tokens, \<open>Utc::now()\<close> and the addition of
  chrono, which may panic (\<open>None\<close>), are parameters.

  The properties say what a successful enrolment required and did, that one token admits one node
  when enrolments do not overlap, and that it can admit two when they do.
\<close>

record EnrollmentRequest =
  rq_token :: string
  rq_node_id :: string
  rq_hostname :: string
  rq_hostnames :: "string list"
  rq_ips :: "string list"
  rq_tags :: "string list"

record PeerEndpoint =
  pe_node_id :: string
  pe_addr :: string

record EnrollmentResponse =
  rs_node_id :: string
  rs_cluster_id :: string
  rs_node_cert_pem :: string
  rs_node_key_pem :: string
  rs_ca_cert_pem :: string
  rs_peers :: "PeerEndpoint list"

record EnrolledNode =
  ed_node_id :: string
  ed_hostname :: string
  ed_addr :: string
  ed_tags :: "string list"
  ed_enrolled_at :: timestamp

record 'k EnrollmentManager =
  em_cluster_id :: string
  em_ca :: "'k CaCertificate"
  em_tokens :: "(string, EnrollmentToken) hmap"
  em_enrolled :: "(string, EnrolledNode) hmap"

datatype enroll_error =
    InvalidToken
  | ExpiredToken
  | TagsNotAllowed "string list" "string list"
  | CertError cert_error

definition manager_new :: "string \<Rightarrow> 'k CaCertificate \<Rightarrow> 'k EnrollmentManager" where
  "manager_new cluster_id ca =
     \<lparr>em_cluster_id = cluster_id, em_ca = ca, em_tokens = [], em_enrolled = []\<rparr>"

definition load_or_create ::
  "('k, 'c, 'ip, 'w) pki_api \<Rightarrow> string \<Rightarrow> string \<Rightarrow> 'w \<Rightarrow> (cert_error + 'k EnrollmentManager) \<times> 'w" where
  "load_or_create P data_dir cluster_id w =
     (let cert_path = path_join data_dir ''ca.crt''; key_path = path_join data_dir ''ca.key'' in
      st_then
        (if fs_exists P cert_path w \<and> fs_exists P key_path w
         then (ca_load P cert_path key_path w, w)
         else st_then (ca_generate P cluster_id w) (\<lambda>ca w.
                st_then (ca_save P ca cert_path key_path w) (\<lambda>_ w. (Ok ca, w))))
        (\<lambda>ca w. (Ok (manager_new cluster_id ca), w)))"

definition generate_token ::
  "(timestamp \<Rightarrow> int \<Rightarrow> timestamp option) \<Rightarrow> string \<Rightarrow> timestamp \<Rightarrow> int \<Rightarrow> string list
     \<Rightarrow> 'k EnrollmentManager \<Rightarrow> (EnrollmentToken \<times> 'k EnrollmentManager) option" where
  "generate_token plus_hours token now valid_hours allowed_tags m =
     (case plus_hours now valid_hours of
        None \<Rightarrow> None
      | Some expires \<Rightarrow>
          (let t = \<lparr>et_token = token, et_cluster_id = em_cluster_id m, et_expires_at = expires,
                    et_allowed_tags = allowed_tags\<rparr>
           in Some (t, m\<lparr>em_tokens := hm_insert token t (em_tokens m)\<rparr>)))"

definition enroll_begin ::
  "EnrollmentRequest \<Rightarrow> 'k EnrollmentManager \<Rightarrow> enroll_error + EnrollmentToken" where
  "enroll_begin req m =
     (case hm_get (em_tokens m) (rq_token req) of None \<Rightarrow> Err InvalidToken | Some t \<Rightarrow> Ok t)"

definition has_allowed_tag :: "EnrollmentRequest \<Rightarrow> EnrollmentToken \<Rightarrow> bool" where
  "has_allowed_tag req token = list_ex (\<lambda>t. t \<in> set (et_allowed_tags token)) (rq_tags req)"

definition known_peers :: "'k EnrollmentManager \<Rightarrow> PeerEndpoint list" where
  "known_peers m = map (\<lambda>n. \<lparr>pe_node_id = ed_node_id n, pe_addr = ed_addr n\<rparr>) (hm_values (em_enrolled m))"

definition enroll_finish ::
  "('k, 'c, 'ip, 'w) pki_api \<Rightarrow> timestamp \<Rightarrow> EnrollmentRequest \<Rightarrow> EnrollmentToken
     \<Rightarrow> 'k EnrollmentManager \<times> 'w \<Rightarrow> (enroll_error + EnrollmentResponse) \<times> 'k EnrollmentManager \<times> 'w" where
  "enroll_finish P now req token s =
     (let (m, w) = s in
      if now > et_expires_at token
      then (Err ExpiredToken, m\<lparr>em_tokens := hm_remove (rq_token req) (em_tokens m)\<rparr>, w)
      else if et_allowed_tags token \<noteq> [] \<and> \<not> has_allowed_tag req token
      then (Err (TagsNotAllowed (rq_tags req) (et_allowed_tags token)), m, w)
      else
        (case sign_node P (em_ca m) (rq_node_id req) (rq_hostnames req) (rq_ips req) w of
           (Inl e, w) \<Rightarrow> (Err (CertError e), m, w)
         | (Inr node_cert, w) \<Rightarrow>
             (let peers = known_peers m;
                  m = m\<lparr>em_tokens := hm_remove (rq_token req) (em_tokens m)\<rparr>
              in (Ok \<lparr>rs_node_id = rq_node_id req, rs_cluster_id = em_cluster_id m,
                      rs_node_cert_pem = nc_cert_pem node_cert, rs_node_key_pem = nc_key_pem node_cert,
                      rs_ca_cert_pem = ca_cert_pem (em_ca m), rs_peers = peers\<rparr>, m, w))))"

definition enroll ::
  "('k, 'c, 'ip, 'w) pki_api \<Rightarrow> timestamp \<Rightarrow> EnrollmentRequest
     \<Rightarrow> 'k EnrollmentManager \<times> 'w \<Rightarrow> (enroll_error + EnrollmentResponse) \<times> 'k EnrollmentManager \<times> 'w" where
  "enroll P now req s =
     (case enroll_begin req (fst s) of
        Inl e \<Rightarrow> (Err e, s)
      | Inr token \<Rightarrow> enroll_finish P now req token s)"

definition register_enrolled_node ::
  "timestamp \<Rightarrow> string \<Rightarrow> string \<Rightarrow> string \<Rightarrow> string list \<Rightarrow> 'k EnrollmentManager \<Rightarrow> 'k EnrollmentManager" where
  "register_enrolled_node now node_id hostname addr tags m =
     m\<lparr>em_enrolled := hm_insert node_id
         \<lparr>ed_node_id = node_id, ed_hostname = hostname, ed_addr = addr, ed_tags = tags,
          ed_enrolled_at = now\<rparr> (em_enrolled m)\<rparr>"

definition is_enrolled :: "string \<Rightarrow> 'k EnrollmentManager \<Rightarrow> bool" where
  "is_enrolled node_id m = hm_contains (em_enrolled m) node_id"

definition get_enrolled_nodes :: "'k EnrollmentManager \<Rightarrow> EnrolledNode list" where
  "get_enrolled_nodes m = hm_values (em_enrolled m)"

definition sign_node_cert ::
  "('k, 'c, 'ip, 'w) pki_api \<Rightarrow> 'k EnrollmentManager \<Rightarrow> string \<Rightarrow> string list \<Rightarrow> string list \<Rightarrow> 'w
     \<Rightarrow> (cert_error + NodeCertificate) \<times> 'w" where
  "sign_node_cert P m node_id hostnames ips w = sign_node P (em_ca m) node_id hostnames ips w"

section \<open>Lemmas\<close>

lemma enroll_Ok:
  assumes "enroll P now req (m, w) = (Ok resp, m', w')"
  obtains t c where "hm_get (em_tokens m) (rq_token req) = Some t" and "now \<le> et_expires_at t"
    and "et_allowed_tags t = [] \<or> (\<exists>x \<in> set (rq_tags req). x \<in> set (et_allowed_tags t))"
    and "sign_node P (em_ca m) (rq_node_id req) (rq_hostnames req) (rq_ips req) w = (Ok c, w')"
    and "m' = m\<lparr>em_tokens := hm_remove (rq_token req) (em_tokens m)\<rparr>"
    and "resp = \<lparr>rs_node_id = rq_node_id req, rs_cluster_id = em_cluster_id m,
      rs_node_cert_pem = nc_cert_pem c, rs_node_key_pem = nc_key_pem c,
      rs_ca_cert_pem = ca_cert_pem (em_ca m), rs_peers = known_peers m\<rparr>"
proof -
  obtain t where t: "hm_get (em_tokens m) (rq_token req) = Some t"
    using assms by (cases "hm_get (em_tokens m) (rq_token req)") (auto simp: enroll_def enroll_begin_def)
  with assms have f: "enroll_finish P now req t (m, w) = (Ok resp, m', w')"
    by (simp add: enroll_def enroll_begin_def)
  obtain r w1 where s: "sign_node P (em_ca m) (rq_node_id req) (rq_hostnames req) (rq_ips req) w = (r, w1)"
    by fastforce
  show thesis
  proof (cases r)
    case (Inr c)
    show thesis
      by (rule that [OF t, of c])
        (use f s Inr in \<open>auto simp: enroll_finish_def has_allowed_tag_def list_ex_iff Let_def
           split: if_splits\<close>)
  qed (use f s in \<open>auto simp: enroll_finish_def Let_def split: if_splits\<close>)
qed

lemma enroll_failed_tokens:
  assumes "enroll P now req (m, w) = (Err e, m', w')"
  shows "em_tokens m' = em_tokens m \<or> em_tokens m' = hm_remove (rq_token req) (em_tokens m)"
  using assms by (auto simp: enroll_def enroll_finish_def Let_def split: sum.splits if_splits prod.splits)

text \<open>Enrolments one after the other, each at its instant; the tokens of those that succeeded.\<close>

fun enroll_all ::
  "('k, 'c, 'ip, 'w) pki_api \<Rightarrow> (timestamp \<times> EnrollmentRequest) list \<Rightarrow> 'k EnrollmentManager \<times> 'w \<Rightarrow> string list" where
  "enroll_all P [] s = []"
| "enroll_all P ((now, req) # rest) s =
     (case enroll P now req s of
        (r, s') \<Rightarrow> (if is_ok r then [rq_token req] else []) @ enroll_all P rest s')"

lemma enroll_all_known:
  "k \<in> set (enroll_all P reqs (m, w)) \<Longrightarrow> hm_get (em_tokens m) k \<noteq> None"
proof (induction reqs arbitrary: m w)
  case (Cons x reqs)
  obtain now req where x: "x = (now, req)" by fastforce
  obtain r m' w' where r: "enroll P now req (m, w) = (r, m', w')" by (metis prod_cases3)
  show ?case
  proof (cases r)
    case (Inr resp)
    with r have "enroll P now req (m, w) = (Ok resp, m', w')" by simp
    then obtain t c where t: "hm_get (em_tokens m) (rq_token req) = Some t"
      "m' = m\<lparr>em_tokens := hm_remove (rq_token req) (em_tokens m)\<rparr>" by (rule enroll_Ok)
    from Cons.prems consider "k = rq_token req" | "k \<in> set (enroll_all P reqs (m', w'))"
      by (auto simp: x r split: if_splits)
    then show ?thesis
      using t Cons.IH [of m' w'] by cases (auto split: if_splits)
  next
    case (Inl e)
    then have "k \<in> set (enroll_all P reqs (m', w'))" using Cons.prems by (simp add: x r)
    then have "hm_get (em_tokens m') k \<noteq> None" by (rule Cons.IH)
    with enroll_failed_tokens [of P now req m w e m' w'] r Inl show ?thesis by (auto split: if_splits)
  qed
qed simp

lemma enroll_all_distinct: "distinct (enroll_all P reqs (m, w))"
proof (induction reqs arbitrary: m w)
  case (Cons x reqs)
  obtain now req where x: "x = (now, req)" by fastforce
  obtain r m' w' where r: "enroll P now req (m, w) = (r, m', w')" by (metis prod_cases3)
  have "rq_token req \<notin> set (enroll_all P reqs (m', w'))" if "is_ok r"
  proof
    assume "rq_token req \<in> set (enroll_all P reqs (m', w'))"
    then have known: "hm_get (em_tokens m') (rq_token req) \<noteq> None" by (rule enroll_all_known)
    from that r obtain resp where "enroll P now req (m, w) = (Ok resp, m', w')" by (cases r) auto
    then obtain t c where "m' = m\<lparr>em_tokens := hm_remove (rq_token req) (em_tokens m)\<rparr>" by (rule enroll_Ok)
    with known show False by simp
  qed
  with Cons.IH [of m' w'] show ?case by (simp add: x r)
qed simp

section \<open>A reference instance\<close>

text \<open>Keys and certificates are their own PEM texts, which are also their common names, every name and
  no address is valid; the world counts the keys made and holds the files.\<close>

record ref_world =
  rw_keys :: nat
  rw_files :: "(string, string) hmap"

definition ref_pki :: "(string, string, unit, ref_world) pki_api" where
  "ref_pki =
     \<lparr>pk_generate = (\<lambda>w. (Ok (''key'' @ show_nat (rw_keys w)), w\<lparr>rw_keys := Suc (rw_keys w)\<rparr>)),
      pk_serialize = id, pk_from_pem = Inr,
      pk_default = \<lparr>cp_is_ca = NoCa, cp_key_usages = [], cp_extended = [], cp_distinguished_name = [],
        cp_subject_alt_names = []\<rparr>,
      pk_self_signed = (\<lambda>p k w. (Ok (case map_of (cp_distinguished_name p) CommonName of
        Some cn \<Rightarrow> cn | None \<Rightarrow> []), w)),
      pk_signed_by = (\<lambda>p k c ck w. (Ok (''cert'' @ k), w)),
      pk_cert_pem = id, pk_ia5 = Inr, pk_parse_ip = (\<lambda>_. None), pk_common_names = (\<lambda>s. Inr [Some s]),
      fs_read = (\<lambda>p w. case hm_get (rw_files w) p of Some t \<Rightarrow> Ok t | None \<Rightarrow> Err ''No such file or directory''),
      fs_write = (\<lambda>p t w. (Ok (), w\<lparr>rw_files := hm_insert p t (rw_files w)\<rparr>)),
      fs_exists = (\<lambda>p w. hm_get (rw_files w) p \<noteq> None)\<rparr>"

definition ref_start :: ref_world where
  "ref_start = \<lparr>rw_keys = 0, rw_files = []\<rparr>"

interpretation ref_files: file_system ref_pki
  by unfold_locales (auto simp: ref_pki_def)

definition demo_ca :: "string CaCertificate" where
  "demo_ca = \<lparr>ca_key_pair = ''key'', ca_cn = ''FlockMind CA - c'', ca_cert_pem = ''ca''\<rparr>"

definition demo_manager :: "string EnrollmentManager" where
  "demo_manager = (manager_new ''c'' demo_ca)\<lparr>em_tokens :=
     [(''tok'', \<lparr>et_token = ''tok'', et_cluster_id = ''c'', et_expires_at = 100, et_allowed_tags = [''web'']\<rparr>)]\<rparr>"

definition demo_request :: "string \<Rightarrow> EnrollmentRequest" where
  "demo_request n = \<lparr>rq_token = ''tok'', rq_node_id = n, rq_hostname = ''h'', rq_hostnames = [], rq_ips = [],
     rq_tags = [''web'']\<rparr>"

section \<open>Properties\<close>

text \<open>C33. An enrolment succeeds only with a token that is stored, has not expired at the instant of the
  check and allows one of the node's tags (or any). It then has used up that token and no other,
  changed nothing else, and returned a certificate signed by the cluster's CA for the requested
  node id together with the CA certificate and the peers registered so far.\<close>

theorem enrolment_requires_valid_token:
  assumes "enroll P now req (m, w) = (Ok resp, m', w')"
  shows "\<exists>t c. hm_get (em_tokens m) (rq_token req) = Some t \<and> now \<le> et_expires_at t
    \<and> (et_allowed_tags t = [] \<or> (\<exists>x \<in> set (rq_tags req). x \<in> set (et_allowed_tags t)))
    \<and> (\<forall>k. hm_get (em_tokens m') k = (if k = rq_token req then None else hm_get (em_tokens m) k))
    \<and> em_enrolled m' = em_enrolled m
    \<and> sign_node P (em_ca m) (rq_node_id req) (rq_hostnames req) (rq_ips req) w = (Ok c, w')
    \<and> rs_node_cert_pem resp = nc_cert_pem c \<and> rs_node_id resp = rq_node_id req
    \<and> rs_ca_cert_pem resp = ca_cert_pem (em_ca m) \<and> rs_peers resp = known_peers m"
  using assms by (rule enroll_Ok) simp

theorem enrolment_requires_valid_token_witness:
  "\<exists>resp m' w'. enroll ref_pki 50 (demo_request ''n1'') (demo_manager, ref_start) = (Ok resp, m', w')
    \<and> rs_node_id resp = ''n1'' \<and> hm_get (em_tokens m') ''tok'' = None"
proof -
  obtain resp m' w' where r: "enroll ref_pki 50 (demo_request ''n1'') (demo_manager, ref_start) = (Ok resp, m', w')"
    by (simp add: enroll_def enroll_begin_def enroll_finish_def has_allowed_tag_def demo_manager_def
        demo_request_def manager_new_def hm_get_def sign_node_def ref_pki_def Let_def)
  from enrolment_requires_valid_token [OF r] r show ?thesis by (auto simp: demo_request_def)
qed

text \<open>C34. As long as enrolments do not overlap, a token admits at most one node: among any sequence of
  requests, the ones that succeed have pairwise different tokens.\<close>

theorem token_admits_one_node:
  "distinct (enroll_all P reqs (m, w))"
  by (rule enroll_all_distinct)

text \<open>Overlapping enrolments break this: when two requests have both looked up the same token before
  either has removed it, both succeed.\<close>

theorem overlapping_enrolments_share_token:
  assumes "enroll_begin r1 m = Ok t" and "enroll_begin r2 m = Ok t" and "rq_token r1 = rq_token r2"
    and "enroll_finish P now r1 t (m, w) = (Ok resp, m1, w1)"
    and "now2 \<le> et_expires_at t" and "et_allowed_tags t = [] \<or> has_allowed_tag r2 t"
    and "sign_node P (em_ca m1) (rq_node_id r2) (rq_hostnames r2) (rq_ips r2) w1 = (Ok c, w2)"
  shows "hm_get (em_tokens m1) (rq_token r2) = None
    \<and> (\<exists>resp2 m2. enroll_finish P now2 r2 t (m1, w1) = (Ok resp2, m2, w2) \<and> rs_node_id resp2 = rq_node_id r2)"
proof -
  have "hm_get (em_tokens m1) (rq_token r1) = None"
    using assms(4) by (auto simp: enroll_finish_def Let_def split: if_splits prod.splits sum.splits)
  with assms(3,5,6,7) show ?thesis by (auto simp: enroll_finish_def Let_def)
qed

theorem overlapping_enrolments_share_token_witness:
  "\<exists>t resp1 m1 w1 resp2 m2 w2.
     enroll_begin (demo_request ''n1'') demo_manager = Ok t
     \<and> enroll_begin (demo_request ''n2'') demo_manager = Ok t
     \<and> enroll_finish ref_pki 50 (demo_request ''n1'') t (demo_manager, ref_start) = (Ok resp1, m1, w1)
     \<and> enroll_finish ref_pki 60 (demo_request ''n2'') t (m1, w1) = (Ok resp2, m2, w2)
     \<and> rs_node_id resp2 = ''n2''"
proof -
  obtain t where t: "enroll_begin (demo_request ''n1'') demo_manager = Ok t"
    "enroll_begin (demo_request ''n2'') demo_manager = Ok t"
    "et_expires_at t = 100" "et_allowed_tags t = [''web'']"
    by (simp add: enroll_begin_def demo_manager_def demo_request_def manager_new_def hm_get_def)
  obtain resp m1 w1 where f: "enroll_finish ref_pki 50 (demo_request ''n1'') t (demo_manager, ref_start) = (Ok resp, m1, w1)"
    using t(3,4) by (simp add: enroll_finish_def has_allowed_tag_def demo_request_def sign_node_def ref_pki_def Let_def)
  have tags: "et_allowed_tags t = [] \<or> has_allowed_tag (demo_request ''n2'') t"
    by (simp add: t(4) has_allowed_tag_def demo_request_def)
  obtain c w2 where s: "sign_node ref_pki (em_ca m1) (rq_node_id (demo_request ''n2''))
      (rq_hostnames (demo_request ''n2'')) (rq_ips (demo_request ''n2'')) w1 = (Ok c, w2)"
    by (simp add: sign_node_def ref_pki_def Let_def)
  have "rq_token (demo_request ''n1'') = rq_token (demo_request ''n2'')" by (simp add: demo_request_def)
  from overlapping_enrolments_share_token [OF t(1,2) this f _ tags s, of 60] t(1,2,3) f show ?thesis
    by (fastforce simp: demo_request_def)
qed

text \<open>C35. The certificate of a node is never one of an authority: it is signed with parameters that mark
  it as an end entity for servers and clients, with the node id as its common name and its first
  alternative name, and the other alternative names are exactly the valid ones of those requested.\<close>

theorem node_certificates_are_leaves:
  assumes "sign_node P ca node_id hostnames ips w = (Ok c, w')"
  shows "\<exists>params name key ca_cert cert w1 w2.
      pk_self_signed P (make_ca_params P (ca_cn ca)) (ca_key_pair ca) w1 = (Ok ca_cert, w2)
    \<and> pk_signed_by P params key ca_cert (ca_key_pair ca) w2 = (Ok cert, w')
    \<and> nc_cert_pem c = pk_cert_pem P cert \<and> nc_node_id c = node_id
    \<and> cp_is_ca params = NoCa \<and> KeyCertSign \<notin> set (cp_key_usages params)
    \<and> map_of (cp_distinguished_name params) CommonName = Some node_id
    \<and> pk_ia5 P node_id = Ok name \<and> hd (cp_subject_alt_names params) = DnsName name
    \<and> set (cp_subject_alt_names params) = certified_names P name hostnames ips"
proof -
  obtain name key ca_cert cert w1 w2 where s: "pk_ia5 P node_id = Ok name"
    "pk_self_signed P (make_ca_params P (ca_cn ca)) (ca_key_pair ca) w1 = (Ok ca_cert, w2)"
    "pk_signed_by P (node_params P node_id (DnsName name # valid_names P hostnames @ valid_ips P ips)) key ca_cert
       (ca_key_pair ca) w2 = (Ok cert, w')"
    "c = \<lparr>nc_cert_pem = pk_cert_pem P cert, nc_key_pem = pk_serialize P key, nc_node_id = node_id\<rparr>"
    by (rule sign_node_Ok [OF assms])
  let ?sans = "DnsName name # valid_names P hostnames @ valid_ips P ips"
  have "set ?sans = certified_names P name hostnames ips" by (rule node_sans)
  with s show ?thesis
    by (intro exI [of _ "node_params P node_id ?sans"] exI [of _ name] exI [of _ key] exI [of _ ca_cert]
        exI [of _ cert] exI [of _ w1] exI [of _ w2]) (simp add: node_params_def)
qed

theorem node_certificates_are_leaves_witness:
  "\<exists>c w' (params :: unit CertificateParams). sign_node ref_pki demo_ca ''n1'' [''h''] [''1.2.3.4''] ref_start = (Ok c, w')
    \<and> cp_is_ca params = NoCa \<and> set (cp_subject_alt_names params) = {DnsName ''n1'', DnsName ''h''}
    \<and> nc_node_id c = ''n1''"
proof -
  obtain c w' where s: "sign_node ref_pki demo_ca ''n1'' [''h''] [''1.2.3.4''] ref_start = (Ok c, w')"
    by (simp add: sign_node_def ref_pki_def Let_def)
  let ?signed = "\<lambda>params name key ca_cert cert w1 w2.
      pk_self_signed ref_pki (make_ca_params ref_pki (ca_cn demo_ca)) (ca_key_pair demo_ca) w1 = (Ok ca_cert, w2)
    \<and> pk_signed_by ref_pki params key ca_cert (ca_key_pair demo_ca) w2 = (Ok cert, w')
    \<and> nc_cert_pem c = pk_cert_pem ref_pki cert \<and> nc_node_id c = ''n1''
    \<and> cp_is_ca params = NoCa \<and> KeyCertSign \<notin> set (cp_key_usages params)
    \<and> map_of (cp_distinguished_name params) CommonName = Some ''n1''
    \<and> pk_ia5 ref_pki ''n1'' = Ok name \<and> hd (cp_subject_alt_names params) = DnsName name
    \<and> set (cp_subject_alt_names params) = certified_names ref_pki name [''h''] [''1.2.3.4'']"
  obtain params name key ca_cert cert w1 w2 where p: "?signed params name key ca_cert cert w1 w2"
    using node_certificates_are_leaves [OF s] by (elim exE) (rule that)
  have "certified_names ref_pki name [''h''] [''1.2.3.4''] = {DnsName ''n1'', DnsName ''h''}"
    using p by (auto simp: ref_pki_def certified_names_def)
  with s p show ?thesis by (intro exI [of _ c] exI [of _ w'] exI [of _ params]) simp
qed

text \<open>The cluster's authority survives a restart: after a first start has generated and saved it,
  every later start with the same directory loads the same key, name and certificate, provided the
  common name in the certificate can be read back.\<close>

theorem authority_survives_restart:
  assumes "file_system P"
    and "\<not> (fs_exists P (path_join dir ''ca.crt'') w \<and> fs_exists P (path_join dir ''ca.key'') w)"
    and "load_or_create P dir cluster_id w = (Ok m, w')"
    and "extract_cn_from_pem P (ca_cert_pem (em_ca m)) = Ok (ca_cn (em_ca m))"
  shows "load_or_create P dir other_id w' = (Ok (manager_new other_id (em_ca m)), w')"
proof -
  have paths: "path_join dir ''ca.crt'' \<noteq> path_join dir ''ca.key''"
    by (simp add: path_join_def)
  obtain w1 where s: "ca_save P (em_ca m) (path_join dir ''ca.crt'') (path_join dir ''ca.key'') w1 = (Ok (), w')"
    using assms(2,3) by (auto simp: load_or_create_def Let_def st_then_eq_Ok manager_new_def split: if_splits)
  note file_system.ca_save_load [OF assms(1) s paths assms(4)] file_system.ca_save_exists [OF assms(1) s]
  then show ?thesis by (simp add: load_or_create_def Let_def)
qed

theorem authority_survives_restart_witness:
  "\<exists>m w'. load_or_create ref_pki ''/var/lib'' ''c'' ref_start = (Ok m, w')
    \<and> load_or_create ref_pki ''/var/lib'' ''c'' w' = (Ok (manager_new ''c'' (em_ca m)), w')"
proof -
  obtain m w' where m: "load_or_create ref_pki ''/var/lib'' ''c'' ref_start = (Ok m, w')"
    "extract_cn_from_pem ref_pki (ca_cert_pem (em_ca m)) = Ok (ca_cn (em_ca m))"
    by (simp add: load_or_create_def ref_pki_def ref_start_def ca_generate_def ca_save_def make_ca_params_def
        manager_new_def extract_cn_from_pem_def Let_def)
  have new: "\<not> (fs_exists ref_pki (path_join ''/var/lib'' ''ca.crt'') ref_start
      \<and> fs_exists ref_pki (path_join ''/var/lib'' ''ca.key'') ref_start)"
    by (simp add: ref_pki_def ref_start_def)
  from authority_survives_restart [OF ref_files.file_system_axioms new m] m(1) show ?thesis by blast
qed

end
