(* ===== verification/Tls.thy ===== *)
theory Tls
  imports Enrollment
begin

text \<open>
  The TLS configurations of \<open>src/auth/certs.rs\<close>. PEM, the root store, the verifier and the builders
  of configurations belong to the crates pem and rustls: the record \<open>tls_api\<close> holds their operations
  over abstract types of root stores \<open>'r\<close>, verifiers \<open>'v\<close>, server configurations \<open>'s\<close> and client
  configurations \<open>'l\<close>. What is modelled is what the code puts together: which certificates are
  presented, which are trusted, the order of the steps and the error of each.

  The locale \<open>mutual_tls\<close> states what rustls documents of a connection between two such
  configurations, in the direction that matters for safety: it comes about only if each side finds a
  path from the certificate the other presents, through the other certificates it presents, to one
  of its own roots. That it also checks names, periods of validity and usages can only refuse more,
  so nothing is claimed of when a connection does come about.
\<close>

datatype private_key = Pkcs8 "u8 list"

datatype tls_error =
    PemInvalid string
  | RootRejected string
  | VerifierNotBuilt string
  | ServerNotBuilt string
  | ClientNotBuilt string

fun tls_error_text :: "tls_error \<Rightarrow> string" where
  "tls_error_text (PemInvalid e) = e"
| "tls_error_text (RootRejected e) = e"
| "tls_error_text (VerifierNotBuilt e) = ''Failed to build client verifier: '' @ e"
| "tls_error_text (ServerNotBuilt e) = ''Failed to build server config: '' @ e"
| "tls_error_text (ClientNotBuilt e) = ''Failed to build client config: '' @ e"

record ('r, 'v, 's, 'l) tls_api =
  tl_pem :: "string \<Rightarrow> string + u8 list"
  tl_no_roots :: 'r
  tl_add_root :: "u8 list \<Rightarrow> 'r \<Rightarrow> string + 'r"
  tl_verifier :: "'r \<Rightarrow> string + 'v"
  tl_server :: "'v \<Rightarrow> u8 list list \<Rightarrow> private_key \<Rightarrow> string + 's"
  tl_client :: "'r \<Rightarrow> u8 list list \<Rightarrow> private_key \<Rightarrow> string + 'l"

definition cert_der :: "('r, 'v, 's, 'l) tls_api \<Rightarrow> NodeCertificate \<Rightarrow> tls_error + u8 list" where
  "cert_der T c = map_err PemInvalid (tl_pem T (nc_cert_pem c))"

definition key_der :: "('r, 'v, 's, 'l) tls_api \<Rightarrow> NodeCertificate \<Rightarrow> tls_error + private_key" where
  "key_der T c = try_then (map_err PemInvalid (tl_pem T (nc_key_pem c))) (\<lambda>contents. Ok (Pkcs8 contents))"

definition create_tls_config ::
  "('r, 'v, 's, 'l) tls_api \<Rightarrow> NodeCertificate \<Rightarrow> string \<Rightarrow> tls_error + 's" where
  "create_tls_config T node_cert ca_pem =
     try_then (cert_der T node_cert) (\<lambda>cert.
     try_then (key_der T node_cert) (\<lambda>key.
     try_then (map_err PemInvalid (tl_pem T ca_pem)) (\<lambda>ca_der.
     try_then (map_err RootRejected (tl_add_root T ca_der (tl_no_roots T))) (\<lambda>root_store.
     try_then (map_err VerifierNotBuilt (tl_verifier T root_store)) (\<lambda>client_verifier.
       map_err ServerNotBuilt (tl_server T client_verifier [cert] key))))))"

definition create_client_tls_config ::
  "('r, 'v, 's, 'l) tls_api \<Rightarrow> NodeCertificate \<Rightarrow> string \<Rightarrow> tls_error + 'l" where
  "create_client_tls_config T node_cert ca_pem =
     try_then (cert_der T node_cert) (\<lambda>cert.
     try_then (key_der T node_cert) (\<lambda>key.
     try_then (map_err PemInvalid (tl_pem T ca_pem)) (\<lambda>ca_der.
     try_then (map_err RootRejected (tl_add_root T ca_der (tl_no_roots T))) (\<lambda>root_store.
       map_err ClientNotBuilt (tl_client T root_store [cert] key)))))"

lemma create_tls_config_Ok:
  "create_tls_config T c ca = Ok s \<longleftrightarrow>
     (\<exists>der key root roots v. tl_pem T (nc_cert_pem c) = Ok der \<and> tl_pem T (nc_key_pem c) = Ok key
       \<and> tl_pem T ca = Ok root \<and> tl_add_root T root (tl_no_roots T) = Ok roots \<and> tl_verifier T roots = Ok v
       \<and> tl_server T v [der] (Pkcs8 key) = Ok s)"
  by (auto simp: create_tls_config_def cert_der_def key_der_def try_then_eq_Ok)

lemma create_client_tls_config_Ok:
  "create_client_tls_config T c ca = Ok l \<longleftrightarrow>
     (\<exists>der key root roots. tl_pem T (nc_cert_pem c) = Ok der \<and> tl_pem T (nc_key_pem c) = Ok key
       \<and> tl_pem T ca = Ok root \<and> tl_add_root T root (tl_no_roots T) = Ok roots
       \<and> tl_client T roots [der] (Pkcs8 key) = Ok l)"
  by (auto simp: create_client_tls_config_def cert_der_def key_der_def try_then_eq_Ok)

section \<open>Connections\<close>

text \<open>A root vouches for a certificate that it issued, and for one that was issued by a certificate
  among \<open>ds\<close> that it vouches for.\<close>

inductive vouched :: "(u8 list \<Rightarrow> u8 list \<Rightarrow> bool) \<Rightarrow> u8 list list \<Rightarrow> u8 list \<Rightarrow> u8 list \<Rightarrow> bool"
  for issued :: "u8 list \<Rightarrow> u8 list \<Rightarrow> bool" and ds :: "u8 list list" and root :: "u8 list" where
  by_root: "issued root d \<Longrightarrow> vouched issued ds root d"
| by_chain: "issued m d \<Longrightarrow> m \<in> set ds \<Longrightarrow> vouched issued ds root m \<Longrightarrow> vouched issued ds root d"

inductive_cases vouchedE: "vouched issued ds root d"

text \<open>Without other certificates only the root itself can have issued it.\<close>

lemma vouched_alone: "vouched issued [] root d \<Longrightarrow> issued root d"
  by (erule vouchedE) simp_all

text \<open>An empty store has no roots, and adding one adds that one. A verifier without a root is not
  built.\<close>

locale mutual_tls =
  fixes T :: "('r, 'v, 's, 'l) tls_api"
    and issued :: "u8 list \<Rightarrow> u8 list \<Rightarrow> bool"
    and roots_of :: "'r \<Rightarrow> u8 list set"
    and connects :: "'l \<Rightarrow> 's \<Rightarrow> bool"
  assumes no_roots: "roots_of (tl_no_roots T) = {}"
    and add_root: "tl_add_root T root r = Ok r' \<Longrightarrow> roots_of r' = insert root (roots_of r)"
    and connects_verified: "tl_verifier T r = Ok v \<Longrightarrow> tl_server T v (d # ds) key = Ok s \<Longrightarrow>
      tl_client T r' (d' # ds') key' = Ok l \<Longrightarrow> connects l s \<Longrightarrow>
      (\<exists>root \<in> roots_of r. vouched issued ds' root d') \<and> (\<exists>root \<in> roots_of r'. vouched issued ds root d)"
begin

lemma connects_issued:
  assumes "create_tls_config T c ca = Ok s" "create_client_tls_config T c' ca' = Ok l" "connects l s"
    and "tl_pem T (nc_cert_pem c) = Ok d" "tl_pem T (nc_cert_pem c') = Ok d'"
    and "tl_pem T ca = Ok root" "tl_pem T ca' = Ok root'"
  shows "issued root d' \<and> issued root' d"
proof -
  obtain key r v where s: "tl_add_root T root (tl_no_roots T) = Ok r" "tl_verifier T r = Ok v"
    "tl_server T v [d] (Pkcs8 key) = Ok s"
    using assms(1,4,6) by (auto simp: create_tls_config_Ok)
  obtain key' r' where l: "tl_add_root T root' (tl_no_roots T) = Ok r'" "tl_client T r' [d'] (Pkcs8 key') = Ok l"
    using assms(2,5,7) by (auto simp: create_client_tls_config_Ok)
  from connects_verified [OF s(2,3) l(2) assms(3)] add_root [OF s(1)] add_root [OF l(1)]
  show ?thesis by (simp add: no_roots vouched_alone)
qed

end

text \<open>The library in miniature: a certificate is the byte of its authority and that of its node, a
  root the byte of the authority, and a configuration what it was built from.\<close>

fun ref_issued :: "u8 list \<Rightarrow> u8 list \<Rightarrow> bool" where
  "ref_issued [a] (b # _) \<longleftrightarrow> a = b"
| "ref_issued _ _ \<longleftrightarrow> False"

definition ref_tls :: "(u8 list list, u8 list list, u8 list list \<times> u8 list list, u8 list list \<times> u8 list list) tls_api" where
  "ref_tls =
     \<lparr>tl_pem = (\<lambda>s. if s = [] then Err ''no PEM data'' else Ok (as_bytes s)),
      tl_no_roots = [], tl_add_root = (\<lambda>root r. Ok (root # r)),
      tl_verifier = (\<lambda>r. if r = [] then Err ''no root trust anchors'' else Ok r),
      tl_server = (\<lambda>v chain key. Ok (v, chain)), tl_client = (\<lambda>r chain key. Ok (r, chain))\<rparr>"

fun accepts_first :: "u8 list list \<Rightarrow> u8 list list \<Rightarrow> bool" where
  "accepts_first roots [] \<longleftrightarrow> False"
| "accepts_first roots (d # ds) \<longleftrightarrow> (\<exists>root \<in> set roots. ref_issued root d)"

definition ref_connects :: "u8 list list \<times> u8 list list \<Rightarrow> u8 list list \<times> u8 list list \<Rightarrow> bool" where
  "ref_connects l s \<longleftrightarrow> accepts_first (fst s) (snd l) \<and> accepts_first (fst l) (snd s)"

lemma ref_tls_law: "mutual_tls ref_tls ref_issued set ref_connects"
  by unfold_locales (auto simp: ref_tls_def ref_connects_def split: if_splits, (blast intro: vouched.by_root)+)

interpretation ref_tls: mutual_tls ref_tls ref_issued set ref_connects
  by (rule ref_tls_law)

section \<open>Properties\<close>

text \<open>C36. A TLS connection is made between nodes of the cluster only. When a server and a client
  configuration have been built, each from a node's certificate and the certificate of an
  authority, and a connection between them comes about, then the server's authority itself issued
  the client's certificate and the client's authority the server's: no intermediate certificate is
  presented, no other root is trusted, and a client without a certificate is refused.\<close>

theorem tls_connects_cluster_nodes_only:
  assumes "mutual_tls T issued roots_of connects"
    and "create_tls_config T c ca = Ok s" "create_client_tls_config T c' ca' = Ok l" "connects l s"
  shows "\<exists>d d' root root'. tl_pem T (nc_cert_pem c) = Ok d \<and> tl_pem T (nc_cert_pem c') = Ok d'
    \<and> tl_pem T ca = Ok root \<and> tl_pem T ca' = Ok root' \<and> issued root d' \<and> issued root' d"
proof -
  obtain d root where s: "tl_pem T (nc_cert_pem c) = Ok d" "tl_pem T ca = Ok root"
    using assms(2) by (auto simp: create_tls_config_Ok)
  obtain d' root' where l: "tl_pem T (nc_cert_pem c') = Ok d'" "tl_pem T ca' = Ok root'"
    using assms(3) by (auto simp: create_client_tls_config_Ok)
  from mutual_tls.connects_issued [OF assms s(1) l(1) s(2) l(2)] s l show ?thesis by blast
qed

text \<open>Two nodes of the authority \<open>a\<close> connect, one of the authority \<open>b\<close> is refused.\<close>

definition tls_node :: "string \<Rightarrow> NodeCertificate" where
  "tls_node pem = \<lparr>nc_cert_pem = pem, nc_key_pem = ''key'', nc_node_id = pem\<rparr>"

theorem tls_connects_cluster_nodes_only_witness:
  "\<exists>s l l'. create_tls_config ref_tls (tls_node ''a1'') ''a'' = Ok s
    \<and> create_client_tls_config ref_tls (tls_node ''a2'') ''a'' = Ok l \<and> ref_connects l s
    \<and> ref_issued (as_bytes ''a'') (as_bytes ''a2'')
    \<and> create_client_tls_config ref_tls (tls_node ''b1'') ''a'' = Ok l' \<and> \<not> ref_connects l' s"
proof -
  obtain s l l' where cfg: "create_tls_config ref_tls (tls_node ''a1'') ''a'' = Ok s"
    "create_client_tls_config ref_tls (tls_node ''a2'') ''a'' = Ok l"
    "create_client_tls_config ref_tls (tls_node ''b1'') ''a'' = Ok l'"
    and on: "ref_connects l s"
    by (simp add: create_tls_config_def create_client_tls_config_def cert_der_def key_der_def ref_tls_def tls_node_def
        ref_connects_def as_bytes_def)
  have pem: "tl_pem ref_tls ''a'' = Ok (as_bytes ''a'')" "tl_pem ref_tls (nc_cert_pem (tls_node x)) = (if x = [] then Err ''no PEM data'' else Ok (as_bytes x))" for x
    by (simp_all add: ref_tls_def tls_node_def)
  have other: "\<not> ref_issued (as_bytes ''a'') (as_bytes ''b1'')" by (simp add: as_bytes_def)
  from tls_connects_cluster_nodes_only [OF ref_tls_law cfg(1,2) on]
  have "ref_issued (as_bytes ''a'') (as_bytes ''a2'')" by (auto simp: pem)
  moreover have "\<not> ref_connects l' s"
  proof
    assume "ref_connects l' s"
    from tls_connects_cluster_nodes_only [OF ref_tls_law cfg(1,3) this] show False using other by (auto simp: pem)
  qed
  ultimately show ?thesis using cfg on by blast
qed

end
