(* ===== verification/Interleaving.thy ===== *)
theory Interleaving
  imports Api
begin

text \<open>
  The daemon as a state machine. \<open>Daemon\<close> runs a tick of a loop from its first call to its last;
  here the loops of \<open>src/daemon.rs\<close>, the handlers of \<open>src/api.rs\<close> and the other nodes of the cluster
  interleave at every access to the replicated state. A step of \<open>daemon_step\<close> is one such access: a
  read of the local state, one write, or the end of a process. What a loop holds between two steps is
  in its program counter: \<open>runner_pc\<close> for the task runner with \<open>run_task\<close> of \<open>src/executor/mod.rs\<close>,
  \<open>planner_pc\<close> for the planner with \<open>execute\<close>. A write is committed and answered, refused, or
  committed with the answer lost (\<open>write_result\<close>). \<open>Remote\<close> is a command of anyone else.

  Only the planner reads or writes the tracker, so the tracker operations of one action
  (\<open>round_ops\<close>) are made in the last step of that action. Whatever the brain answers is the plan of
  a \<open>PlannerTick\<close>; a tick of a node that does not lead, that has no goals or whose brain fails is one
  with the empty plan.

  \<open>run_task_as_steps\<close>, \<open>plan_step_as_steps\<close> and the lemmas after them relate both views: a tick of
  \<open>Daemon\<close> is a run of this machine in which nothing intervenes.
\<close>

section \<open>States and labels\<close>

datatype 'j runner_pc =
    RunnerIdle
  | RunnerReady "'j Task list"
  | RunnerStarted "'j Task" "'j Task list"
  | RunnerEnded "'j Task" "runner_error + 'j" "'j Task list"

datatype 'j planner_pc =
    PlannerIdle
  | PlannerReady "'j TrackedAction list" "'j BrainAction list"
  | PlannerChecked act_env "'j BrainAction" "'j TrackedAction list" "'j BrainAction list"
  | PlannerWriting act_env "'j BrainAction" "'j ClusterCommand" "'j TrackedAction list" "'j BrainAction list"

record 'j daemon_state =
  ds_hive :: "'j HiveState"
  ds_tracker :: "'j ActionTracker"
  ds_runner :: "'j runner_pc"
  ds_planner :: "'j planner_pc"

record 'j daemon_setup =
  dm_node :: NodeId
  dm_policy :: ExecutionPolicy
  dm_json :: "'j json_api"
  dm_fmt :: "timestamp \<Rightarrow> string"

datatype write_result = Committed | Refused | AnswerLost

fun settle_write :: "write_result \<Rightarrow> timestamp \<Rightarrow> 'j ClusterCommand \<Rightarrow> 'j HiveState \<Rightarrow> 'j HiveState" where
  "settle_write Committed now c s = apply_command now c s"
| "settle_write Refused now c s = s"
| "settle_write AnswerLost now c s = apply_command now c s"

datatype 'j daemon_label =
    RunnerTick
  | RunnerEnd
  | StartTask TaskId write_result
  | EndProcess TaskId
  | ReportTask TaskId write_result
  | PlannerTick "'j BrainAction list"
  | PlannerEnd
  | SkipAction
  | RejectAction
  | CheckAction
  | PlannerCommand "'j ClusterCommand"
  | NoCommand
  | PlannerWrite "'j ClusterCommand" write_result
  | Heartbeat write_result
  | SubmitTask "'j Task" write_result
  | SubmitGoal Goal write_result
  | Remote "'j ClusterCommand"

section \<open>Steps\<close>

inductive daemon_step :: "'j daemon_setup \<Rightarrow> 'j daemon_label \<Rightarrow> 'j daemon_state \<Rightarrow> 'j daemon_state \<Rightarrow> bool"
  for D :: "'j daemon_setup" where
  runner_tick: "ds_runner s = RunnerIdle \<Longrightarrow>
    daemon_step D RunnerTick s
      (s\<lparr>ds_runner := RunnerReady (my_pending (dm_node D) (to_cluster_view l t (ds_hive s)))\<rparr>)"
| runner_end: "ds_runner s = RunnerReady [] \<Longrightarrow> daemon_step D RunnerEnd s (s\<lparr>ds_runner := RunnerIdle\<rparr>)"
| start_task: "ds_runner s = RunnerReady (task # ts) \<Longrightarrow>
    daemon_step D (StartTask (tk_id task) out) s
      (s\<lparr>ds_hive := settle_write out now (UpdateTaskStatus (tk_id task) Running None) (ds_hive s),
         ds_runner := (if out = Committed then RunnerStarted task ts else RunnerReady ts)\<rparr>)"
| end_process: "ds_runner s = RunnerStarted task ts \<Longrightarrow>
    r = fst (run_payload (dm_json D) (S :: unit os_api) runner_new (tk_payload task) ()) \<Longrightarrow>
    daemon_step D (EndProcess (tk_id task)) s (s\<lparr>ds_runner := RunnerEnded task r ts\<rparr>)"
| report_task: "ds_runner s = RunnerEnded task r ts \<Longrightarrow>
    daemon_step D (ReportTask (tk_id task) out) s
      (s\<lparr>ds_hive := settle_write out now
           (UpdateTaskStatus (tk_id task) (fst (task_outcome r)) (snd (task_outcome r))) (ds_hive s),
         ds_runner := RunnerReady ts\<rparr>)"
| planner_tick: "ds_planner s = PlannerIdle \<Longrightarrow> tr = cleanup_stale now (ds_tracker s) \<Longrightarrow>
    daemon_step D (PlannerTick actions) s
      (s\<lparr>ds_tracker := tr, ds_planner := PlannerReady (get_recent_failures 10 tr) actions\<rparr>)"
| planner_end: "ds_planner s = PlannerReady fs [] \<Longrightarrow> daemon_step D PlannerEnd s (s\<lparr>ds_planner := PlannerIdle\<rparr>)"
| skip_action: "ds_planner s = PlannerReady fs (a # as) \<Longrightarrow>
    has_similar_pending a (ds_tracker s) \<or> is_recently_failed a fs \<Longrightarrow>
    daemon_step D SkipAction s (s\<lparr>ds_planner := PlannerReady fs as\<rparr>)"
| reject_action: "ds_planner s = PlannerReady fs (a # as) \<Longrightarrow>
    \<not> has_similar_pending a (ds_tracker s) \<Longrightarrow> \<not> is_recently_failed a fs \<Longrightarrow>
    validate (dm_policy D) a (to_cluster_view l t (ds_hive s)) = Err err \<Longrightarrow>
    daemon_step D RejectAction s
      (s\<lparr>ds_tracker := tracker_run (dm_fmt D) (round_ops e a (Inl (ExecInvalid err))) (ds_tracker s),
         ds_planner := PlannerReady fs as\<rparr>)"
| check_action: "ds_planner s = PlannerReady fs (a # as) \<Longrightarrow>
    \<not> has_similar_pending a (ds_tracker s) \<Longrightarrow> \<not> is_recently_failed a fs \<Longrightarrow>
    validate (dm_policy D) a (to_cluster_view l t (ds_hive s)) = Ok () \<Longrightarrow>
    daemon_step D CheckAction s (s\<lparr>ds_planner := PlannerChecked e a fs as\<rparr>)"
| planner_command: "ds_planner s = PlannerChecked e a fs as \<Longrightarrow>
    action_commands (ae_uuid e) (ae_t1 e) (ae_t2 e) a (ds_hive s) = [c] \<Longrightarrow>
    daemon_step D (PlannerCommand c) s (s\<lparr>ds_planner := PlannerWriting e a c fs as\<rparr>)"
| no_command: "ds_planner s = PlannerChecked e a fs as \<Longrightarrow>
    action_commands (ae_uuid e) (ae_t1 e) (ae_t2 e) a (ds_hive s) = [] \<Longrightarrow>
    daemon_step D NoCommand s
      (s\<lparr>ds_tracker := tracker_run (dm_fmt D) (round_ops e a (Inr ())) (ds_tracker s),
         ds_planner := PlannerReady fs as\<rparr>)"
| planner_write: "ds_planner s = PlannerWriting e a c fs as \<Longrightarrow>
    r = (if out = Committed then Inr () else Inl (ExecReplicator (WriteFailed msg))) \<Longrightarrow>
    daemon_step D (PlannerWrite c out) s
      (s\<lparr>ds_hive := settle_write out now c (ds_hive s),
         ds_tracker := tracker_run (dm_fmt D) (round_ops e a r) (ds_tracker s),
         ds_planner := PlannerReady fs as\<rparr>)"
| heartbeat: "daemon_step D (Heartbeat out) s
    (s\<lparr>ds_hive := settle_write out now (UpdateNodeHealth (dm_node D) Healthy collect_node_metrics) (ds_hive s)\<rparr>)"
| submit_task: "task = submitted_task uuid t1 t2 req \<Longrightarrow>
    daemon_step D (SubmitTask task out) s (s\<lparr>ds_hive := settle_write out now (PutTask task) (ds_hive s)\<rparr>)"
| submit_goal: "goal = requested_goal uuid t1 greq \<Longrightarrow>
    daemon_step D (SubmitGoal goal out) s (s\<lparr>ds_hive := settle_write out now (PutGoal goal) (ds_hive s)\<rparr>)"
| remote: "daemon_step D (Remote c) s (s\<lparr>ds_hive := apply_command now c (ds_hive s)\<rparr>)"

inductive daemon_run :: "'j daemon_setup \<Rightarrow> 'j daemon_label list \<Rightarrow> 'j daemon_state \<Rightarrow> 'j daemon_state \<Rightarrow> bool"
  for D :: "'j daemon_setup" where
  run_nil: "daemon_run D [] s s"
| run_cons: "daemon_step D l s s' \<Longrightarrow> daemon_run D ls s' s'' \<Longrightarrow> daemon_run D (l # ls) s s''"

inductive_cases daemon_run_ConsE [elim]: "daemon_run D (l # ls) s s'"

inductive_simps daemon_run_Nil [simp]: "daemon_run D [] s s'"
inductive_simps daemon_run_Cons: "daemon_run D (l # ls) s s'"

lemma daemon_run_append: "daemon_run D ls s s' \<Longrightarrow> daemon_run D ms s' s'' \<Longrightarrow> daemon_run D (ls @ ms) s s''"
  by (induction rule: daemon_run.induct) (auto intro: run_cons)

text \<open>A property that every step keeps is kept by every run; a step may rest on its label.\<close>

lemma run_keeps:
  assumes "daemon_run D ls s s'" "P s" "\<And>l. l \<in> set ls \<Longrightarrow> Q l"
    and "\<And>l u u'. daemon_step D l u u' \<Longrightarrow> Q l \<Longrightarrow> P u \<Longrightarrow> P u'"
  shows "P s'"
  using assms(1-3) by (induction rule: daemon_run.induct) (auto intro: assms(4))

definition daemon_initial :: "'j HiveState \<Rightarrow> 'j daemon_state" where
  "daemon_initial h = \<lparr>ds_hive = h, ds_tracker = tracker_new, ds_runner = RunnerIdle, ds_planner = PlannerIdle\<rparr>"


section \<open>Where payloads come from\<close>

definition payloads :: "'j HiveState \<Rightarrow> 'j TaskPayload set" where
  "payloads h = {p. \<exists>i t. task_of h i = Some t \<and> tk_payload t = p}"

fun brought :: "'j ClusterCommand \<Rightarrow> 'j TaskPayload set" where
  "brought (PutTask t) = {tk_payload t}"
| "brought _ = {}"

fun label_payloads :: "'j daemon_label \<Rightarrow> 'j TaskPayload set" where
  "label_payloads (SubmitTask t out) = {tk_payload t}"
| "label_payloads (Remote c) = brought c"
| "label_payloads _ = {}"

lemma payloads_task: "task_of h i = Some t \<Longrightarrow> tk_payload t \<in> payloads h"
  by (auto simp: payloads_def)

lemma payloads_get: "hm_get (hs_tasks h) i = Some t \<Longrightarrow> tk_payload t \<in> payloads h"
  using payloads_task [of h i "forget_updated t"] by (simp add: task_of_def)

lemma payloads_apply: "payloads (apply_command now c h) \<subseteq> payloads h \<union> brought c"
proof
  fix p
  assume "p \<in> payloads (apply_command now c h)"
  then obtain i t where t: "task_of (apply_command now c h) i = Some t" "p = tk_payload t"
    by (auto simp: payloads_def)
  show "p \<in> payloads h \<union> brought c"
    using t by (cases c) (auto simp: task_of_apply dest: payloads_task simp del: apply_command.simps split: if_splits)
qed

lemma payloads_write: "payloads (settle_write out now c h) \<subseteq> payloads h \<union> brought c"
  using payloads_apply by (cases out) auto

lemma action_brings:
  assumes "c \<in> set (action_commands uuid t1 t2 a h)"
  shows "brought c \<subseteq> payloads h \<union> {p. \<exists>n pr. a = ScheduleTask p n pr}"
  using assms
  by (cases a) (auto simp: new_task_def moved_task_def dest: payloads_get payloads_get [OF sym] split: option.splits)

text \<open>What the planner holds between its reads and its writes.\<close>

fun holds_only :: "'j TaskPayload set \<Rightarrow> 'j planner_pc \<Rightarrow> bool" where
  "holds_only P (PlannerChecked e a fs as) \<longleftrightarrow> (\<forall>p n pr. a = ScheduleTask p n pr \<longrightarrow> p \<in> P)"
| "holds_only P (PlannerWriting e a c fs as) \<longleftrightarrow> brought c \<subseteq> P"
| "holds_only P _ \<longleftrightarrow> True"

definition sourced :: "'j TaskPayload set \<Rightarrow> 'j daemon_state \<Rightarrow> bool" where
  "sourced P s \<longleftrightarrow> payloads (ds_hive s) \<subseteq> P \<and> holds_only P (ds_planner s)"

lemma checked_payload:
  "validate pol (ScheduleTask p n pr) v = Ok () \<Longrightarrow> payload_ok pol p"
  by (simp only: validate_Ok admissible.simps)

lemma step_payloads:
  assumes "daemon_step D l s s'" "label_payloads l \<subseteq> P" "{p. payload_ok (dm_policy D) p} \<subseteq> P"
    and "payloads (ds_hive s) \<subseteq> P \<and> holds_only P (ds_planner s)"
  shows "payloads (ds_hive s') \<subseteq> P \<and> holds_only P (ds_planner s')"
  using assms
proof (cases rule: daemon_step.cases)
  case (check_action fs a as l t e)
  then show ?thesis using assms(3,4) checked_payload by fastforce
next
  case (planner_command e a fs as c)
  then show ?thesis using assms(4) action_brings [of c "ae_uuid e" "ae_t1 e" "ae_t2 e" a "ds_hive s"] by auto
next
  case (planner_write e a c fs as r out msg now)
  then show ?thesis using assms(4) payloads_write [of out now c "ds_hive s"] by auto
next
  case (start_task task ts out now)
  then show ?thesis
    using assms(4) payloads_write [of out now "UpdateTaskStatus (tk_id task) Running None" "ds_hive s"] by auto
next
  case (report_task task r ts out now)
  then show ?thesis
    using assms(4) payloads_write [of out now "UpdateTaskStatus (tk_id task) (fst (task_outcome r))
      (snd (task_outcome r))" "ds_hive s"] by auto
next
  case (heartbeat out now)
  then show ?thesis
    using assms(4) payloads_write [of out now "UpdateNodeHealth (dm_node D) Healthy collect_node_metrics"
      "ds_hive s"] by auto
next
  case (submit_task task uuid t1 t2 req out now)
  then show ?thesis using assms(2,4) payloads_write [of out now "PutTask task" "ds_hive s"] by auto
next
  case (submit_goal goal uuid t1 greq out now)
  then show ?thesis using assms(2,4) payloads_write [of out now "PutGoal goal" "ds_hive s"] by auto
next
  case (remote c now)
  then show ?thesis using assms(2,4) payloads_apply [of now c "ds_hive s"] by auto
qed auto


lemma step_sourced:
  "daemon_step D l s s' \<Longrightarrow> label_payloads l \<subseteq> P \<Longrightarrow> {p. payload_ok (dm_policy D) p} \<subseteq> P
    \<Longrightarrow> sourced P s \<Longrightarrow> sourced P s'"
  unfolding sourced_def by (rule step_payloads)

section \<open>What is running\<close>

fun running_task :: "'j runner_pc \<Rightarrow> TaskId option" where
  "running_task (RunnerStarted task ts) = Some (tk_id task)"
| "running_task (RunnerEnded task r ts) = Some (tk_id task)"
| "running_task _ = None"

definition marks_running :: "'j ClusterCommand \<Rightarrow> bool" where
  "marks_running c \<longleftrightarrow>
     (case c of PutTask t \<Rightarrow> tk_status t = Running | UpdateTaskStatus i st r \<Rightarrow> st = Running | _ \<Rightarrow> False)"

definition running :: "'j HiveState \<Rightarrow> TaskId set" where
  "running h = {i. \<exists>t. task_of h i = Some t \<and> tk_status t = Running}"

text \<open>The writes of the runner are answered, and nobody else marks a task as running.\<close>

fun answered :: "'j daemon_label \<Rightarrow> bool" where
  "answered (StartTask i out) \<longleftrightarrow> out \<noteq> AnswerLost"
| "answered (ReportTask i out) \<longleftrightarrow> out \<noteq> Refused"
| "answered (Remote c) \<longleftrightarrow> \<not> marks_running c"
| "answered _ \<longleftrightarrow> True"

lemma running_apply: "\<not> marks_running c \<Longrightarrow> running (apply_command now c h) \<subseteq> running h"
  by (cases c) (auto simp: running_def marks_running_def task_of_apply simp del: apply_command.simps
      split: if_splits)

lemma running_write: "\<not> marks_running c \<Longrightarrow> running (settle_write out now c h) \<subseteq> running h"
  using running_apply by (cases out) auto

lemma running_update: "running (apply_command now (UpdateTaskStatus i st r) h) \<subseteq> running h \<union> {i}"
  by (auto simp: running_def task_of_apply simp del: apply_command.simps split: if_splits)

lemma running_done:
  "st \<noteq> Running \<Longrightarrow> running (apply_command now (UpdateTaskStatus i st r) h) \<subseteq> running h - {i}"
  by (auto simp: running_def task_of_apply simp del: apply_command.simps split: if_splits)

lemma action_marks: "c \<in> set (action_commands uuid t1 t2 a h) \<Longrightarrow> \<not> marks_running c"
  by (cases a) (auto simp: marks_running_def new_task_def moved_task_def split: option.splits)

lemma outcome_not_running: "fst (task_outcome r) \<noteq> Running"
  by (cases r) auto

fun never_marks :: "'j planner_pc \<Rightarrow> bool" where
  "never_marks (PlannerWriting e a c fs as) \<longleftrightarrow> \<not> marks_running c"
| "never_marks _ \<longleftrightarrow> True"

definition one_at_a_time :: "'j daemon_state \<Rightarrow> bool" where
  "one_at_a_time s \<longleftrightarrow> running (ds_hive s) \<subseteq> set_option (running_task (ds_runner s)) \<and> never_marks (ds_planner s)"

lemma step_one_at_a_time:
  assumes "daemon_step D l s s'" "answered l" "one_at_a_time s"
  shows "one_at_a_time s'"
  using assms
proof (cases rule: daemon_step.cases)
  case (start_task task ts out now)
  then show ?thesis
    using assms(2,3) running_update [of now "tk_id task" Running None "ds_hive s"]
    by (cases out) (auto simp: one_at_a_time_def simp del: apply_command.simps)
next
  case (report_task task r ts out now)
  then show ?thesis
    using assms(2,3) running_done [OF outcome_not_running, of now "tk_id task" r "snd (task_outcome r)" "ds_hive s"]
    by (cases out) (auto simp: one_at_a_time_def simp del: apply_command.simps)
next
  case (planner_command e a fs as c)
  then show ?thesis
    using assms(3) action_marks [of c "ae_uuid e" "ae_t1 e" "ae_t2 e" a "ds_hive s"]
    by (simp add: one_at_a_time_def)
next
  case (planner_write e a c fs as r out msg now)
  then show ?thesis using assms(3) running_write [of c out now "ds_hive s"] by (auto simp: one_at_a_time_def)
next
  case (heartbeat out now)
  then show ?thesis
    using assms(3) running_write [of "UpdateNodeHealth (dm_node D) Healthy collect_node_metrics" out now "ds_hive s"]
    by (auto simp: one_at_a_time_def marks_running_def)
next
  case (submit_task task uuid t1 t2 req out now)
  then show ?thesis
    using assms(3) running_write [of "PutTask task" out now "ds_hive s"]
    by (auto simp: one_at_a_time_def marks_running_def submitted_task_def)
next
  case (submit_goal goal uuid t1 greq out now)
  then show ?thesis
    using assms(3) running_write [of "PutGoal goal" out now "ds_hive s"]
    by (auto simp: one_at_a_time_def marks_running_def)
next
  case (remote c now)
  then show ?thesis
    using assms(2,3) running_apply [of c now "ds_hive s"]
    by (auto simp: one_at_a_time_def)
qed (auto simp: one_at_a_time_def)

section \<open>Tasks nobody touches\<close>

fun runner_queue :: "'j runner_pc \<Rightarrow> 'j Task list" where
  "runner_queue RunnerIdle = []"
| "runner_queue (RunnerReady ts) = ts"
| "runner_queue (RunnerStarted task ts) = task # ts"
| "runner_queue (RunnerEnded task r ts) = task # ts"

text \<open>Labels by which somebody other than the runner writes the task.\<close>

fun label_touches :: "TaskId \<Rightarrow> 'j daemon_label \<Rightarrow> bool" where
  "label_touches i (PlannerWrite c out) \<longleftrightarrow> touches_task i c"
| "label_touches i (SubmitTask task out) \<longleftrightarrow> tk_id task = i"
| "label_touches i (Remote c) \<longleftrightarrow> touches_task i c"
| "label_touches i _ \<longleftrightarrow> False"

definition abandoned :: "TaskId \<Rightarrow> 'j Task \<Rightarrow> 'j daemon_state \<Rightarrow> bool" where
  "abandoned i t s \<longleftrightarrow> hive_wf (ds_hive s) \<and> task_of (ds_hive s) i = Some t
     \<and> i \<notin> tk_id ` set (runner_queue (ds_runner s))"

lemma hive_wf_write [wf_intros]: "hive_wf h \<Longrightarrow> hive_wf (settle_write out now c h)"
  by (cases out) (auto intro: wf_intros)

lemma task_of_write: "\<not> touches_task i c \<Longrightarrow> task_of (settle_write out now c h) i = task_of h i"
  by (cases out) (auto simp: task_of_untouched simp del: apply_command.simps)

lemma my_pending_status:
  assumes "hive_wf h" "x \<in> set (my_pending n (to_cluster_view l u h))"
  shows "\<exists>t. task_of h (tk_id x) = Some t \<and> tk_status t = Pending \<and> tk_target_node t = n"
proof -
  have "hm_get (hs_tasks h) (tk_id x) = Some x"
    using assms keyed_values_mem [OF hive_wf_keyed(2) [OF assms(1)]] by (auto simp: my_pending_def)
  with assms(2) show ?thesis by (simp add: my_pending_def task_of_def)
qed

lemma step_abandoned:
  assumes "daemon_step D l s s'" "\<not> label_touches i l" "abandoned i t s" "tk_status t \<noteq> Pending"
  shows "abandoned i t s'"
  using assms
proof (cases rule: daemon_step.cases)
  case (runner_tick lead u)
  then show ?thesis
    using assms(3,4) my_pending_status [of "ds_hive s" _ "dm_node D" lead u] by (fastforce simp: abandoned_def)
qed (auto simp: abandoned_def task_of_write task_of_untouched hive_wf_write hive_wf_apply
    simp del: apply_command.simps)

section \<open>Running a task once\<close>

text \<open>A label by which somebody makes the task pending again.\<close>

definition makes_pending :: "TaskId \<Rightarrow> 'j ClusterCommand \<Rightarrow> bool" where
  "makes_pending i c \<longleftrightarrow>
     (case c of PutTask t \<Rightarrow> tk_id t = i \<and> tk_status t = Pending
      | UpdateTaskStatus j st r \<Rightarrow> j = i \<and> st = Pending | _ \<Rightarrow> False)"

fun label_reopens :: "TaskId \<Rightarrow> 'j daemon_label \<Rightarrow> bool" where
  "label_reopens i (PlannerWrite c out) \<longleftrightarrow> out \<noteq> Refused \<and> makes_pending i c"
| "label_reopens i (SubmitTask task out) \<longleftrightarrow> out \<noteq> Refused \<and> tk_id task = i"
| "label_reopens i (Remote c) \<longleftrightarrow> makes_pending i c"
| "label_reopens i _ \<longleftrightarrow> False"

definition not_pending :: "TaskId \<Rightarrow> 'j HiveState \<Rightarrow> bool" where
  "not_pending i h \<longleftrightarrow> (\<forall>t. task_of h i = Some t \<longrightarrow> tk_status t \<noteq> Pending)"

fun runner_waiting :: "'j runner_pc \<Rightarrow> 'j Task list" where
  "runner_waiting RunnerIdle = []"
| "runner_waiting (RunnerReady ts) = ts"
| "runner_waiting (RunnerStarted task ts) = ts"
| "runner_waiting (RunnerEnded task r ts) = ts"

fun has_started :: "TaskId \<Rightarrow> 'j runner_pc \<Rightarrow> bool" where
  "has_started i (RunnerStarted task ts) \<longleftrightarrow> tk_id task = i"
| "has_started i _ \<longleftrightarrow> False"

definition orderly :: "TaskId \<Rightarrow> 'j daemon_state \<Rightarrow> bool" where
  "orderly i s \<longleftrightarrow> hive_wf (ds_hive s) \<and> distinct (map tk_id (runner_queue (ds_runner s)))
     \<and> (running_task (ds_runner s) = Some i \<longrightarrow> not_pending i (ds_hive s))"

text \<open>How often the task may still be run.\<close>

definition allowance :: "TaskId \<Rightarrow> 'j daemon_state \<Rightarrow> nat" where
  "allowance i s =
     (if \<not> has_started i (ds_runner s) \<and> not_pending i (ds_hive s)
         \<and> i \<notin> tk_id ` set (runner_waiting (ds_runner s)) then 0 else 1)"

lemma not_pending_apply: "\<not> makes_pending i c \<Longrightarrow> not_pending i h \<Longrightarrow> not_pending i (apply_command now c h)"
  by (cases c) (auto simp: not_pending_def makes_pending_def task_of_apply simp del: apply_command.simps
      split: if_splits)

lemma not_pending_write: "out = Refused \<or> \<not> makes_pending i c \<Longrightarrow> not_pending i h \<Longrightarrow> not_pending i (settle_write out now c h)"
  using not_pending_apply by (cases out) auto

lemma not_pending_update:
  "st \<noteq> Pending \<Longrightarrow> not_pending i (apply_command now (UpdateTaskStatus i st r) h)"
  by (auto simp: not_pending_def task_of_apply simp del: apply_command.simps)

lemma my_pending_distinct:
  "hive_wf h \<Longrightarrow> distinct (map tk_id (my_pending n (to_cluster_view l t h)))"
  using keyed_values_distinct [OF hive_wf_keyed(2), of h]
  by (simp add: my_pending_def distinct_map_filter)

lemma my_pending_not_pending:
  "hive_wf h \<Longrightarrow> not_pending i h \<Longrightarrow> i \<notin> tk_id ` set (my_pending n (to_cluster_view l t h))"
  using my_pending_status [of h _ n l t] by (fastforce simp: not_pending_def)

lemma outcome_not_pending: "fst (task_outcome r) \<noteq> Pending"
  by (cases r) auto

lemma reopens_simps [simp]:
  "\<not> makes_pending i (UpdateTaskStatus j Running None)"
  "\<not> makes_pending i (UpdateTaskStatus j (fst (task_outcome r)) (snd (task_outcome r)))"
  "\<not> makes_pending i (UpdateNodeHealth n he m)"
  "\<not> makes_pending i (PutGoal g)"
  "makes_pending i (PutTask t) \<longleftrightarrow> tk_id t = i \<and> tk_status t = Pending"
  by (auto simp: makes_pending_def outcome_not_pending)

lemma step_orderly:
  assumes "daemon_step D l s s'" "\<not> label_reopens i l" "orderly i s"
  shows "orderly i s'"
  using assms
proof (cases rule: daemon_step.cases)
  case (start_task task ts out now)
  then show ?thesis using assms(3)
    by (auto simp: orderly_def hive_wf_apply not_pending_update hive_wf_write simp del: apply_command.simps)
qed (auto simp: orderly_def my_pending_distinct hive_wf_write hive_wf_apply not_pending_write not_pending_apply
    simp del: apply_command.simps)

lemma step_allowance:
  assumes "daemon_step D l s s'" "\<not> label_reopens i l" "orderly i s"
  shows "allowance i s' + (if l = EndProcess i then 1 else 0) \<le> allowance i s"
  using assms
proof (cases rule: daemon_step.cases)
  case (runner_tick lead u)
  then show ?thesis using assms(3)
    by (auto simp: allowance_def orderly_def my_pending_not_pending)
qed (auto simp: allowance_def orderly_def not_pending_write not_pending_apply simp del: apply_command.simps)

lemma run_allowance:
  assumes "daemon_run D ls s s'" "\<forall>l \<in> set ls. \<not> label_reopens i l" "orderly i s"
  shows "allowance i s' + length (filter (\<lambda>l. l = EndProcess i) ls) \<le> allowance i s"
  using assms
proof (induction rule: daemon_run.induct)
  case (run_cons l s s' ls s'')
  then show ?case
    using step_allowance [OF run_cons.hyps(1), of i] step_orderly [OF run_cons.hyps(1), of i]
    by (auto split: if_splits)
qed simp

lemma initial_allowance:
  assumes "daemon_run D ls (daemon_initial h) s" "hive_wf h" "\<forall>l \<in> set ls. \<not> label_reopens i l"
  shows "length (filter (\<lambda>l. l = EndProcess i) ls) \<le> (if not_pending i h then 0 else 1)"
proof -
  have "orderly i (daemon_initial h)" using assms(2) by (simp add: orderly_def daemon_initial_def)
  from run_allowance [OF assms(1,3) this] show ?thesis
    by (auto simp: allowance_def daemon_initial_def split: if_splits)
qed

section \<open>How long a tick takes\<close>

fun runner_work :: "'j runner_pc \<Rightarrow> nat" where
  "runner_work RunnerIdle = 0"
| "runner_work (RunnerReady ts) = 1 + 3 * length ts"
| "runner_work (RunnerStarted task ts) = 3 + 3 * length ts"
| "runner_work (RunnerEnded task r ts) = 2 + 3 * length ts"

fun planner_work :: "'j planner_pc \<Rightarrow> nat" where
  "planner_work PlannerIdle = 0"
| "planner_work (PlannerReady fs as) = 1 + 3 * length as"
| "planner_work (PlannerChecked e a fs as) = 3 + 3 * length as"
| "planner_work (PlannerWriting e a c fs as) = 2 + 3 * length as"

fun is_runner_step :: "'j daemon_label \<Rightarrow> bool" where
  "is_runner_step RunnerEnd \<longleftrightarrow> True"
| "is_runner_step (StartTask i out) \<longleftrightarrow> True"
| "is_runner_step (EndProcess i) \<longleftrightarrow> True"
| "is_runner_step (ReportTask i out) \<longleftrightarrow> True"
| "is_runner_step _ \<longleftrightarrow> False"

fun is_planner_step :: "'j daemon_label \<Rightarrow> bool" where
  "is_planner_step PlannerEnd \<longleftrightarrow> True"
| "is_planner_step SkipAction \<longleftrightarrow> True"
| "is_planner_step RejectAction \<longleftrightarrow> True"
| "is_planner_step CheckAction \<longleftrightarrow> True"
| "is_planner_step (PlannerCommand c) \<longleftrightarrow> True"
| "is_planner_step NoCommand \<longleftrightarrow> True"
| "is_planner_step (PlannerWrite c out) \<longleftrightarrow> True"
| "is_planner_step _ \<longleftrightarrow> False"

fun is_tick :: "'j daemon_label \<Rightarrow> bool" where
  "is_tick RunnerTick \<longleftrightarrow> True"
| "is_tick (PlannerTick as) \<longleftrightarrow> True"
| "is_tick _ \<longleftrightarrow> False"

lemma step_work:
  assumes "daemon_step D l s s'" "\<not> is_tick l"
  shows "runner_work (ds_runner s') + (if is_runner_step l then 1 else 0) \<le> runner_work (ds_runner s)
    \<and> planner_work (ds_planner s') + (if is_planner_step l then 1 else 0) \<le> planner_work (ds_planner s)"
  using assms by (cases rule: daemon_step.cases) auto

lemma run_work:
  assumes "daemon_run D ls s s'" "\<forall>l \<in> set ls. \<not> is_tick l"
  shows "runner_work (ds_runner s') + length (filter is_runner_step ls) \<le> runner_work (ds_runner s)
    \<and> planner_work (ds_planner s') + length (filter is_planner_step ls) \<le> planner_work (ds_planner s)"
  using assms
proof (induction rule: daemon_run.induct)
  case (run_cons l s s' ls s'')
  then show ?case using step_work [OF run_cons.hyps(1)] by (auto split: if_splits)
qed simp


section \<open>The loop as a run\<close>

text \<open>A replicator whose writes end as a script says, and processes that leave the state alone.\<close>

type_synonym ('j, 'o) local_world = "'j HiveState \<times> (timestamp \<times> write_result) list \<times> 'o"

fun local_apply ::
  "'j ClusterCommand \<Rightarrow> ('j, 'o) local_world \<Rightarrow> (replicator_error + unit) \<times> ('j, 'o) local_world" where
  "local_apply c (h, [], w) = (Err (WriteFailed []), (h, [], w))"
| "local_apply c (h, (now, out) # script, w) =
     (if out = Committed then Ok () else Err (WriteFailed []), (settle_write out now c h, script, w))"

definition local_replicator :: "('j, ('j, 'o) local_world) replicator_api" where
  "local_replicator =
     \<lparr>rp_apply = local_apply,
      rp_snapshot = (\<lambda>(h, script, w). (to_cluster_view None 0 h, (h, script, w))),
      rp_is_leader = (\<lambda>w. (True, w)), rp_leader_id = (\<lambda>w. (None, w)),
      rp_add_peer = (\<lambda>p w. (Ok (), w))\<rparr>"

definition beside :: "'o os_api \<Rightarrow> ('j, 'o) local_world os_api" where
  "beside S =
     \<lparr>os_run = (\<lambda>prog args t (h, script, w). let (r, w') = os_run S prog args t w in (r, (h, script, w'))),
      os_exists = (\<lambda>p (h, script, w). os_exists S p w)\<rparr>"

definition frozen :: "'o os_api \<Rightarrow> 'o \<Rightarrow> unit os_api" where
  "frozen S w =
     \<lparr>os_run = (\<lambda>prog args t u. (fst (os_run S prog args t w), ())), os_exists = (\<lambda>p u. os_exists S p w)\<rparr>"

lemma local_simps [simp]:
  "rp_apply local_replicator = local_apply"
  "rp_snapshot local_replicator (h, script, w) = (to_cluster_view None 0 h, (h, script, w))"
  "rp_is_leader local_replicator w' = (True, w')"
  by (simp_all add: local_replicator_def)

lemma local_apply_cases:
  assumes "local_apply c (h, script, w) = (r, h', script', w')"
  obtains out now where "h' = settle_write out now c h" "(out = Committed) = (r = Ok ())"
  using assms that [of Refused 0] that
  by (cases script) (auto split: if_splits)

lemma run_payload_beside:
  assumes "run_payload J (beside S) rn p (h, script, w) = (r, h', script', w')"
  shows "h' = h \<and> script' = script \<and> r = fst (run_payload J (frozen S w) rn p ())"
  using assms
  by (cases p) (auto simp: run_kind_defs beside_def frozen_def Let_def split: prod.splits if_splits)

lemma run_task_as_steps:
  assumes "run_task J (beside S) local_replicator (dm_node D) task (h, script, w) = (r, h', script', w')"
    and "tk_target_node task = dm_node D" "dm_json D = J"
    and "ds_hive s = h" "ds_runner s = RunnerReady (task # ts)"
  shows "\<exists>ls. daemon_run D ls s (s\<lparr>ds_hive := h', ds_runner := RunnerReady ts\<rparr>)
    \<and> (\<forall>l \<in> set ls. is_runner_step l)"
proof -
  let ?begun = "UpdateTaskStatus (tk_id task) Running None"
  obtain r1 h1 sc1 w1 where a: "local_apply ?begun (h, script, w) = (r1, h1, sc1, w1)"
    by (metis prod_cases4)
  obtain out now where o1: "h1 = settle_write out now ?begun h" "(out = Committed) = (r1 = Ok ())"
    by (rule local_apply_cases [OF a])
  have start: "daemon_step D (StartTask (tk_id task) out) s
      (s\<lparr>ds_hive := h1, ds_runner := (if r1 = Ok () then RunnerStarted task ts else RunnerReady ts)\<rparr>)"
    using daemon_step.start_task [OF assms(5), of D out now] o1 assms(4) by simp
  show ?thesis
  proof (cases r1)
    case (Inl e)
    have "h' = h1" using assms(1,2) a Inl by (simp add: run_task_def commit_def)
    with start Inl show ?thesis
      by (intro exI [of _ "[StartTask (tk_id task) out]"]) (auto intro: run_cons)
  next
    case (Inr u)
    obtain r2 h2 sc2 w2 where b: "run_payload J (beside S) runner_new (tk_payload task) (h1, sc1, w1) = (r2, h2, sc2, w2)"
      by (metis prod_cases4)
    note same = run_payload_beside [OF b]
    let ?done = "UpdateTaskStatus (tk_id task) (fst (task_outcome r2)) (snd (task_outcome r2))"
    obtain r3 h3 sc3 w3 where c: "local_apply ?done (h1, sc1, w2) = (r3, h3, sc3, w3)"
      by (metis prod_cases4)
    obtain out' now' where o2: "h3 = settle_write out' now' ?done h1" by (rule local_apply_cases [OF c])
    have h': "h' = h3"
      using assms(1,2) a b c same Inr
      by (cases r3; cases "task_outcome r2") (auto simp: run_task_def commit_def)
    let ?s1 = "s\<lparr>ds_hive := h1, ds_runner := RunnerStarted task ts\<rparr>"
    let ?s2 = "?s1\<lparr>ds_runner := RunnerEnded task r2 ts\<rparr>"
    have st1: "daemon_step D (StartTask (tk_id task) out) s ?s1" using start Inr by simp
    have st2: "daemon_step D (EndProcess (tk_id task)) ?s1 ?s2"
      using daemon_step.end_process [of ?s1 task ts r2 D "frozen S w1"] same assms(3) by simp
    have st3: "daemon_step D (ReportTask (tk_id task) out') ?s2 (s\<lparr>ds_hive := h', ds_runner := RunnerReady ts\<rparr>)"
      using daemon_step.report_task [of ?s2 task r2 ts D out' now'] o2 h' by simp
    from run_cons [OF st1 run_cons [OF st2 run_cons [OF st3 run_nil]]]
    show ?thesis
      by (intro exI [of _ "[StartTask (tk_id task) out, EndProcess (tk_id task), ReportTask (tk_id task) out']"])
        simp
  qed
qed

lemma run_tasks_as_steps:
  assumes "run_tasks J (beside S) local_replicator (dm_node D) ts (h, script, w) = (h', script', w')"
    and "\<forall>task \<in> set ts. tk_target_node task = dm_node D" "dm_json D = J"
    and "ds_hive s = h" "ds_runner s = RunnerReady ts"
  shows "\<exists>ls. daemon_run D ls s (s\<lparr>ds_hive := h', ds_runner := RunnerReady []\<rparr>)
    \<and> (\<forall>l \<in> set ls. is_runner_step l)"
  using assms
proof (induction ts arbitrary: h script w s)
  case Nil
  then have "s\<lparr>ds_hive := h', ds_runner := RunnerReady []\<rparr> = s" by simp
  then show ?case by (intro exI [of _ "[]"]) (simp only: daemon_run_Nil, simp)
next
  case (Cons task ts)
  obtain r h1 sc1 w1 where t: "run_task J (beside S) local_replicator (dm_node D) task (h, script, w) = (r, h1, sc1, w1)"
    by (metis prod_cases4)
  let ?s = "s\<lparr>ds_hive := h1, ds_runner := RunnerReady ts\<rparr>"
  obtain ls where ls: "daemon_run D ls s ?s" "\<forall>l \<in> set ls. is_runner_step l"
    using run_task_as_steps [OF t _ Cons.prems(3,4,5)] Cons.prems(2) by auto
  have "run_tasks J (beside S) local_replicator (dm_node D) ts (h1, sc1, w1) = (h', script', w')"
    using Cons.prems(1) t by simp
  from Cons.IH [OF this _ Cons.prems(3), of ?s] Cons.prems(2)
  obtain ms where ms: "daemon_run D ms ?s (?s\<lparr>ds_hive := h', ds_runner := RunnerReady []\<rparr>)"
    "\<forall>l \<in> set ms. is_runner_step l" by auto
  from daemon_run_append [OF ls(1) ms(1)] ls(2) ms(2) show ?case
    by (intro exI [of _ "ls @ ms"]) auto
qed


lemma my_pending_target: "x \<in> set (my_pending n v) \<Longrightarrow> tk_target_node x = n"
  by (simp add: my_pending_def)

lemma runner_tick_as_steps:
  assumes "task_runner_tick J (beside S) local_replicator (dm_node D) (h, script, w) = (h', script', w')"
    and "dm_json D = J" "ds_hive s = h" "ds_runner s = RunnerIdle"
  shows "\<exists>ls. daemon_run D (RunnerTick # ls) s (s\<lparr>ds_hive := h'\<rparr>) \<and> (\<forall>l \<in> set ls. is_runner_step l)"
proof -
  let ?ts = "my_pending (dm_node D) (to_cluster_view None 0 h)"
  let ?s = "s\<lparr>ds_runner := RunnerReady ?ts\<rparr>"
  have tick: "daemon_step D RunnerTick s ?s"
    using daemon_step.runner_tick [OF assms(4), of D None 0] assms(3) by simp
  have "run_tasks J (beside S) local_replicator (dm_node D) ?ts (h, script, w) = (h', script', w')"
    using assms(1) by (simp add: task_runner_tick_def)
  from run_tasks_as_steps [OF this _ assms(2), of ?s] assms(3)
  obtain ls where ls: "daemon_run D ls ?s (?s\<lparr>ds_hive := h', ds_runner := RunnerReady []\<rparr>)"
    "\<forall>l \<in> set ls. is_runner_step l" by (auto dest: my_pending_target)
  have "s\<lparr>ds_hive := h', ds_runner := RunnerIdle\<rparr> = s\<lparr>ds_hive := h'\<rparr>" using assms(4) by simp
  then have "daemon_step D RunnerEnd (?s\<lparr>ds_hive := h', ds_runner := RunnerReady []\<rparr>) (s\<lparr>ds_hive := h'\<rparr>)"
    using daemon_step.runner_end [of "?s\<lparr>ds_hive := h', ds_runner := RunnerReady []\<rparr>" D] by simp
  then have "daemon_run D [RunnerEnd] (?s\<lparr>ds_hive := h', ds_runner := RunnerReady []\<rparr>) (s\<lparr>ds_hive := h'\<rparr>)"
    by (rule run_cons) (rule run_nil)
  from run_cons [OF tick daemon_run_append [OF ls(1) this]] ls(2) show ?thesis
    by (intro exI [of _ "ls @ [RunnerEnd]"]) auto
qed

text \<open>The planner over the same replicator, with a brain whose call leaves the state alone.\<close>

definition beside_brain :: "('j, 'o) brain_api \<Rightarrow> ('j, ('j, 'o) local_world) brain_api" where
  "beside_brain B =
     \<lparr>br_plan = (\<lambda>goals view atts (h, script, w). let (r, w') = br_plan B goals view atts w in (r, (h, script, w')))\<rparr>"

lemma action_commands_short:
  obtains "action_commands uuid t1 t2 a h = []" | c where "action_commands uuid t1 t2 a h = [c]"
  by (cases a; cases "case a of RebalanceTask i n \<Rightarrow> hm_get (hs_tasks h) i | _ \<Rightarrow> None") simp_all

lemma perform_local:
  assumes "hive_wf h"
  shows "perform local_replicator uuid t1 t2 a (h, script, w) =
    (case action_commands uuid t1 t2 a h of [] \<Rightarrow> (Ok (), (h, script, w))
     | c # cs \<Rightarrow> st_map_err ExecReplicator (local_apply c (h, script, w)))"
  using assms by (cases a) (simp_all add: commit_def view_find_task [OF assms, of _ None 0, simplified] split: option.split)

lemma local_apply_error: "local_apply c (h, script, w) = (r, w') \<Longrightarrow> r = Ok () \<or> r = Err (WriteFailed [])"
  by (cases script) (auto split: if_splits)

lemma plan_step_as_steps:
  assumes "plan_step (dm_fmt D) local_replicator (dm_policy D) fs e a (tr, (h, script, w)) = (tr', (h', script', w'))"
    and "hive_wf h" "ds_hive s = h" "ds_tracker s = tr" "ds_planner s = PlannerReady fs (a # as)"
  shows "\<exists>ls. daemon_run D ls s (s\<lparr>ds_hive := h', ds_tracker := tr', ds_planner := PlannerReady fs as\<rparr>)
    \<and> (\<forall>l \<in> set ls. is_planner_step l)"
proof (cases rule: plan_step_cases [of a tr fs "dm_fmt D" local_replicator "dm_policy D" e "(h, script, w)"])
  case skipped
  have "s\<lparr>ds_hive := h', ds_tracker := tr', ds_planner := PlannerReady fs as\<rparr> = s\<lparr>ds_planner := PlannerReady fs as\<rparr>"
    using skipped(2) assms(1,3,4) by simp
  then have "daemon_step D SkipAction s (s\<lparr>ds_hive := h', ds_tracker := tr', ds_planner := PlannerReady fs as\<rparr>)"
    using daemon_step.skip_action [OF assms(5), of D] skipped(1) assms(4) by simp
  from run_cons [OF this run_nil] show ?thesis by (intro exI [of _ "[SkipAction]"]) simp
next
  case (acted r w1)
  have w1: "w1 = (h', script', w')" and tr': "tr' = tracker_run (dm_fmt D) (round_ops e a r) tr"
    using acted(4) assms(1) by simp_all
  note exec = acted(3) [unfolded execute_def w1, simplified]
  note fresh = acted(1,2) [folded assms(4)]
  show ?thesis
  proof (cases "validate (dm_policy D) a (to_cluster_view None 0 h)")
    case (Inl err)
    then have r: "r = Inl (ExecInvalid err)" "h' = h" using exec by simp_all
    have "s\<lparr>ds_hive := h', ds_tracker := tr', ds_planner := PlannerReady fs as\<rparr>
        = s\<lparr>ds_tracker := tr', ds_planner := PlannerReady fs as\<rparr>" using r(2) assms(3) by simp
    then have "daemon_step D RejectAction s (s\<lparr>ds_hive := h', ds_tracker := tr', ds_planner := PlannerReady fs as\<rparr>)"
      using daemon_step.reject_action [OF assms(5) fresh, of D None 0 err e] Inl assms(3,4) r(1) tr' by simp
    from run_cons [OF this run_nil] show ?thesis by (intro exI [of _ "[RejectAction]"]) simp
  next
    case (Inr u)
    let ?s1 = "s\<lparr>ds_planner := PlannerChecked e a fs as\<rparr>"
    let ?s' = "s\<lparr>ds_hive := h', ds_tracker := tr', ds_planner := PlannerReady fs as\<rparr>"
    have check: "daemon_step D CheckAction s ?s1"
      using daemon_step.check_action [OF assms(5) fresh, of D None 0 e] Inr assms(3) by simp
    have p: "perform local_replicator (ae_uuid e) (ae_t1 e) (ae_t2 e) a (h, script, w) = (r, (h', script', w'))"
      using exec Inr by simp
    show ?thesis
    proof (cases rule: action_commands_short [of "ae_uuid e" "ae_t1 e" "ae_t2 e" a h])
      case 1
      then have r: "r = Inr ()" "h' = h" using p by (simp_all add: perform_local [OF assms(2)])
      have "?s' = s\<lparr>ds_tracker := tr', ds_planner := PlannerReady fs as\<rparr>" using r(2) assms(3) by simp
      then have "daemon_step D NoCommand ?s1 ?s'"
        using daemon_step.no_command [of ?s1 e a fs as D] 1 assms(3,4) r(1) tr' by simp
      from run_cons [OF check run_cons [OF this run_nil]] show ?thesis
        by (intro exI [of _ "[CheckAction, NoCommand]"]) simp
    next
      case (2 c)
      obtain q where q: "local_apply c (h, script, w) = (q, h', script', w')" "r = map_err ExecReplicator q"
        using p 2 by (cases "local_apply c (h, script, w)") (auto simp: perform_local [OF assms(2)])
      obtain out now where o: "h' = settle_write out now c h" "(out = Committed) = (q = Ok ())"
        by (rule local_apply_cases [OF q(1)])
      have r: "r = (if out = Committed then Inr () else Inl (ExecReplicator (WriteFailed [])))"
        using local_apply_error [OF q(1)] o(2) q(2) by auto
      have cmd: "daemon_step D (PlannerCommand c) ?s1 (?s1\<lparr>ds_planner := PlannerWriting e a c fs as\<rparr>)"
        using daemon_step.planner_command [of ?s1 e a fs as c D] 2 assms(3) by simp
      have "daemon_step D (PlannerWrite c out) (?s1\<lparr>ds_planner := PlannerWriting e a c fs as\<rparr>) ?s'"
        using daemon_step.planner_write [OF _ r, of "?s1\<lparr>ds_planner := PlannerWriting e a c fs as\<rparr>" e a c fs as D now]
          o(1) tr' assms(3,4) by simp
      from run_cons [OF check run_cons [OF cmd run_cons [OF this run_nil]]] show ?thesis
        by (intro exI [of _ "[CheckAction, PlannerCommand c, PlannerWrite c out]"]) simp
    qed
  qed
qed

lemma plan_step_keeps_wf:
  assumes "plan_step fmt local_replicator pol fs e a (tr, (h, script, w)) = (tr', (h', script', w'))" "hive_wf h"
  shows "hive_wf h'"
proof (cases rule: plan_step_cases [of a tr fs fmt local_replicator pol e "(h, script, w)"])
  case skipped
  with assms show ?thesis by simp
next
  case (acted r w1)
  have wf: "hive_wf h1" if "local_apply c (h, script, w) = (q, h1, sc1, w1)" for c q h1 sc1 w1
    using local_apply_cases [OF that] hive_wf_write assms(2) by metis
  have "hive_wf h1" if "st_map_err ExecReplicator (local_apply c (h, script, w)) = (q, h1, sc1, w1)" for c q h1 sc1 w1
    using that wf [of c] by (cases "local_apply c (h, script, w)") auto
  then show ?thesis
    using acted(3,4) assms(1,2)
    by (cases "validate pol a (to_cluster_view None 0 h)";
        cases rule: action_commands_short [of "ae_uuid e" "ae_t1 e" "ae_t2 e" a h])
      (auto simp: execute_def perform_local split: prod.splits)
qed

lemma plan_steps_as_steps:
  assumes "plan_steps (dm_fmt D) local_replicator (dm_policy D) fs envs n as (tr, (h, script, w)) = (tr', (h', script', w'))"
    and "hive_wf h" "ds_hive s = h" "ds_tracker s = tr" "ds_planner s = PlannerReady fs as"
  shows "\<exists>ls. daemon_run D ls s (s\<lparr>ds_hive := h', ds_tracker := tr', ds_planner := PlannerReady fs []\<rparr>)
    \<and> (\<forall>l \<in> set ls. is_planner_step l)"
  using assms
proof (induction as arbitrary: n tr h script w s)
  case Nil
  then have "s\<lparr>ds_hive := h', ds_tracker := tr', ds_planner := PlannerReady fs []\<rparr> = s" by simp
  then show ?case by (intro exI [of _ "[]"]) (simp only: daemon_run_Nil, simp)
next
  case (Cons a as)
  obtain tr1 h1 sc1 w1 where t: "plan_step (dm_fmt D) local_replicator (dm_policy D) fs (envs n) a (tr, (h, script, w))
      = (tr1, (h1, sc1, w1))" by (metis prod_cases4)
  let ?s = "s\<lparr>ds_hive := h1, ds_tracker := tr1, ds_planner := PlannerReady fs as\<rparr>"
  obtain ls where ls: "daemon_run D ls s ?s" "\<forall>l \<in> set ls. is_planner_step l"
    using plan_step_as_steps [OF t Cons.prems(2-5)] by auto
  have "plan_steps (dm_fmt D) local_replicator (dm_policy D) fs envs (Suc n) as (tr1, (h1, sc1, w1)) = (tr', (h', script', w'))"
    using Cons.prems(1) t by simp
  from Cons.IH [OF this plan_step_keeps_wf [OF t Cons.prems(2)], of ?s]
  obtain ms where ms: "daemon_run D ms ?s (?s\<lparr>ds_hive := h', ds_tracker := tr', ds_planner := PlannerReady fs []\<rparr>)"
    "\<forall>l \<in> set ms. is_planner_step l" by auto
  from daemon_run_append [OF ls(1) ms(1)] ls(2) ms(2) show ?case
    by (intro exI [of _ "ls @ ms"]) auto
qed

lemma planner_tick_as_steps:
  assumes "planner_tick (dm_fmt D) local_replicator (dm_policy D) (beside_brain B) reg e (tr, (h, script, w))
      = (tr', (h', script', w'))"
    and "hive_wf h" "ds_hive s = h" "ds_tracker s = tr" "ds_planner s = PlannerIdle"
  shows "\<exists>actions ls. daemon_run D (PlannerTick actions # ls) s (s\<lparr>ds_hive := h', ds_tracker := tr'\<rparr>)
    \<and> (\<forall>l \<in> set ls. is_planner_step l)"
proof -
  let ?tr = "cleanup_stale (pe_now e) tr"
  let ?fs = "get_recent_failures 10 ?tr"
  obtain actions w1 where run: "plan_steps (dm_fmt D) local_replicator (dm_policy D) ?fs (pe_acts e) 0 actions
      (?tr, (h, script, w1)) = (tr', (h', script', w'))"
  proof (cases rule: planner_tick_cases [of local_replicator "(h, script, w)" "dm_fmt D" "dm_policy D" "beside_brain B" reg e tr])
    case (follower x)
    then show thesis using that [of "[]" w] assms(1) by (simp add: local_replicator_def)
  next
    case (no_goals x v y)
    then show thesis using that [of "[]" w] assms(1) by (auto simp: local_replicator_def)
  next
    case (no_plan x v y err z)
    then show thesis using that [of "[]"] assms(1) by (auto simp: local_replicator_def beside_brain_def split: prod.splits)
  next
    case (planned x v y actions z)
    then show thesis using that [of actions] assms(1)
      by (auto simp: local_replicator_def beside_brain_def split: prod.splits)
  qed
  let ?s = "s\<lparr>ds_tracker := ?tr, ds_planner := PlannerReady ?fs actions\<rparr>"
  let ?u = "?s\<lparr>ds_hive := h', ds_tracker := tr', ds_planner := PlannerReady ?fs []\<rparr>"
  have tick: "daemon_step D (PlannerTick actions) s ?s"
    using daemon_step.planner_tick [OF assms(5), of ?tr "pe_now e" D actions] assms(4) by simp
  obtain ls where ls: "daemon_run D ls ?s ?u" "\<forall>l \<in> set ls. is_planner_step l"
    using plan_steps_as_steps [OF run assms(2), of ?s] assms(3) by auto
  have "s\<lparr>ds_hive := h', ds_tracker := tr', ds_planner := PlannerIdle\<rparr> = s\<lparr>ds_hive := h', ds_tracker := tr'\<rparr>"
    using assms(5) by simp
  then have "daemon_step D PlannerEnd ?u (s\<lparr>ds_hive := h', ds_tracker := tr'\<rparr>)"
    using daemon_step.planner_end [of ?u ?fs D] by simp
  then have "daemon_run D [PlannerEnd] ?u (s\<lparr>ds_hive := h', ds_tracker := tr'\<rparr>)" by (rule run_cons) (rule run_nil)
  from run_cons [OF tick daemon_run_append [OF ls(1) this]] ls(2) show ?thesis
    by (intro exI [of _ actions] exI [of _ "ls @ [PlannerEnd]"]) auto
qed

text \<open>The runner is never stuck, whatever the answers to its writes.\<close>

lemma runner_moves:
  assumes "ds_runner s \<noteq> RunnerIdle"
  shows "\<exists>l s'. is_runner_step l \<and> daemon_step D l s s'"
proof (cases "ds_runner s")
  case (RunnerReady ts)
  then show ?thesis
    by (cases ts) (metis daemon_step.runner_end daemon_step.start_task is_runner_step.simps(1,2))+
qed (use assms in \<open>metis daemon_step.end_process daemon_step.report_task is_runner_step.simps(3,4)\<close>)+

lemma runner_finishes: "\<exists>ls s'. daemon_run D ls s s' \<and> list_all is_runner_step ls \<and> ds_runner s' = RunnerIdle"
proof (induction "runner_work (ds_runner s)" arbitrary: s rule: less_induct)
  case less
  show ?case
  proof (cases "ds_runner s = RunnerIdle")
    case True
    then show ?thesis by (intro exI [of _ "[]"] exI [of _ s]) simp
  next
    case False
    then obtain l u where l: "is_runner_step l" "daemon_step D l s u" using runner_moves by blast
    then have "runner_work (ds_runner u) < runner_work (ds_runner s)"
      using step_work [OF l(2)] by (cases l) auto
    from less [OF this] obtain ls s' where "daemon_run D ls u s'" "list_all is_runner_step ls" "ds_runner s' = RunnerIdle"
      by blast
    with l show ?thesis by (intro exI [of _ "l # ls"] exI [of _ s']) (auto intro: run_cons)
  qed
qed


lemma planner_moves:
  fixes D :: "'j daemon_setup"
  assumes "ds_planner s \<noteq> PlannerIdle"
  shows "\<exists>l s'. is_planner_step l \<and> daemon_step D l s s'"
proof (cases "ds_planner s")
  case (PlannerReady fs as)
  show ?thesis
  proof (cases as)
    case Nil
    with PlannerReady show ?thesis by (metis daemon_step.planner_end is_planner_step.simps(1))
  next
    case (Cons a bs)
    show ?thesis
    proof (cases "has_similar_pending a (ds_tracker s) \<or> is_recently_failed a fs")
      case True
      with PlannerReady Cons show ?thesis by (metis daemon_step.skip_action is_planner_step.simps(2))
    next
      case False
      then have fresh: "\<not> has_similar_pending a (ds_tracker s)" "\<not> is_recently_failed a fs" by simp_all
      note pc = PlannerReady [unfolded Cons]
      show ?thesis
      proof (cases "validate (dm_policy D) a (to_cluster_view None 0 (ds_hive s))")
        case (Inl err)
        from daemon_step.reject_action [OF pc fresh Inl] show ?thesis by (metis is_planner_step.simps(3))
      next
        case (Inr u)
        then have "validate (dm_policy D) a (to_cluster_view None 0 (ds_hive s)) = Ok ()" by simp
        from daemon_step.check_action [OF pc fresh this] show ?thesis by (metis is_planner_step.simps(4))
      qed
    qed
  qed
next
  case (PlannerChecked e a fs as)
  show ?thesis
    by (cases rule: action_commands_short [of "ae_uuid e" "ae_t1 e" "ae_t2 e" a "ds_hive s"])
      (metis PlannerChecked daemon_step.no_command daemon_step.planner_command is_planner_step.simps(5,6))+
next
  case (PlannerWriting e a c fs as)
  from daemon_step.planner_write [OF this refl] show ?thesis by (metis is_planner_step.simps(7))
qed (use assms in simp)

lemma planner_finishes:
  "\<exists>ls s'. daemon_run D ls s s' \<and> list_all is_planner_step ls \<and> ds_planner s' = PlannerIdle"
proof (induction "planner_work (ds_planner s)" arbitrary: s rule: less_induct)
  case less
  show ?case
  proof (cases "ds_planner s = PlannerIdle")
    case True
    then show ?thesis by (intro exI [of _ "[]"] exI [of _ s]) simp
  next
    case False
    then obtain l u where l: "is_planner_step l" "daemon_step D l s u" using planner_moves by blast
    then have "planner_work (ds_planner u) < planner_work (ds_planner s)"
      using step_work [OF l(2)] by (cases l) auto
    from less [OF this] obtain ls s' where "daemon_run D ls u s'" "list_all is_planner_step ls" "ds_planner s' = PlannerIdle"
      by blast
    with l show ?thesis by (intro exI [of _ "l # ls"] exI [of _ s']) (auto intro: run_cons)
  qed
qed

text \<open>The three steps of a task from the runner's queue.\<close>

lemma runner_pass:
  assumes "ds_runner s = RunnerReady (task # ts)"
  shows "\<exists>s'. daemon_run D [StartTask (tk_id task) Committed, EndProcess (tk_id task), ReportTask (tk_id task) Committed] s s'"
proof -
  obtain u where u: "daemon_step D (StartTask (tk_id task) Committed) s u" "ds_runner u = RunnerStarted task ts"
    using daemon_step.start_task [OF assms, of D Committed undefined] by simp
  then obtain v r where v: "daemon_step D (EndProcess (tk_id task)) u v" "ds_runner v = RunnerEnded task r ts"
    using daemon_step.end_process [OF u(2) refl] by fastforce
  obtain x where x: "daemon_step D (ReportTask (tk_id task) Committed) v x"
    using daemon_step.report_task [OF v(2)] by blast
  from run_cons [OF u(1) run_cons [OF v(1) run_cons [OF x run_nil]]] show ?thesis by (rule exI)
qed

lemma pass_effect:
  assumes "daemon_run D [StartTask i Committed, EndProcess i, ReportTask i Committed] s s'"
    and "ds_runner s = RunnerReady (task # ts)" "task_of (ds_hive s) i = Some t"
  shows "\<exists>S r. r = fst (run_payload (dm_json D) (S :: unit os_api) runner_new (tk_payload task) ())
    \<and> task_of (ds_hive s') i = Some (t\<lparr>tk_status := fst (task_outcome r), tk_result := snd (task_outcome r)\<rparr>)
    \<and> ds_runner s' = RunnerReady ts"
proof -
  obtain u v where st: "daemon_step D (StartTask i Committed) s u" "daemon_step D (EndProcess i) u v"
    "daemon_step D (ReportTask i Committed) v s'"
    using assms(1) by (auto simp: daemon_run_Cons)
  have u: "tk_id task = i" "ds_runner u = RunnerStarted task ts"
    "task_of (ds_hive u) i = Some (t\<lparr>tk_status := Running, tk_result := None\<rparr>)"
    using st(1) assms(2,3)
    by (auto elim!: daemon_step.cases simp: task_of_apply simp del: apply_command.simps)
  obtain S r where v: "r = fst (run_payload (dm_json D) (S :: unit os_api) runner_new (tk_payload task) ())"
    "ds_runner v = RunnerEnded task r ts" "ds_hive v = ds_hive u"
    using st(2) u(2) by cases auto
  have "task_of (ds_hive s') i = Some (t\<lparr>tk_status := fst (task_outcome r), tk_result := snd (task_outcome r)\<rparr>)
      \<and> ds_runner s' = RunnerReady ts"
    using st(3) v u by cases (auto simp: task_of_apply simp del: apply_command.simps)
  with v(1) show ?thesis by blast
qed

end
