(* ===== verification/Busy.thy ===== *)
theory Busy
  imports ExecProps Interleaving
begin

text \<open>
  \<open>HiveExecutor::execute\<close> of \<open>src/executor/mod.rs\<close> while others write. The replicator of this theory
  runs a script: each call takes the next \<open>turn\<close>, which says what the other nodes and loops commit
  before the call looks at the state, how the call's own write ends, and what they commit between
  the write and the answer. So a world is a state with a script, every interleaving of the call with
  other writers is a script, and the property gives the answer and the state of \<open>execute\<close> under
  each of them exactly.
\<close>

record 'j turn =
  tn_before :: "(timestamp \<times> 'j ClusterCommand) list"
  tn_view :: "NodeId option \<times> u64"
  tn_write :: write_result
  tn_now :: timestamp
  tn_error :: replicator_error
  tn_after :: "(timestamp \<times> 'j ClusterCommand) list"

record 'j busy =
  bz_hive :: "'j HiveState"
  bz_script :: "nat \<Rightarrow> 'j turn"
  bz_calls :: nat
  bz_written :: "'j ClusterCommand list"

definition turn_of :: "'j busy \<Rightarrow> nat \<Rightarrow> 'j turn" where
  "turn_of w k = bz_script w (bz_calls w + k)"

text \<open>The state that the next call, or the one after \<open>k\<close> more, finds on top of \<open>h\<close>.\<close>

definition found :: "'j busy \<Rightarrow> nat \<Rightarrow> 'j HiveState \<Rightarrow> 'j HiveState" where
  "found w k h = apply_log (tn_before (turn_of w k)) h"

definition busy_look :: "'j busy \<Rightarrow> 'j busy" where
  "busy_look w = w\<lparr>bz_hive := found w 0 (bz_hive w), bz_calls := Suc (bz_calls w)\<rparr>"

definition busy_apply :: "'j ClusterCommand \<Rightarrow> 'j busy \<Rightarrow> (replicator_error + unit) \<times> 'j busy" where
  "busy_apply c w =
     (let tn = turn_of w 0;
          h = apply_log (tn_after tn) (settle_write (tn_write tn) (tn_now tn) c (found w 0 (bz_hive w)))
      in (if tn_write tn = Committed then Ok () else Err (tn_error tn),
          w\<lparr>bz_hive := h, bz_calls := Suc (bz_calls w), bz_written := bz_written w @ [c]\<rparr>))"

definition busy_replicator :: "('j, 'j busy) replicator_api" where
  "busy_replicator =
     \<lparr>rp_apply = busy_apply,
      rp_snapshot = (\<lambda>w. (case tn_view (turn_of w 0) of (leader, term) \<Rightarrow>
        to_cluster_view leader term (bz_hive (busy_look w)), busy_look w)),
      rp_is_leader = (\<lambda>w. (fst (tn_view (turn_of w 0)) \<noteq> None, busy_look w)),
      rp_leader_id = (\<lambda>w. (fst (tn_view (turn_of w 0)), busy_look w)),
      rp_add_peer = (\<lambda>p w. (Ok (), busy_look w))\<rparr>"

lemma busy_simps [simp]:
  "rp_apply busy_replicator = busy_apply"
  "rp_snapshot busy_replicator w = (to_cluster_view (fst (tn_view (turn_of w 0))) (snd (tn_view (turn_of w 0)))
     (found w 0 (bz_hive w)), busy_look w)"
  "rp_is_leader busy_replicator w = (fst (tn_view (turn_of w 0)) \<noteq> None, busy_look w)"
  "bz_hive (busy_look w) = found w 0 (bz_hive w)" "bz_calls (busy_look w) = Suc (bz_calls w)"
  "bz_written (busy_look w) = bz_written w" "bz_script (busy_look w) = bz_script w"
  by (simp_all add: busy_replicator_def busy_look_def split: prod.split)

lemma turn_of_look [simp]: "turn_of (busy_look w) k = turn_of w (Suc k)"
  by (simp add: turn_of_def)

lemma found_look [simp]: "found (busy_look w) k h = found w (Suc k) h"
  by (simp add: found_def)

lemma found_evolves: "evolves (map snd (tn_before (turn_of w k))) h (found w k h)"
  unfolding found_def by (rule evolves_apply_log)

lemma found_wf: "hive_wf h \<Longrightarrow> hive_wf (found w k h)"
  by (simp add: found_def hive_wf_apply_log)

text \<open>The contract of the replicator holds for it, with others writing: this is an instance of
  \<open>replicator\<close> that is not one of \<open>quiet_replicator\<close>.\<close>

lemma busy_apply_evolves:
  "busy_apply c w = (r, w') \<Longrightarrow> \<exists>cs ds. if is_ok r then evolves (cs @ c # ds) (bz_hive w) (bz_hive w')
     else evolves cs (bz_hive w) (bz_hive w')"
proof -
  assume w': "busy_apply c w = (r, w')"
  let ?tn = "turn_of w 0" and ?h = "found w 0 (bz_hive w)"
  let ?b = "map snd (tn_before ?tn)" and ?a = "map snd (tn_after ?tn)"
  have a: "evolves ?a h (apply_log (tn_after ?tn) h)" for h by (rule evolves_apply_log)
  show ?thesis
  proof (cases "tn_write ?tn = Refused")
    case True
    from evolves_trans [OF found_evolves [of w 0 "bz_hive w"] a [of ?h]] w' True show ?thesis
      by (auto simp: busy_apply_def Let_def)
  next
    case False
    then have s: "settle_write (tn_write ?tn) (tn_now ?tn) c ?h = apply_command (tn_now ?tn) c ?h"
      by (cases "tn_write ?tn") simp_all
    from evolves_trans [OF found_evolves evolves_trans [OF evolves_command [where now = "tn_now ?tn" and c = c] a]]
    have "evolves (?b @ c # ?a) (bz_hive w) (bz_hive w')"
      using w' by (auto simp: busy_apply_def Let_def s simp del: apply_command.simps)
    then show ?thesis by (auto split: if_splits)
  qed
qed

interpretation busy: replicator busy_replicator bz_hive
proof unfold_locales
  fix w w' :: "'a busy" and v
  assume "rp_snapshot busy_replicator w = (v, w')"
  then have "v = to_cluster_view (fst (tn_view (turn_of w 0))) (snd (tn_view (turn_of w 0))) (bz_hive w')" by auto
  then show "\<exists>l t. v = to_cluster_view l t (bz_hive w')" by blast
next
  fix w w' :: "'a busy" and v
  assume "rp_snapshot busy_replicator w = (v, w')"
  then show "\<exists>cs. evolves cs (bz_hive w) (bz_hive w')" using found_evolves [of w 0 "bz_hive w"] by auto
next
  fix w w' :: "'a busy" and c
  assume "rp_apply busy_replicator c w = (Ok (), w')"
  then show "\<exists>cs ds. evolves (cs @ c # ds) (bz_hive w) (bz_hive w')" using busy_apply_evolves [of c w] by fastforce
next
  fix w w' :: "'a busy" and c e
  assume "rp_apply busy_replicator c w = (Err e, w')"
  then show "\<exists>cs. evolves cs (bz_hive w) (bz_hive w')" using busy_apply_evolves [of c w] by fastforce
next
  fix w w' :: "'a busy" and b
  assume "rp_is_leader busy_replicator w = (b, w')"
  then show "\<exists>cs. evolves cs (bz_hive w) (bz_hive w')" using found_evolves [of w 0 "bz_hive w"] by auto
qed

section \<open>Carrying an action out\<close>

text \<open>Rebalancing looks at the state a second time, to find the task it moves.\<close>

fun looks_twice :: "'j BrainAction \<Rightarrow> bool" where
  "looks_twice (RebalanceTask i n) \<longleftrightarrow> True"
| "looks_twice _ \<longleftrightarrow> False"

text \<open>The world after the commands \<open>cs\<close>, at most one, were handed to the replicator.\<close>

fun hand_over :: "'j ClusterCommand list \<Rightarrow> 'j busy \<Rightarrow> (exec_error + unit) \<times> 'j busy" where
  "hand_over [] w = (Ok (), w)"
| "hand_over (c # cs) w =
     (if tn_write (turn_of w 0) = Committed then Ok () else Err (ExecReplicator (tn_error (turn_of w 0))),
      w\<lparr>bz_hive := apply_log (tn_after (turn_of w 0))
          (settle_write (tn_write (turn_of w 0)) (tn_now (turn_of w 0)) c (found w 0 (bz_hive w))),
        bz_calls := Suc (bz_calls w), bz_written := bz_written w @ [c]\<rparr>)"

lemma commit_busy: "commit busy_replicator c w = hand_over [c] w"
  by (simp add: commit_def busy_apply_def Let_def st_map_err_def)

lemma perform_busy:
  assumes "hive_wf (bz_hive w)"
  shows "perform busy_replicator uuid t1 t2 a w =
     (let u = (if looks_twice a then busy_look w else w) in hand_over (action_commands uuid t1 t2 a (bz_hive u)) u)"
proof (cases a)
  case (RebalanceTask i n)
  have "find (\<lambda>t. tk_id t = i) (hm_values (hs_tasks (found w 0 (bz_hive w)))) = hm_get (hs_tasks (found w 0 (bz_hive w))) i"
    by (rule keyed_find [OF hive_wf_keyed(2) [OF found_wf [OF assms]]])
  then show ?thesis by (simp add: RebalanceTask commit_busy Let_def del: hand_over.simps(2) split: option.split)
qed (simp_all add: commit_busy del: hand_over.simps(2))

section \<open>Properties\<close>

text \<open>C38. \<open>execute\<close> while others write. Whatever the others commit before, between and after its
  calls, and however its own write ends: the action is validated on the state the snapshot shows,
  and when the policy or that state does not admit it, the answer is the refusal and nothing is
  handed to the replicator. When it does, exactly the commands the action stands for are handed
  over, computed, for a rebalancing, on the state of a second snapshot; they take effect on top of
  what the others committed in the meantime, without another look; and the answer is the one the
  replicator gives.\<close>

theorem execute_under_interference:
  assumes "hive_wf (bz_hive w)"
  shows "if admissible pol (to_cluster_view None 0 (found w 0 (bz_hive w))) a
    then execute busy_replicator pol uuid t1 t2 a w =
      (let u = (if looks_twice a then busy_look (busy_look w) else busy_look w)
       in hand_over (action_commands uuid t1 t2 a (bz_hive u)) u)
    else \<exists>e. execute busy_replicator pol uuid t1 t2 a w = (Err (ExecInvalid e), busy_look w)"
proof -
  have wf: "hive_wf (bz_hive (busy_look w))" using assms by (simp add: found_wf)
  let ?h = "found w 0 (bz_hive w)"
  have valid: "validate pol a (to_cluster_view l t ?h) = Ok () \<longleftrightarrow> admissible pol (to_cluster_view None 0 ?h) a" for l t
    unfolding validate_state state_verdict_Ok ..
  show ?thesis
  proof (cases "admissible pol (to_cluster_view None 0 ?h) a")
    case True
    with valid perform_busy [OF wf] show ?thesis
      by (simp add: execute_def del: hand_over.simps)
  next
    case False
    with valid obtain e where "validate pol a (to_cluster_view (fst (tn_view (turn_of w 0))) (snd (tn_view (turn_of w 0))) ?h) = Err e"
      by (metis (full_types) old.unit.exhaust sum.exhaust)
    with False show ?thesis by (simp add: execute_def)
  qed
qed

text \<open>Two planners schedule a task on a node that has room for one: another's task comes in after the
  snapshot, and both are there in the end.\<close>

definition demo_turn :: "unit turn" where
  "demo_turn = \<lparr>tn_before = [], tn_view = (None, 0), tn_write = Committed, tn_now = 0, tn_error = WriteFailed [], tn_after = []\<rparr>"

definition crowded :: "unit busy" where
  "crowded = \<lparr>bz_hive = demo_hive [], bz_script = (\<lambda>k. if k = 1 then demo_turn\<lparr>tn_before := [(5, PutTask (demo_task ''other'' Pending))]\<rparr>
     else demo_turn), bz_calls = 0, bz_written = []\<rparr>"

theorem execute_under_interference_witness:
  "\<exists>w'. execute busy_replicator (execution_policy_default\<lparr>ep_max_concurrent_tasks_per_node := 1\<rparr>) ''mine'' 7 8
      (ScheduleTask (Echo ''hi'') ''node-1'' 3) crowded = (Ok (), w')
    \<and> hm_get (hs_tasks (bz_hive w')) ''mine'' \<noteq> None \<and> hm_get (hs_tasks (bz_hive w')) ''other'' \<noteq> None"
proof -
  let ?pol = "execution_policy_default\<lparr>ep_max_concurrent_tasks_per_node := 1\<rparr>"
  let ?a = "ScheduleTask (Echo ''hi'') ''node-1'' 3"
  have wf: "hive_wf (bz_hive crowded)" by (simp add: crowded_def demo_hive_wf)
  have same: "found crowded 0 (bz_hive crowded) = demo_hive []" by (simp add: found_def turn_of_def crowded_def demo_turn_def)
  have "validate ?pol ?a (demo_view []) = Ok ()" by (simp add: validate_Ok demo_defs)
  then have adm: "admissible ?pol (to_cluster_view None 0 (found crowded 0 (bz_hive crowded))) ?a"
    unfolding same state_verdict_Ok [symmetric] state_verdict_def by (simp add: validate_demo_view)
  from execute_under_interference [OF wf, of ?pol ?a "''mine''" 7 8] adm show ?thesis
    by (simp add: crowded_def turn_of_def found_def demo_turn_def Let_def new_task_def demo_task_def)
qed

end
