(* ===== verification/StoreLife.thy ===== *)
theory StoreLife
  imports SledProps
begin

text \<open>
  The life of a store: the operations openraft calls on \<open>SledStorage\<close> (\<open>src/replicator/storage.rs\<close>) in
  any order, with restarts of the process between them and crashes inside a batch. The abstract
  store has no trees and no restarts: it is a log, a state, the last applied and the last purged log
  id, a membership and a vote. The relation \<open>holds\<close> ties both, and \<open>event_refines\<close> shows that every
  event of a life is the event of the abstract store: what is in memory and what the trees hold
  always agree, so a restart is not seen, except that a crash inside a batch leaves the state behind
  the last applied log id.
\<close>

section \<open>Events\<close>

datatype ('j, 'm, 'v) store_event =
    LogOp "('j, 'm) log_op"
  | Voted 'v
  | Applied "(timestamp \<times> ('j, 'm) Entry) list"
  | SnapshotBuilt
  | Installed "'m SnapshotMeta" "'j HiveState"
  | Reopened
  | CrashedIn "(timestamp \<times> ('j, 'm) Entry) list" "LogId option"

text \<open>A store with the counter of its snapshots. A process that crashes inside a batch has worked
  through some of its entries and perhaps recorded the log id of the next, and the next process
  opens the trees as they are.\<close>

inductive store_step ::
  "('b, 't) tree_api \<Rightarrow> ('j, 'm, 'v, 'b) storage_codec \<Rightarrow> ('j, 'm, 'v) store_event
     \<Rightarrow> u64 \<times> ('j, 't) store \<Rightarrow> u64 \<times> ('j, 't) store \<Rightarrow> bool"
  for T :: "('b, 't) tree_api" and C :: "('j, 'm, 'v, 'b) storage_codec" where
  log_op: "log_step T C op s = (Ok (), s') \<Longrightarrow> store_step T C (LogOp op) (n, s) (n, s')"
| voted: "save_vote T C v s = (Ok (), s') \<Longrightarrow> store_step T C (Voted v) (n, s) (n, s')"
| applied: "apply_to_state_machine T C es s = (Ok rs, s') \<Longrightarrow> store_step T C (Applied es) (n, s) (n, s')"
| snapshot_built: "build_snapshot T C (get_snapshot_builder n) s = (snap, n', s') \<Longrightarrow>
    store_step T C SnapshotBuilt (n, s) (n, s')"
| installed: "dec_hive C data = Ok h \<Longrightarrow> install_snapshot T C meta data s = (Ok (), s') \<Longrightarrow>
    store_step T C (Installed meta h) (n, s) (n, s')"
| reopened: "storage_new T C (sto_log s) (sto_meta s) shared_new = Ok (n', s') \<Longrightarrow>
    store_step T C Reopened (n, s) (n', s')"
| crashed_between: "apply_entries T C es s = (Ok rs, s1) \<Longrightarrow>
    storage_new T C (sto_log s1) (sto_meta s1) shared_new = Ok (n', s') \<Longrightarrow>
    store_step T C (CrashedIn es None) (n, s) (n', s')"
| crashed_within: "apply_entries T C es s = (Ok rs, s1) \<Longrightarrow> set_last_applied T C i s1 = (Ok (), s2) \<Longrightarrow>
    storage_new T C (sto_log s2) (sto_meta s2) shared_new = Ok (n', s') \<Longrightarrow>
    store_step T C (CrashedIn es (Some i)) (n, s) (n', s')"

inductive store_life ::
  "('b, 't) tree_api \<Rightarrow> ('j, 'm, 'v, 'b) storage_codec \<Rightarrow> ('j, 'm, 'v) store_event list
     \<Rightarrow> u64 \<times> ('j, 't) store \<Rightarrow> u64 \<times> ('j, 't) store \<Rightarrow> bool"
  for T :: "('b, 't) tree_api" and C :: "('j, 'm, 'v, 'b) storage_codec" where
  life_nil: "store_life T C [] s s"
| life_cons: "store_step T C ev s s' \<Longrightarrow> store_life T C evs s' s'' \<Longrightarrow> store_life T C (ev # evs) s s''"

section \<open>The abstract store\<close>

record ('j, 'm, 'v) plain_store =
  ps_log :: "u64 \<rightharpoonup> ('j, 'm) Entry"
  ps_hive :: "'j HiveState"
  ps_last :: "LogId option"
  ps_purged :: "LogId option"
  ps_membership :: "'m StoredMembership"
  ps_vote :: "'v option"

fun plain_event :: "('j, 'm, 'v) store_event \<Rightarrow> ('j, 'm, 'v) plain_store \<Rightarrow> ('j, 'm, 'v) plain_store" where
  "plain_event (LogOp op) p =
     p\<lparr>ps_log := abs_log_step op (ps_log p),
       ps_purged := (case op of LogPurgeUpto i \<Rightarrow> Some i | _ \<Rightarrow> ps_purged p)\<rparr>"
| "plain_event (Voted v) p = p\<lparr>ps_vote := Some v\<rparr>"
| "plain_event (Applied es) p =
     p\<lparr>ps_hive := apply_log (batch_commands es) (ps_hive p), ps_last := batch_last es (ps_last p),
       ps_membership := batch_membership es (ps_membership p)\<rparr>"
| "plain_event SnapshotBuilt p = p"
| "plain_event (Installed meta h) p =
     p\<lparr>ps_hive := h, ps_last := (case me_last_log_id meta of None \<Rightarrow> ps_last p | Some i \<Rightarrow> Some i),
       ps_membership := me_last_membership meta\<rparr>"
| "plain_event Reopened p = p"
| "plain_event (CrashedIn es half) p =
     p\<lparr>ps_last := (case half of None \<Rightarrow> batch_last es (ps_last p) | Some i \<Rightarrow> Some i),
       ps_membership := batch_membership es (ps_membership p)\<rparr>"

definition plain_new :: "('j, 'm, 'v, 'b) storage_codec \<Rightarrow> ('j, 'm, 'v) plain_store" where
  "plain_new C = \<lparr>ps_log = Map.empty, ps_hive = hive_new, ps_last = None, ps_purged = None,
     ps_membership = default_membership C, ps_vote = None\<rparr>"

definition plain_life :: "('j, 'm, 'v) store_event list \<Rightarrow> ('j, 'm, 'v) plain_store \<Rightarrow> ('j, 'm, 'v) plain_store" where
  "plain_life evs p = fold plain_event evs p"

section \<open>The relation\<close>

text \<open>The tables of the state can be written down and read back, in whatever order they are kept.\<close>

definition durable :: "('j, 'm, 'v, 'b) storage_codec \<Rightarrow> ('j, 'm, 'v) plain_store \<Rightarrow> bool" where
  "durable C p \<longleftrightarrow> (\<forall>h. hive_equiv h (ps_hive p) \<longrightarrow> hive_storable C h)"

text \<open>What the next process would restore.\<close>

definition saved_hive :: "('t \<Rightarrow> bytes \<rightharpoonup> 'b) \<Rightarrow> ('j, 'm, 'v, 'b) storage_codec \<Rightarrow> 't \<Rightarrow> 'j HiveState" where
  "saved_hive content C m =
     (case content m KEY_STATE_SNAPSHOT of None \<Rightarrow> hive_new
      | Some b \<Rightarrow> (case dec_hive C b of Ok h \<Rightarrow> h | Err _ \<Rightarrow> hive_new))"

definition holds ::
  "('b, 't) tree_api \<Rightarrow> ('t \<Rightarrow> bytes \<rightharpoonup> 'b) \<Rightarrow> ('j, 'm, 'v, 'b) storage_codec \<Rightarrow> ('j, 't) store
     \<Rightarrow> ('j, 'm, 'v) plain_store \<Rightarrow> bool" where
  "holds T content C s p \<longleftrightarrow>
     log_wf content C (sto_log s) \<and> log_abs content C (sto_log s) = ps_log p
   \<and> hive_equiv (sto_hive s) (ps_hive p) \<and> hive_equiv (saved_hive content C (sto_meta s)) (ps_hive p)
   \<and> get_last_applied T C s = ps_last p \<and> get_last_purged T C s = ps_purged p
   \<and> get_membership T C s = ps_membership p \<and> get_vote T C s = ps_vote p"

definition event_storable :: "('j, 'm, 'v, 'b) storage_codec \<Rightarrow> ('j, 'm, 'v) store_event \<Rightarrow> bool" where
  "event_storable C ev \<longleftrightarrow> (case ev of LogOp op \<Rightarrow> list_all (entry_storable C) (op_entries op) | _ \<Rightarrow> True)"

section \<open>Every event refines\<close>

context sled_storage
begin

text \<open>The keys of the metadata an operation leaves alone.\<close>

definition meta_frame :: "bytes set \<Rightarrow> ('j, 't) store \<Rightarrow> ('j, 't) store \<Rightarrow> bool" where
  "meta_frame ks s s' \<longleftrightarrow> (\<forall>k. k \<notin> ks \<longrightarrow> content (sto_meta s') k = content (sto_meta s) k)"

lemma frame_gets:
  assumes "meta_frame ks s s'" "reads T"
  shows "KEY_LAST_APPLIED \<notin> ks \<Longrightarrow> get_last_applied T C s' = get_last_applied T C s"
    and "KEY_LAST_PURGED \<notin> ks \<Longrightarrow> get_last_purged T C s' = get_last_purged T C s"
    and "KEY_MEMBERSHIP \<notin> ks \<Longrightarrow> get_membership T C s' = get_membership T C s"
    and "KEY_VOTE \<notin> ks \<Longrightarrow> get_vote T C s' = get_vote T C s"
    and "KEY_STATE_SNAPSHOT \<notin> ks \<Longrightarrow> saved_hive content C (sto_meta s') = saved_hive content C (sto_meta s)"
  using assms by (simp_all add: meta_frame_def get_via_content [OF assms(2)] saved_hive_def)

lemma frame_trans: "meta_frame ks s s' \<Longrightarrow> meta_frame ks s' s'' \<Longrightarrow> meta_frame ks s s''"
  by (simp add: meta_frame_def)

lemma frame_mono: "meta_frame ks s s' \<Longrightarrow> ks \<subseteq> js \<Longrightarrow> meta_frame js s s'"
  by (auto simp: meta_frame_def)

lemma insert_frame: "meta_insert T k b s = (Ok (), s') \<Longrightarrow> meta_frame {k} s s'"
  by (simp add: meta_frame_def meta_insert_ok)

lemma flush_frame: "meta_flush T s = (r, s') \<Longrightarrow> meta_frame {} s s'"
  by (simp add: meta_frame_def meta_flush_ok)

lemma apply_entry_frame:
  assumes "apply_entry T C now e s = (Ok (), s')"
  shows "meta_frame {KEY_LAST_APPLIED, KEY_MEMBERSHIP} s s'"
proof -
  obtain s1 where s1: "set_last_applied T C (en_log_id e) s = (Ok (), s1)"
    using assms by (auto simp: apply_entry_def st_then_eq_Ok)
  have "meta_frame {KEY_LAST_APPLIED, KEY_MEMBERSHIP} s1 s'"
    using assms s1 insert_frame [of KEY_MEMBERSHIP _ s1 s']
    by (auto simp: apply_entry_def set_membership_def meta_frame_def split: EntryPayload.splits)
  with insert_frame [OF s1 [unfolded set_last_applied_def]] show ?thesis
    by (auto simp: meta_frame_def)
qed

lemma apply_entries_frame:
  "apply_entries T C es s = (Ok rs, s') \<Longrightarrow> meta_frame {KEY_LAST_APPLIED, KEY_MEMBERSHIP} s s'"
proof (induction es arbitrary: s rs)
  case Nil
  then show ?case by (simp add: meta_frame_def)
next
  case (Cons x es)
  obtain now e where x: "x = (now, e)" by fastforce
  from Cons.prems obtain s1 rs1 where s1: "apply_entry T C now e s = (Ok (), s1)"
    "apply_entries T C es s1 = (Ok rs1, s')"
    by (auto simp: x st_then_eq_Ok)
  from frame_trans [OF apply_entry_frame [OF s1(1)] Cons.IH [OF s1(2)]] show ?case .
qed

lemma save_state_frame: "save_state_snapshot T C s = (Ok (), s') \<Longrightarrow> meta_frame {KEY_STATE_SNAPSHOT} s s'"
  by (simp add: meta_frame_def save_state_ok)

lemma apply_batch_frame:
  assumes "apply_to_state_machine T C es s = (Ok rs, s')"
  shows "meta_frame {KEY_LAST_APPLIED, KEY_MEMBERSHIP, KEY_STATE_SNAPSHOT} s s'"
proof -
  obtain s1 where s1: "apply_entries T C es s = (Ok rs, s1)" "save_state_snapshot T C s1 = (Ok (), s')"
    using assms by (auto simp: apply_to_state_machine_def st_then_eq_Ok)
  from apply_entries_frame [OF s1(1)] save_state_frame [OF s1(2)] show ?thesis
    by (auto simp: meta_frame_def)
qed

text \<open>What a process finds when it opens the trees of a store.\<close>

lemma reopened_holds:
  assumes "storage_new T C (sto_log s) (sto_meta s) shared_new = Ok (n', s')" "reads T"
    and "log_wf content C (sto_log s)" "log_abs content C (sto_log s) = ps_log p"
    and "hive_equiv (saved_hive content C (sto_meta s)) (ps_hive p)"
    and "get_last_applied T C s = ps_last p" "get_last_purged T C s = ps_purged p"
    and "get_membership T C s = ps_membership p" "get_vote T C s = ps_vote p"
  shows "holds T content C s' p"
proof -
  from reopen [OF assms(2), of "sto_log s" "sto_meta s" hive_new] assms(1) [unfolded shared_new_def]
  have s': "sto_log s' = sto_log s" "sto_meta s' = sto_meta s" "sto_hive s' = saved_hive content C (sto_meta s)"
    by (auto simp: saved_hive_def)
  have "meta_frame {} s s'" by (simp add: meta_frame_def s')
  from frame_gets [OF this assms(2)] assms s' show ?thesis by (simp add: holds_def)
qed

text \<open>A state that was saved is what would be restored.\<close>

lemma saved_state:
  assumes "content m KEY_STATE_SNAPSHOT = Some (enc_hive C h)" "hive_equiv h (ps_hive p)" "durable C p"
  shows "hive_equiv (saved_hive content C m) (ps_hive p)"
proof -
  from assms(2,3) have "hive_storable C h" by (simp add: durable_def)
  then obtain h' where "dec_hive C (enc_hive C h) = Ok h'" "hive_equiv h' h" by (auto simp: hive_storable_def)
  with assms(1,2) hive_equiv_trans show ?thesis by (auto simp: saved_hive_def)
qed

lemma log_op_holds:
  assumes "log_step T C op s = (Ok (), s')" "iterates T" "reads T" "event_storable C (LogOp op)" "holds T content C s p"
  shows "holds T content C s' (plain_event (LogOp op) p)"
proof -
  have log: "log_wf content C (sto_log s') \<and> log_abs content C (sto_log s') = abs_log_step op (log_abs content C (sto_log s))"
    using log_step_ok [OF assms(1,2)] assms(4,5) by (auto simp: event_storable_def holds_def list_all_iff)
  show ?thesis
  proof (cases op)
    case (LogPurgeUpto i)
    then obtain s1 where s1: "meta_insert T KEY_LAST_PURGED (enc_log_id C i) s = (Ok (), s1)"
      and s': "\<exists>l. s' = s1\<lparr>sto_log := l\<rparr>"
      using assms(1) by (auto simp: purge_logs_upto_def st_then_eq_Ok on_log_ok set_last_purged_def)
    have meta: "sto_meta s' = sto_meta s1" "sto_hive s' = sto_hive s" using s' meta_insert_ok [OF s1] by auto
    have frame: "meta_frame {KEY_LAST_PURGED} s s'" using insert_frame [OF s1] by (simp add: meta_frame_def meta)
    have "get_last_purged T C s' = Some i"
      using meta_insert_ok(1) [OF s1] by (simp add: get_via_content [OF assms(3)] meta log_id_codec)
    with frame_gets [OF frame assms(3)] log assms(5) LogPurgeUpto meta show ?thesis by (simp add: holds_def)
  next
    case (LogAppend es)
    then have same: "sto_meta s' = sto_meta s" "sto_hive s' = sto_hive s"
      using assms(1) by (auto simp: append_to_log_def on_log_ok)
    have "meta_frame {} s s'" by (simp add: meta_frame_def same)
    from frame_gets [OF this assms(3)] log assms(5) LogAppend same show ?thesis by (simp add: holds_def)
  next
    case (LogDeleteSince i)
    then have same: "sto_meta s' = sto_meta s" "sto_hive s' = sto_hive s"
      using assms(1) by (auto simp: delete_conflict_logs_since_def on_log_ok)
    have "meta_frame {} s s'" by (simp add: meta_frame_def same)
    from frame_gets [OF this assms(3)] log assms(5) LogDeleteSince same show ?thesis by (simp add: holds_def)
  qed
qed

lemma voted_holds:
  assumes "save_vote T C v s = (Ok (), s')" "reads T" "holds T content C s p"
  shows "holds T content C s' (plain_event (Voted v) p)"
proof -
  obtain s1 where s1: "meta_insert T KEY_VOTE (enc_vote C v) s = (Ok (), s1)" "meta_flush T s1 = (Ok (), s')"
    using assms(1) by (auto simp: save_vote_def set_vote_def st_then_eq_Ok)
  have frame: "meta_frame {KEY_VOTE} s s'"
    using insert_frame [OF s1(1)] flush_frame [OF s1(2)] by (auto simp: meta_frame_def)
  have "get_vote T C s' = Some v" using vote_ok(1) [OF assms(1,2)] by (simp add: read_vote_def)
  with frame_gets [OF frame assms(2)] vote_ok [OF assms(1,2)] assms(3) show ?thesis by (simp add: holds_def)
qed

lemma applied_holds:
  assumes "apply_to_state_machine T C es s = (Ok rs, s')" "reads T" "holds T content C s p"
    and "durable C (plain_event (Applied es) p)"
  shows "holds T content C s' (plain_event (Applied es) p)"
proof -
  note b = apply_batch_ok [OF assms(1,2)]
  have eq: "hive_equiv (sto_hive s') (ps_hive (plain_event (Applied es) p))"
    using b assms(3) hive_equiv_apply_log by (auto simp: holds_def)
  have "content (sto_meta s') KEY_STATE_SNAPSHOT = Some (enc_hive C (sto_hive s'))" using b by blast
  from saved_state [OF this eq assms(4)] frame_gets [OF apply_batch_frame [OF assms(1)] assms(2)] b assms(3) eq
  show ?thesis by (simp add: holds_def)
qed

lemma description_holds:
  assumes "snapshot_meta T C data n s = (snap, n', s')" "reads T" "holds T content C s p"
  shows "holds T content C s' p"
proof -
  obtain r where r: "meta_insert T KEY_SNAPSHOT_IDX (enc_u64 C (n + 1)) s = (r, s')"
    using assms(1) by (cases "meta_insert T KEY_SNAPSHOT_IDX (enc_u64 C (n + 1)) s")
      (auto simp: snapshot_meta_def Let_def)
  then obtain m where m: "tr_insert T KEY_SNAPSHOT_IDX (enc_u64 C (n + 1)) (sto_meta s) = (r, m)" "s' = s\<lparr>sto_meta := m\<rparr>"
    by (auto simp: set_via_meta_insert)
  have "content m = content (sto_meta s) \<or> content m = (content (sto_meta s))(KEY_SNAPSHOT_IDX \<mapsto> enc_u64 C (n + 1))"
    using m(1) insert_ok insert_err by (cases r) auto
  then have "meta_frame {KEY_SNAPSHOT_IDX} s s'" by (auto simp: meta_frame_def m(2))
  from frame_gets [OF this assms(2)] assms(3) m(2) show ?thesis by (simp add: holds_def)
qed

lemma install_frame:
  assumes "install_snapshot T C meta data s = (Ok (), s')" "dec_hive C data = Ok h"
  shows "meta_frame {KEY_LAST_APPLIED, KEY_MEMBERSHIP, KEY_STATE_SNAPSHOT} s s'"
proof -
  let ?s0 = "s\<lparr>sto_hive := h\<rparr>"
  obtain s1 s2 where s1: "(case me_last_log_id meta of None \<Rightarrow> (Ok (), ?s0)
      | Some i \<Rightarrow> st_map_err (IoError SubjStateMachine VerbWrite) (set_last_applied T C i ?s0)) = (Ok (), s1)"
    and s2: "set_membership T C (me_last_membership meta) s1 = (Ok (), s2)"
    and s3: "save_state_snapshot T C s2 = (Ok (), s')"
    using assms by (auto simp: install_snapshot_def st_then_eq_Ok cong: option.case_cong)
  have "meta_frame {KEY_LAST_APPLIED} ?s0 s1"
    using s1 insert_frame by (auto simp: meta_frame_def set_last_applied_def split: option.splits)
  with insert_frame [OF s2 [unfolded set_membership_def]] save_state_frame [OF s3] show ?thesis
    by (auto simp: meta_frame_def)
qed

lemma installed_holds:
  assumes "install_snapshot T C meta data s = (Ok (), s')" "dec_hive C data = Ok h" "reads T" "holds T content C s p"
    and "durable C (plain_event (Installed meta h) p)"
  shows "holds T content C s' (plain_event (Installed meta h) p)"
proof -
  note i = install_ok [OF assms(1,3,2)]
  have eq: "hive_equiv h (ps_hive (plain_event (Installed meta h) p))" by simp
  from saved_state [OF i(4) eq assms(5)] frame_gets [OF install_frame [OF assms(1,2)] assms(3)] i assms(4)
  show ?thesis by (simp add: holds_def split: option.split)
qed

lemma crashed_holds:
  assumes "apply_entries T C es s = (Ok rs, s1)" "reads T" "holds T content C s p"
    and "half = None \<and> s2 = s1 \<or> (\<exists>i. half = Some i \<and> set_last_applied T C i s1 = (Ok (), s2))"
    and "storage_new T C (sto_log s2) (sto_meta s2) shared_new = Ok (n', s')"
  shows "holds T content C s' (plain_event (CrashedIn es half) p)"
proof -
  note a = apply_entries_ok [OF assms(1,2)]
  have frame: "meta_frame {KEY_LAST_APPLIED, KEY_MEMBERSHIP} s s1" by (rule apply_entries_frame [OF assms(1)])
  have s2: "sto_log s2 = sto_log s" "get_membership T C s2 = batch_membership es (ps_membership p)"
    "get_last_applied T C s2 = ps_last (plain_event (CrashedIn es half) p)"
    using assms(3,4) a set_last_applied_ok [OF _ assms(2), of _ s1 s2] by (auto simp: holds_def)
  have "meta_frame {KEY_LAST_APPLIED, KEY_MEMBERSHIP} s s2"
    using assms(4) frame insert_frame [of KEY_LAST_APPLIED _ s1 s2]
    by (auto simp: set_last_applied_def meta_frame_def)
  from frame_gets [OF this assms(2)] assms(3) s2 show ?thesis
    by (intro reopened_holds [OF assms(5,2)]) (simp_all add: holds_def)
qed

lemma event_refines:
  assumes "store_step T C ev (n, s) (n', s')" "reads T" "iterates T" "event_storable C ev"
    and "holds T content C s p" "durable C (plain_event ev p)"
  shows "holds T content C s' (plain_event ev p)"
  using assms(1)
proof cases
  case (log_op op)
  with log_op_holds [OF log_op(3) assms(3,2) _ assms(5)] assms(4) show ?thesis by simp
next
  case (voted v)
  with voted_holds [OF voted(3) assms(2,5)] show ?thesis by simp
next
  case (applied es rs)
  with applied_holds [OF applied(3) assms(2,5)] assms(6) show ?thesis by simp
next
  case (snapshot_built snap m)
  with description_holds assms(2,5) show ?thesis by (simp add: build_snapshot_def)
next
  case (installed data h meta)
  with installed_holds [OF installed(4,3) assms(2,5)] assms(6) show ?thesis by simp
next
  case reopened
  with reopened_holds [OF reopened(2) assms(2), of p] assms(5) show ?thesis by (simp add: holds_def)
next
  case (crashed_between es rs s1)
  from crashed_holds [OF crashed_between(2) assms(2,5) _ crashed_between(3), of None] crashed_between(1) show ?thesis by simp
next
  case (crashed_within es rs s1 i s2)
  from crashed_holds [OF crashed_within(2) assms(2,5) _ crashed_within(4), of "Some i"] crashed_within(1,3) show ?thesis by simp
qed

end

section \<open>A whole life\<close>

definition stays_durable ::
  "('j, 'm, 'v, 'b) storage_codec \<Rightarrow> ('j, 'm, 'v) store_event list \<Rightarrow> ('j, 'm, 'v) plain_store \<Rightarrow> bool" where
  "stays_durable C evs p \<longleftrightarrow> (\<forall>k \<le> length evs. durable C (plain_life (take k evs) p))"

lemma stays_durable_Cons: "stays_durable C (ev # evs) p \<Longrightarrow> durable C (plain_event ev p) \<and> stays_durable C evs (plain_event ev p)"
  unfolding stays_durable_def plain_life_def
  by (metis One_nat_def Suc_le_mono fold_simps(1,2) le_add1 length_Cons plus_1_eq_Suc take_Suc_Cons take_0)

lemma life_refines:
  assumes "store_life T C evs s s'" "sled_storage T content C" "reads T" "iterates T"
    and "list_all (event_storable C) evs" "holds T content C (snd s) p" "stays_durable C evs p"
  shows "holds T content C (snd s') (plain_life evs p)"
  using assms(1,5-)
proof (induction arbitrary: p rule: store_life.induct)
  case (life_nil s)
  then show ?case by (simp add: plain_life_def)
next
  case (life_cons ev s s' evs s'')
  note d = stays_durable_Cons [OF life_cons.prems(3)]
  have "holds T content C (snd s') (plain_event ev p)"
    using sled_storage.event_refines [OF assms(2), of ev "fst s" "snd s" "fst s'" "snd s'" p]
      assms(3,4) life_cons.hyps(1) life_cons.prems(1,2) d by simp
  from life_cons.IH [OF _ this] life_cons.prems(1) d show ?case by (simp add: plain_life_def)
qed

lemma new_store_holds:
  assumes "storage_new T C l m shared_new = Ok (n, s)" "sled_storage T content C" "reads T"
    and "content l = Map.empty" "content m = Map.empty"
  shows "holds T content C s (plain_new C)"
proof -
  let ?s = "\<lparr>sto_log = l, sto_meta = m, sto_hive = hive_new\<rparr>"
  have "holds T content C ?s (plain_new C)"
    using sled_storage.get_via_content [OF assms(2,3), of ?s] assms(4,5)
    by (simp add: holds_def plain_new_def saved_hive_def log_wf_def log_abs_def fun_eq_iff)
  then show ?thesis
    by (intro sled_storage.reopened_holds [OF assms(2), of ?s, OF _ assms(3)])
      (simp_all add: holds_def assms(1))
qed

text \<open>The commands of the batches that were completed, and the log ids of all batches.\<close>

fun completed_commands :: "('j, 'm, 'v) store_event \<Rightarrow> (timestamp \<times> 'j ClusterCommand) list" where
  "completed_commands (Applied es) = batch_commands es"
| "completed_commands _ = []"

fun reached_log_ids :: "('j, 'm, 'v) store_event \<Rightarrow> LogId list" where
  "reached_log_ids (Applied es) = map (en_log_id \<circ> snd) es"
| "reached_log_ids (CrashedIn es half) = map (en_log_id \<circ> snd) es @ (case half of None \<Rightarrow> [] | Some i \<Rightarrow> [i])"
| "reached_log_ids _ = []"

fun is_install :: "('j, 'm, 'v) store_event \<Rightarrow> bool" where
  "is_install (Installed meta h) \<longleftrightarrow> True"
| "is_install _ \<longleftrightarrow> False"

lemma batch_last_ids: "batch_last es i = (if es = [] then i else Some (last (map (en_log_id \<circ> snd) es)))"
  by (cases "es = []") (simp_all add: batch_last_last last_map)

lemma plain_event_progress:
  assumes "\<not> is_install ev"
  shows "ps_hive (plain_event ev p) = apply_log (completed_commands ev) (ps_hive p)"
    and "ps_last (plain_event ev p) = (if reached_log_ids ev = [] then ps_last p else Some (last (reached_log_ids ev)))"
  using assms by (cases ev; simp add: batch_last_ids split: option.split)+

lemma plain_life_progress:
  assumes "list_all (\<lambda>ev. \<not> is_install ev) evs"
  shows "ps_hive (plain_life evs p) = apply_log (concat (map completed_commands evs)) (ps_hive p)
    \<and> ps_last (plain_life evs p) = (let ids = concat (map reached_log_ids evs) in if ids = [] then ps_last p else Some (last ids))"
  using assms
proof (induction evs arbitrary: p)
  case (Cons ev evs)
  have "plain_life (ev # evs) p = plain_life evs (plain_event ev p)" by (simp add: plain_life_def)
  with Cons plain_event_progress [of ev p] show ?case by (auto simp: apply_log_append Let_def)
qed (simp add: plain_life_def)

section \<open>Instances for the witnesses\<close>

definition drop_entry :: "u64 \<Rightarrow> (unit, unit) Entry" where
  "drop_entry i = \<lparr>en_log_id = log_id i, en_payload = Normal (RemoveGoal ''g'')\<rparr>"

lemma ref_stays_durable [simp]: "stays_durable (ref_codec m0) evs p"
  by (simp add: stays_durable_def durable_def)

lemma ref_opens: "storage_new ref_tree_api unit_codec [] [] shared_new = Ok (0, empty_store)"
  by (simp add: storage_new_def empty_store_def shared_new_def)

lemma ref_reopens: "\<exists>n' s'. storage_new ref_tree_api (ref_codec m0) l m h0 = Ok (n', s')"
  using ref_store.reopen [OF ref_tree_reads] by metis

lemma goal_life:
  "\<exists>s1. store_step ref_tree_api unit_codec (Applied [(6, goal_entry 1)]) (n, s) (n, s1)"
proof -
  obtain s1 where "apply_to_state_machine ref_tree_api unit_codec [(6, goal_entry 1)] s = (Ok [()], s1)"
    by (simp add: store_op_defs goal_entry_def)
  then show ?thesis using store_step.applied by blast
qed

section \<open>Properties\<close>

text \<open>C11. The store is a plain store that never stops. Through any life that starts on empty trees, with
  log operations, votes, batches, snapshots built and installed, restarts and crashes inside batches
  in any order, what the store reports and holds is what the same events leave in a plain store: its
  log, its last applied and last purged log ids, its membership, its vote and the tables of its
  state, which are also what the next process will restore.\<close>

theorem store_life_refines:
  assumes "sled_storage T content C" "reads T" "iterates T"
    and "storage_new T C l m shared_new = Ok (n, s)" "content l = Map.empty" "content m = Map.empty"
    and "store_life T C evs (n, s) (n', s')" "list_all (event_storable C) evs" "stays_durable C evs (plain_new C)"
  shows "log_wf content C (sto_log s') \<and> log_abs content C (sto_log s') = ps_log (plain_life evs (plain_new C))
    \<and> hive_equiv (sto_hive s') (ps_hive (plain_life evs (plain_new C)))
    \<and> hive_equiv (saved_hive content C (sto_meta s')) (ps_hive (plain_life evs (plain_new C)))
    \<and> last_applied_state T C s' = Ok (ps_last (plain_life evs (plain_new C)), ps_membership (plain_life evs (plain_new C)))
    \<and> get_last_purged T C s' = ps_purged (plain_life evs (plain_new C))
    \<and> read_vote T C s' = Ok (ps_vote (plain_life evs (plain_new C)))"
proof -
  have "holds T content C s (plain_new C)" by (rule new_store_holds [OF assms(4,1,2,5,6)])
  with life_refines [OF assms(7,1,2,3,8), of "plain_new C"] assms(9)
  have "holds T content C s' (plain_life evs (plain_new C))" by simp
  then show ?thesis by (simp add: holds_def last_applied_state_def read_vote_def)
qed

theorem store_life_refines_witness:
  "\<exists>n s. store_life ref_tree_api unit_codec [Applied [(6, goal_entry 1)], Voted (), LogOp (LogAppend [blank_entry 2]), Reopened]
      (0, empty_store) (n, s)
    \<and> hm_get (hs_goals (sto_hive s)) ''g'' = Some (goal_named ''g'') \<and> read_vote ref_tree_api unit_codec s = Ok (Some ())
    \<and> log_abs map_of unit_codec (sto_log s) 2 = Some (blank_entry 2)
    \<and> get_last_applied ref_tree_api unit_codec s = Some (log_id 1)"
proof -
  obtain s1 where s1: "store_step ref_tree_api unit_codec (Applied [(6, goal_entry 1)]) (0, empty_store) (0, s1)"
    using goal_life by blast
  obtain s2 where "save_vote ref_tree_api unit_codec () s1 = (Ok (), s2)" by (simp add: store_op_defs)
  note s2 = store_step.voted [OF this]
  obtain s3 where "log_step ref_tree_api unit_codec (LogAppend [blank_entry 2]) s2 = (Ok (), s3)"
    by (simp add: store_op_defs)
  note s3 = store_step.log_op [OF this]
  obtain n s4 where "storage_new ref_tree_api unit_codec (sto_log s3) (sto_meta s3) shared_new = Ok (n, s4)"
    using ref_reopens [of "()" "sto_log s3" "sto_meta s3" shared_new] by blast
  note s4 = store_step.reopened [OF this]
  have life: "store_life ref_tree_api unit_codec [Applied [(6, goal_entry 1)], Voted (), LogOp (LogAppend [blank_entry 2]), Reopened]
      (0, empty_store) (n, s4)"
    by (rule life_cons [OF s1 life_cons [OF s2 life_cons [OF s3 life_cons [OF s4 life_nil]]]])
  have storable: "list_all (event_storable unit_codec)
      [Applied [(6, goal_entry 1)], Voted (), LogOp (LogAppend [blank_entry 2]), Reopened]"
    by (simp add: event_storable_def)
  from store_life_refines [OF ref_store_law ref_tree_reads ref_tree_iterates ref_opens _ _ life storable ref_stays_durable] life
  show ?thesis
    by (intro exI [of _ n] exI [of _ s4])
      (auto simp: plain_life_def plain_new_def last_applied_state_def hive_equiv_tables hm_equiv_get goal_entry_def
        goal_named_def en_index_def blank_entry_def log_id_def hive_new_def)
qed

text \<open>C25. A crash inside a batch loses its commands for good. In a life without installed snapshots the
  tables are those of the commands of the completed batches, in order, and of no others; the last
  applied log id is that of the last entry of any batch, the interrupted ones included, so openraft
  never sends the lost entries again.\<close>

theorem crash_loses_batch:
  assumes "sled_storage T content C" "reads T" "iterates T"
    and "storage_new T C l m shared_new = Ok (n, s)" "content l = Map.empty" "content m = Map.empty"
    and "store_life T C evs (n, s) (n', s')" "list_all (event_storable C) evs" "stays_durable C evs (plain_new C)"
    and "list_all (\<lambda>ev. \<not> is_install ev) evs"
  shows "hive_equiv (sto_hive s') (apply_log (concat (map completed_commands evs)) hive_new)
    \<and> get_last_applied T C s' = (let ids = concat (map reached_log_ids evs) in if ids = [] then None else Some (last ids))"
proof -
  have "holds T content C s (plain_new C)" by (rule new_store_holds [OF assms(4,1,2,5,6)])
  with life_refines [OF assms(7,1,2,3,8), of "plain_new C"] assms(9)
  have "holds T content C s' (plain_life evs (plain_new C))" by simp
  with plain_life_progress [OF assms(10), of "plain_new C"] show ?thesis
    by (simp add: holds_def plain_new_def)
qed

theorem crash_loses_batch_witness:
  "\<exists>n s. store_life ref_tree_api unit_codec [Applied [(6, goal_entry 1)], CrashedIn [(7, drop_entry 2)] None] (0, empty_store) (n, s)
    \<and> hm_get (hs_goals (sto_hive s)) ''g'' = Some (goal_named ''g'')
    \<and> get_last_applied ref_tree_api unit_codec s = Some (log_id 2)"
proof -
  obtain s1 where s1: "store_step ref_tree_api unit_codec (Applied [(6, goal_entry 1)]) (0, empty_store) (0, s1)"
    using goal_life by blast
  obtain s2 where s2: "apply_entries ref_tree_api unit_codec [(7, drop_entry 2)] s1 = (Ok [()], s2)"
    by (simp add: store_op_defs drop_entry_def)
  obtain n s3 where "storage_new ref_tree_api unit_codec (sto_log s2) (sto_meta s2) shared_new = Ok (n, s3)"
    using ref_reopens [of "()" "sto_log s2" "sto_meta s2" shared_new] by blast
  from life_cons [OF s1 life_cons [OF store_step.crashed_between [OF s2 this] life_nil]]
  have life: "store_life ref_tree_api unit_codec [Applied [(6, goal_entry 1)], CrashedIn [(7, drop_entry 2)] None] (0, empty_store) (n, s3)" .
  have storable: "list_all (event_storable unit_codec) [Applied [(6, goal_entry 1)], CrashedIn [(7, drop_entry 2)] None]"
    by (simp add: event_storable_def)
  from crash_loses_batch [OF ref_store_law ref_tree_reads ref_tree_iterates ref_opens _ _ life storable ref_stays_durable] life
  show ?thesis
    by (intro exI [of _ n] exI [of _ s3])
      (auto simp: hive_equiv_tables hm_equiv_get goal_entry_def goal_named_def drop_entry_def hive_new_def)
qed

end
