(* ===== verification/Replicas.thy ===== *)
theory Replicas
  imports StoreLife Replicator
begin

text \<open>
  The stores of the nodes side by side (\<open>src/replicator/storage.rs\<close>) under one log of committed
  entries \<open>L\<close>. openraft hands every store the entries of \<open>L\<close> in order, cut into batches as it likes,
  lets it build snapshots, installs the snapshot of one store, perhaps much later, in another that is
  not ahead of it, and restarts processes at any time. \<open>build_snapshot\<close> runs beside the state machine and
  takes no lock over its two readings: it is two steps, \<open>Reads\<close> (the state) and \<open>Describes\<close> (last
  applied log id and membership), between which the store may go on. \<open>rg_applied\<close> is how much of \<open>L\<close> a
  store has applied, \<open>rg_building\<close> the build in progress with the part of the log its state stands for,
  and \<open>rg_snapshots\<close> the snapshots built so far with the part of the log they claim. The number in
  \<open>Describes\<close> is how many entries the store has applied between the two readings. A step is a call that
  succeeds: openraft shuts a node down at the first storage error. What a crash inside a batch does is
  the property \<open>crash_loses_batch\<close> of \<open>StoreLife\<close>.

  \<open>in_line\<close> is the invariant while no build is overtaken: a store has the tables, the last log id and the
  membership that \<open>replay\<close> makes of its part of the log, and so has every snapshot.
  \<open>overtaken_snapshot_breaks_agreement\<close> shows that a build that is overtaken breaks it.
\<close>

section \<open>The machine\<close>

record ('j, 'm, 'b, 't) replicas =
  rg_stores :: "NodeId \<Rightarrow> u64 \<times> ('j, 't) store"
  rg_applied :: "NodeId \<Rightarrow> nat"
  rg_building :: "NodeId \<Rightarrow> (nat \<times> u64 \<times> 'b) option"
  rg_snapshots :: "(nat \<times> ('m, 'b) Snapshot) list"

datatype ('j, 'm, 'v) replica_label =
    Runs NodeId "('j, 'm, 'v) store_event"
  | Reads NodeId
  | Describes NodeId nat
  | Installs NodeId nat

text \<open>The events that leave the state machine alone.\<close>

fun is_quiet :: "('j, 'm, 'v) store_event \<Rightarrow> bool" where
  "is_quiet (LogOp op) \<longleftrightarrow> True"
| "is_quiet (Voted v) \<longleftrightarrow> True"
| "is_quiet Reopened \<longleftrightarrow> True"
| "is_quiet _ \<longleftrightarrow> False"

inductive replica_step ::
  "('b, 't) tree_api \<Rightarrow> ('j, 'm, 'v, 'b) storage_codec \<Rightarrow> ('j, 'm) Entry list \<Rightarrow> ('j, 'm, 'v) replica_label
     \<Rightarrow> ('j, 'm, 'b, 't) replicas \<Rightarrow> ('j, 'm, 'b, 't) replicas \<Rightarrow> bool"
  for T :: "('b, 't) tree_api" and C :: "('j, 'm, 'v, 'b) storage_codec" and L :: "('j, 'm) Entry list" where
  quiet_step: "is_quiet ev \<Longrightarrow> store_step T C ev (rg_stores G n) s' \<Longrightarrow>
    replica_step T C L (Runs n ev) G (G\<lparr>rg_stores := (rg_stores G)(n := s'),
         rg_building := (case ev of Reopened \<Rightarrow> (rg_building G)(n := None) | _ \<Rightarrow> rg_building G)\<rparr>)"
| batch_step: "map snd es = take (length es) (drop (rg_applied G n) L) \<Longrightarrow>
    store_step T C (Applied es) (rg_stores G n) s' \<Longrightarrow>
    replica_step T C L (Runs n (Applied es)) G
      (G\<lparr>rg_stores := (rg_stores G)(n := s'),
         rg_applied := (rg_applied G)(n := rg_applied G n + length es)\<rparr>)"
| read_step: "replica_step T C L (Reads n) G
      (G\<lparr>rg_building := (rg_building G)(n \<mapsto>
         (rg_applied G n, get_snapshot_builder (fst (rg_stores G n)), snapshot_state C (snd (rg_stores G n))))\<rparr>)"
| describe_step: "rg_building G n = Some (k, idx, data) \<Longrightarrow>
    snapshot_meta T C data idx (snd (rg_stores G n)) = (snap, idx', s') \<Longrightarrow>
    replica_step T C L (Describes n (rg_applied G n - k)) G
      (G\<lparr>rg_stores := (rg_stores G)(n := (fst (rg_stores G n), s')), rg_building := (rg_building G)(n := None),
         rg_snapshots := rg_snapshots G @ [(rg_applied G n, snap)]\<rparr>)"
| install_step: "i < length (rg_snapshots G) \<Longrightarrow> rg_snapshots G ! i = (k, snap) \<Longrightarrow> rg_applied G n \<le> k \<Longrightarrow>
    install_snapshot T C (sp_meta snap) (sp_data snap) (snd (rg_stores G n)) = (Ok (), s') \<Longrightarrow>
    replica_step T C L (Installs n i) G
      (G\<lparr>rg_stores := (rg_stores G)(n := (fst (rg_stores G n), s')),
         rg_applied := (rg_applied G)(n := k)\<rparr>)"

inductive replica_run ::
  "('b, 't) tree_api \<Rightarrow> ('j, 'm, 'v, 'b) storage_codec \<Rightarrow> ('j, 'm) Entry list \<Rightarrow> ('j, 'm, 'v) replica_label list
     \<Rightarrow> ('j, 'm, 'b, 't) replicas \<Rightarrow> ('j, 'm, 'b, 't) replicas \<Rightarrow> bool"
  for T :: "('b, 't) tree_api" and C :: "('j, 'm, 'v, 'b) storage_codec" and L :: "('j, 'm) Entry list" where
  replica_nil: "replica_run T C L [] G G"
| replica_cons: "replica_step T C L l G G' \<Longrightarrow> replica_run T C L ls G' G'' \<Longrightarrow> replica_run T C L (l # ls) G G''"

text \<open>At the start every node has opened empty trees.\<close>

definition replicas_fresh ::
  "('b, 't) tree_api \<Rightarrow> ('t \<Rightarrow> bytes \<rightharpoonup> 'b) \<Rightarrow> ('j, 'm, 'v, 'b) storage_codec \<Rightarrow> ('j, 'm, 'b, 't) replicas \<Rightarrow> bool" where
  "replicas_fresh T content C G \<longleftrightarrow> rg_snapshots G = []
     \<and> (\<forall>n. rg_applied G n = 0 \<and> rg_building G n = None
          \<and> (\<exists>l m. content l = Map.empty \<and> content m = Map.empty \<and> storage_new T C l m shared_new = Ok (rg_stores G n)))"

section \<open>What a part of the log amounts to\<close>

text \<open>The commands of a part of the log, and the plain store that has applied it as one batch.\<close>

definition log_commands :: "('j, 'm) Entry list \<Rightarrow> 'j ClusterCommand list" where
  "log_commands es = concat (map (\<lambda>e. case en_payload e of Normal c \<Rightarrow> [c] | _ \<Rightarrow> []) es)"

definition replay :: "('j, 'm, 'v, 'b) storage_codec \<Rightarrow> ('j, 'm) Entry list \<Rightarrow> ('j, 'm, 'v) plain_store" where
  "replay C es = plain_event (Applied (map (Pair 0) es)) (plain_new C)"

lemma replay_frames [simp]: "ps_log (replay C es) = Map.empty" "ps_vote (replay C es) = None"
  by (simp_all add: replay_def plain_new_def)

lemma commands_of_batch: "map snd (batch_commands es) = log_commands (map snd es)"
  by (induction es) (auto simp: log_commands_def split: EntryPayload.split)

lemma replay_hive: "ps_hive (replay C es) = apply_log (map (Pair 0) (log_commands es)) hive_new"
proof -
  have "batch_commands (map (Pair 0) es) = map (Pair 0) (log_commands es)"
    by (induction es) (auto simp: log_commands_def split: EntryPayload.split)
  then show ?thesis by (simp add: replay_def plain_new_def)
qed

lemma replay_last: "ps_last (replay C es) = (if es = [] then None else Some (en_log_id (last es)))"
  by (simp add: replay_def plain_new_def batch_last_ids comp_def last_map)

lemma replay_membership: "ps_membership (replay C es) = batch_membership (map (Pair 0) es) (default_membership C)"
  by (simp add: replay_def plain_new_def)

lemma membership_any_clock:
  "map snd es = map snd es' \<Longrightarrow> batch_membership es m = batch_membership es' m"
proof (induction es arbitrary: es' m)
  case (Cons x es)
  then obtain y ys where "es' = y # ys" "snd x = snd y" "map snd es = map snd ys" by (cases es') auto
  with Cons.IH [of ys] show ?case by (cases x; cases y) simp
qed simp

lemma membership_append: "batch_membership (es @ es') m = batch_membership es' (batch_membership es m)"
  by (simp add: batch_membership_def)

lemma same_hive_apply:
  assumes "same_hive s s'" "map snd cs = map snd cs'"
  shows "same_hive (apply_log cs s) (apply_log cs' s')"
  using assms erase_clock_apply_log by (simp add: same_hive_def)

lemma same_hive_common: "same_hive a c \<Longrightarrow> same_hive b c \<Longrightarrow> same_hive a b"
  by (simp add: same_hive_def)

lemma equiv_same_hive: "hive_equiv a b \<Longrightarrow> same_hive b c \<Longrightarrow> same_hive a c"
  by (simp add: same_hive_def hive_equiv_def)

text \<open>A plain store stands at a part of the log when it has what the part amounts to.\<close>

definition stands_at :: "('j, 'm, 'v, 'b) storage_codec \<Rightarrow> ('j, 'm) Entry list \<Rightarrow> ('j, 'm, 'v) plain_store \<Rightarrow> bool" where
  "stands_at C es p \<longleftrightarrow> same_hive (ps_hive p) (ps_hive (replay C es)) \<and> ps_last p = ps_last (replay C es)
     \<and> ps_membership p = ps_membership (replay C es)"

text \<open>However the log is cut into batches, and at whatever instants they are applied.\<close>

lemma stands_after_batch:
  assumes "stands_at C pre p"
  shows "stands_at C (pre @ map snd es) (plain_event (Applied es) p)"
proof -
  have "same_hive (apply_log (batch_commands es) (ps_hive p))
      (apply_log (map (Pair 0) (log_commands (map snd es))) (ps_hive (replay C pre)))"
    using assms by (intro same_hive_apply) (simp_all add: stands_at_def commands_of_batch comp_def)
  moreover have "batch_membership es (ps_membership p)
      = batch_membership (map (Pair 0) (map snd es)) (ps_membership (replay C pre))"
    using assms membership_any_clock [of es "map (Pair 0) (map snd es)"] by (simp add: stands_at_def comp_def)
  moreover have "batch_last es (ps_last p) = ps_last (replay C (pre @ map snd es))"
    using assms by (simp add: stands_at_def batch_last_ids replay_last last_map)
  ultimately show ?thesis
    by (simp add: stands_at_def replay_hive replay_membership membership_append log_commands_def apply_log_append)
qed

lemma stands_when_quiet: "is_quiet ev \<Longrightarrow> stands_at C es p \<Longrightarrow> stands_at C es (plain_event ev p)"
  by (cases ev) (simp_all add: stands_at_def)

lemma stands_new: "stands_at C [] (plain_new C)"
  by (simp add: stands_at_def replay_def plain_new_def same_hive_def)

section \<open>The invariant\<close>

text \<open>Whatever the clocks say, the states on the way can be written down and read back.\<close>

definition prefixes_storable :: "('j, 'm, 'v, 'b) storage_codec \<Rightarrow> ('j, 'm) Entry list \<Rightarrow> bool" where
  "prefixes_storable C L \<longleftrightarrow>
     (\<forall>k \<le> length L. \<forall>h. same_hive h (ps_hive (replay C (take k L))) \<longrightarrow> hive_storable C h)"

definition data_stands :: "('j, 'm, 'v, 'b) storage_codec \<Rightarrow> ('j, 'm) Entry list \<Rightarrow> 'b \<Rightarrow> bool" where
  "data_stands C es data \<longleftrightarrow> (\<exists>h. dec_hive C data = Ok h \<and> same_hive h (ps_hive (replay C es)))"

definition snapshot_stands :: "('j, 'm, 'v, 'b) storage_codec \<Rightarrow> ('j, 'm) Entry list \<Rightarrow> ('m, 'b) Snapshot \<Rightarrow> bool" where
  "snapshot_stands C es snap \<longleftrightarrow>
     data_stands C es (sp_data snap) \<and> me_last_log_id (sp_meta snap) = ps_last (replay C es)
     \<and> me_last_membership (sp_meta snap) = ps_membership (replay C es)"

definition store_in_line ::
  "('b, 't) tree_api \<Rightarrow> ('t \<Rightarrow> bytes \<rightharpoonup> 'b) \<Rightarrow> ('j, 'm, 'v, 'b) storage_codec \<Rightarrow> ('j, 'm) Entry list \<Rightarrow> nat
     \<Rightarrow> ('j, 't) store \<Rightarrow> bool" where
  "store_in_line T content C L k s \<longleftrightarrow> k \<le> length L \<and> (\<exists>p. holds T content C s p \<and> stands_at C (take k L) p)"

definition in_line ::
  "('b, 't) tree_api \<Rightarrow> ('t \<Rightarrow> bytes \<rightharpoonup> 'b) \<Rightarrow> ('j, 'm, 'v, 'b) storage_codec \<Rightarrow> ('j, 'm) Entry list
     \<Rightarrow> ('j, 'm, 'b, 't) replicas \<Rightarrow> bool" where
  "in_line T content C L G \<longleftrightarrow> (\<forall>n. store_in_line T content C L (rg_applied G n) (snd (rg_stores G n)))
     \<and> (\<forall>n k idx data. rg_building G n = Some (k, idx, data) \<longrightarrow> k \<le> rg_applied G n \<and> data_stands C (take k L) data)
     \<and> (\<forall>(k, snap) \<in> set (rg_snapshots G). k \<le> length L \<and> snapshot_stands C (take k L) snap)"

lemma in_line_store: "in_line T content C L G \<Longrightarrow> store_in_line T content C L (rg_applied G n) (snd (rg_stores G n))"
  by (simp add: in_line_def)

lemma stands_durable:
  assumes "prefixes_storable C L" "k \<le> length L" "stands_at C (take k L) p"
  shows "durable C p"
  using assms equiv_same_hive unfolding prefixes_storable_def stands_at_def durable_def by blast

context sled_storage
begin

lemma event_in_line:
  assumes "store_step T C ev s s'" "reads T" "iterates T" "event_storable C ev" "prefixes_storable C L"
    and "store_in_line T content C L k (snd s)" "k' \<le> length L"
    and "\<And>p. stands_at C (take k L) p \<Longrightarrow> stands_at C (take k' L) (plain_event ev p)"
  shows "store_in_line T content C L k' (snd s')"
proof -
  obtain p where p: "holds T content C (snd s) p" "stands_at C (take k L) p"
    using assms(6) by (auto simp: store_in_line_def)
  from assms(8) [OF p(2)] have at: "stands_at C (take k' L) (plain_event ev p)" .
  from event_refines [of ev "fst s" "snd s" "fst s'" "snd s'" p] assms(1-4) p(1) stands_durable [OF assms(5,7) at]
  have "holds T content C (snd s') (plain_event ev p)" by simp
  with at assms(7) show ?thesis by (auto simp: store_in_line_def)
qed

lemma read_state_stands:
  assumes "store_in_line T content C L k s" "prefixes_storable C L"
  shows "data_stands C (take k L) (snapshot_state C s)"
proof -
  obtain p where p: "holds T content C s p" "stands_at C (take k L) p" "k \<le> length L"
    using assms(1) by (auto simp: store_in_line_def)
  then have same: "same_hive (sto_hive s) (ps_hive (replay C (take k L)))"
    by (auto simp: holds_def stands_at_def intro: equiv_same_hive)
  then have "hive_storable C (sto_hive s)" using assms(2) p(3) by (auto simp: prefixes_storable_def)
  then obtain h where "dec_hive C (enc_hive C (sto_hive s)) = Ok h" "hive_equiv h (sto_hive s)"
    by (auto simp: hive_storable_def)
  with same equiv_same_hive show ?thesis by (auto simp: data_stands_def snapshot_state_def)
qed

lemma described_snapshot_stands:
  assumes "snapshot_meta T C data idx s = (snap, idx', s')" "store_in_line T content C L k s" "data_stands C (take k L) data"
  shows "snapshot_stands C (take k L) snap"
  using assms by (auto simp: snapshot_stands_def snapshot_meta_def Let_def store_in_line_def holds_def stands_at_def)

lemma installed_in_line:
  fixes s :: "u64 \<times> ('j, 't) store"
  assumes "install_snapshot T C (sp_meta snap) (sp_data snap) (snd s) = (Ok (), s')" "reads T" "iterates T"
    and "snapshot_stands C (take k L) snap" "store_in_line T content C L j (snd s)" "j \<le> k" "k \<le> length L"
    and "prefixes_storable C L"
  shows "store_in_line T content C L k s'"
proof -
  obtain h where h: "dec_hive C (sp_data snap) = Ok h" "same_hive h (ps_hive (replay C (take k L)))"
    using assms(4) by (auto simp: snapshot_stands_def data_stands_def)
  have step: "store_step T C (Installed (sp_meta snap) h) s (fst s, s')"
    using store_step.installed [OF h(1) assms(1)] by (cases s) simp
  have at: "stands_at C (take k L) (plain_event (Installed (sp_meta snap) h) p)" if "stands_at C (take j L) p" for p
    using that h(2) assms(4,6,7) by (auto simp: stands_at_def snapshot_stands_def replay_last split: if_splits)
  from event_in_line [OF step assms(2,3) _ assms(8,5,7) at] show ?thesis by (simp add: event_storable_def)
qed

lemma step_in_line:
  assumes "replica_step T C L l G G'" "reads T" "iterates T" "prefixes_storable C L" "in_line T content C L G"
    and "\<And>n ev. l = Runs n ev \<Longrightarrow> event_storable C ev" "\<And>n j. l = Describes n j \<Longrightarrow> j = 0"
  shows "in_line T content C L G'"
  using assms(1)
proof cases
  case (quiet_step ev n s')
  note at = in_line_store [OF assms(5), of n]
  then have "rg_applied G n \<le> length L" by (simp add: store_in_line_def)
  from event_in_line [OF quiet_step(4) assms(2,3) assms(6) [OF quiet_step(1)] assms(4) at this
      stands_when_quiet [OF quiet_step(3)]]
  show ?thesis using assms(5) quiet_step(2) by (auto simp: in_line_def split: store_event.splits if_splits)
next
  case (batch_step es n s')
  let ?k = "rg_applied G n" let ?k' = "?k + length es"
  have at: "store_in_line T content C L ?k (snd (rg_stores G n))" using assms(5) by (simp add: in_line_def)
  have "length es = length (take (length es) (drop ?k L))" using batch_step(3) by (metis length_map)
  then have "length es \<le> length L - ?k" by simp
  with at have k': "?k' \<le> length L" by (auto simp: store_in_line_def)
  have "take ?k' L = take ?k L @ map snd es" by (simp add: batch_step(3) take_add)
  then have "stands_at C (take ?k' L) (plain_event (Applied es) p)" if "stands_at C (take ?k L) p" for p
    using stands_after_batch [OF that, of es] by simp
  from event_in_line [OF batch_step(4) assms(2,3) _ assms(4) at k' this]
  show ?thesis using assms(5) batch_step(2) by (auto simp: in_line_def event_storable_def intro: trans_le_add1)
next
  case (read_step n)
  note at = in_line_store [OF assms(5), of n]
  from read_state_stands [OF at assms(4)] assms(5) read_step(2) show ?thesis by (auto simp: in_line_def)
next
  case (describe_step n k idx data snap idx' s')
  note at = in_line_store [OF assms(5), of n]
  have b: "k \<le> rg_applied G n" "data_stands C (take k L) data" using assms(5) describe_step(3) by (auto simp: in_line_def)
  with assms(7) [OF describe_step(1)] have k: "k = rg_applied G n" by simp
  have "holds T content C s' p" if "holds T content C (snd (rg_stores G n)) p" for p
    using description_holds [OF describe_step(4) assms(2) that] .
  then have "store_in_line T content C L (rg_applied G n) s'" using at by (auto simp: store_in_line_def)
  with described_snapshot_stands [OF describe_step(4) at b(2) [unfolded k]] at assms(5) describe_step(2) show ?thesis
    by (auto simp: in_line_def store_in_line_def)
next
  case (install_step i k snap n s')
  have "(k, snap) \<in> set (rg_snapshots G)" using install_step(3,4) by (metis nth_mem)
  then have snap: "k \<le> length L" "snapshot_stands C (take k L) snap" using assms(5) by (auto simp: in_line_def)
  note at = in_line_store [OF assms(5), of n]
  note line = installed_in_line [OF install_step(6) assms(2,3) snap(2) at install_step(5) snap(1) assms(4)]
  have "j \<le> k" if "rg_building G n = Some (j, idx, data)" for j idx data
    using that assms(5) install_step(5) unfolding in_line_def by (meson order_trans)
  with line show ?thesis using assms(5) install_step(2) by (auto simp: in_line_def)
qed

lemma run_in_line:
  assumes "replica_run T C L ls G G'" "reads T" "iterates T" "prefixes_storable C L"
  shows "(\<And>n ev. Runs n ev \<in> set ls \<Longrightarrow> event_storable C ev) \<Longrightarrow> (\<And>n j. Describes n j \<in> set ls \<Longrightarrow> j = 0) \<Longrightarrow> in_line T content C L G \<Longrightarrow> in_line T content C L G'"
  using assms(1)
proof (induction rule: replica_run.induct)
  case (replica_cons l G G' ls G'')
  have line: "in_line T content C L G'"
    by (rule step_in_line [OF replica_cons.hyps(1) assms(2-4) replica_cons.prems(3)]) (use replica_cons.prems in auto)
  show ?case by (rule replica_cons.IH [OF _ _ line]) (use replica_cons.prems in auto)
qed simp

end

lemma fresh_in_line:
  assumes "replicas_fresh T content C G" "sled_storage T content C" "reads T"
  shows "in_line T content C L G"
proof -
  have "holds T content C (snd (rg_stores G n)) (plain_new C)" for n
  proof -
    obtain l m where "content l = Map.empty" "content m = Map.empty"
      "storage_new T C l m shared_new = Ok (fst (rg_stores G n), snd (rg_stores G n))"
      using assms(1) unfolding replicas_fresh_def prod.collapse by blast
    then show ?thesis using new_store_holds [OF _ assms(2,3)] by blast
  qed
  then have "store_in_line T content C L 0 (snd (rg_stores G n))" for n
    using stands_new by (fastforce simp: store_in_line_def)
  with assms(1) show ?thesis by (simp add: in_line_def replicas_fresh_def)
qed

text \<open>What the invariant says of the tables, those in memory and those the next process will restore.\<close>

lemma line_tables:
  assumes "in_line T content C L G"
  shows "same_hive (sto_hive (snd (rg_stores G n))) (apply_log (map (Pair 0) (log_commands (take (rg_applied G n) L))) hive_new)"
    and "same_hive (saved_hive content C (sto_meta (snd (rg_stores G n))))
      (apply_log (map (Pair 0) (log_commands (take (rg_applied G n) L))) hive_new)"
proof -
  obtain p where "holds T content C (snd (rg_stores G n)) p" "stands_at C (take (rg_applied G n) L) p"
    using in_line_store [OF assms, of n] by (auto simp: store_in_line_def)
  then show "same_hive (sto_hive (snd (rg_stores G n))) (apply_log (map (Pair 0) (log_commands (take (rg_applied G n) L))) hive_new)"
    and "same_hive (saved_hive content C (sto_meta (snd (rg_stores G n))))
      (apply_log (map (Pair 0) (log_commands (take (rg_applied G n) L))) hive_new)"
    unfolding replay_hive [where C = C, symmetric] by (auto simp: holds_def stands_at_def intro: equiv_same_hive)
qed

section \<open>Instances for the witnesses\<close>

text \<open>On the reference tree batches, snapshots and installations succeed.\<close>

definition fresh_replicas :: "(unit, unit, (unit, unit, unit) blob, (unit, unit, unit) blob ref_tree) replicas" where
  "fresh_replicas = \<lparr>rg_stores = (\<lambda>n. (0, empty_store)), rg_applied = (\<lambda>n. 0), rg_building = (\<lambda>n. None), rg_snapshots = []\<rparr>"

lemma fresh_replicas_fresh: "replicas_fresh ref_tree_api map_of unit_codec fresh_replicas"
  unfolding replicas_fresh_def fresh_replicas_def using ref_opens by (auto simp: fun_eq_iff intro!: exI [of _ "[]"])

lemma ref_prefixes_storable [simp]: "prefixes_storable (ref_codec m0) L"
  by (simp add: prefixes_storable_def)

lemma ref_batch_step:
  fixes G :: "(unit, unit, (unit, unit, unit) blob, (unit, unit, unit) blob ref_tree) replicas"
  assumes "drop (rg_applied G n) L = e # rest"
  obtains G' where "replica_step ref_tree_api unit_codec L (Runs n (Applied [(t, e)])) G G'"
    "rg_applied G' = (rg_applied G)(n := Suc (rg_applied G n))" "rg_snapshots G' = rg_snapshots G"
    "rg_building G' = rg_building G"
proof -
  obtain i s where G: "rg_stores G n = (i, s)" by fastforce
  obtain s' where "apply_to_state_machine ref_tree_api unit_codec [(t, e)] s = (Ok [()], s')"
    by (cases "en_payload e") (simp_all add: store_op_defs)
  from store_step.applied [OF this, of i] have "store_step ref_tree_api unit_codec (Applied [(t, e)]) (rg_stores G n) (i, s')"
    by (simp only: G)
  from replica_step.batch_step [OF _ this, of L] assms that show thesis by simp
qed

lemma ref_read_step:
  fixes G :: "(unit, unit, (unit, unit, unit) blob, (unit, unit, unit) blob ref_tree) replicas"
  obtains G' where "replica_step ref_tree_api unit_codec L (Reads n) G G'" "rg_applied G' = rg_applied G"
    "rg_snapshots G' = rg_snapshots G"
    "rg_building G' n = Some (rg_applied G n, fst (rg_stores G n), HiveBlob (sto_hive (snd (rg_stores G n))))"
  using that replica_step.read_step [of ref_tree_api unit_codec L n G]
  by (simp add: snapshot_state_def shared_snapshot_def get_snapshot_builder_def)

lemma ref_describe_step:
  fixes G :: "(unit, unit, (unit, unit, unit) blob, (unit, unit, unit) blob ref_tree) replicas"
  assumes "rg_building G n = Some (k, idx, HiveBlob h)"
  obtains G' snap where "replica_step ref_tree_api unit_codec L (Describes n (rg_applied G n - k)) G G'"
    "rg_applied G' = rg_applied G" "rg_snapshots G' = rg_snapshots G @ [(rg_applied G n, snap)]" "sp_data snap = HiveBlob h"
    "\<And>m. sto_hive (snd (rg_stores G' m)) = sto_hive (snd (rg_stores G m))"
proof -
  obtain snap i s' where b: "snapshot_meta ref_tree_api unit_codec (HiveBlob h) idx (snd (rg_stores G n)) = (snap, i, s')"
    using prod_cases3 by blast
  then have "sp_data snap = HiveBlob h" "sto_hive s' = sto_hive (snd (rg_stores G n))"
    by (auto simp: snapshot_meta_def meta_insert_def Let_def split: prod.splits)
  with that replica_step.describe_step [OF assms b, of L] show thesis by simp
qed

lemma ref_install_step:
  fixes G :: "(unit, unit, (unit, unit, unit) blob, (unit, unit, unit) blob ref_tree) replicas"
  assumes "i < length (rg_snapshots G)" "rg_snapshots G ! i = (k, snap)" "rg_applied G n \<le> k" "sp_data snap = HiveBlob h"
  obtains G' where "replica_step ref_tree_api unit_codec L (Installs n i) G G'"
    "rg_applied G' = (rg_applied G)(n := k)" "rg_snapshots G' = rg_snapshots G"
    "sto_hive (snd (rg_stores G' n)) = h" "\<And>m. m \<noteq> n \<Longrightarrow> rg_stores G' m = rg_stores G m"
proof -
  obtain s' where s': "install_snapshot ref_tree_api unit_codec (sp_meta snap) (sp_data snap) (snd (rg_stores G n)) = (Ok (), s')"
    using ref_install_succeeds assms(4) by metis
  have "sto_hive s' = h"
    using sled_storage.install_ok [OF ref_store_law s' ref_tree_reads, of h] assms(4) by simp
  with that replica_step.install_step [OF assms(1-3) s', of L] show thesis by simp
qed

section \<open>Properties\<close>

text \<open>C10. The stores agree as long as no build of a snapshot is overtaken. Whatever batches a store is
  fed, with whatever clock, however often its process restarts and whether it got there by its own
  batches or by the snapshot of another store: when no store applies an entry between the two
  readings of a build, a store's tables, its last applied log id and its membership are those that
  its part of the log amounts to, and so are the tables that the next process will restore; so two
  stores that have applied equally much hold the same tables up to the instants they stamp.\<close>

theorem stores_agree:
  assumes "sled_storage T content C" "reads T" "iterates T" "replicas_fresh T content C G0"
    and "replica_run T C L ls G0 G" "\<And>n ev. Runs n ev \<in> set ls \<Longrightarrow> event_storable C ev" "prefixes_storable C L"
    and "\<And>n j. Describes n j \<in> set ls \<Longrightarrow> j = 0"
  shows "same_hive (sto_hive (snd (rg_stores G n))) (apply_log (map (Pair 0) (log_commands (take (rg_applied G n) L))) hive_new)
    \<and> same_hive (saved_hive content C (sto_meta (snd (rg_stores G n)))) (sto_hive (snd (rg_stores G n)))
    \<and> last_applied_state T C (snd (rg_stores G n)) =
        Ok (if rg_applied G n = 0 then None else Some (en_log_id (L ! (rg_applied G n - 1))),
            batch_membership (map (Pair 0) (take (rg_applied G n) L)) (default_membership C))
    \<and> (rg_applied G n = rg_applied G m \<longrightarrow>
        same_hive (sto_hive (snd (rg_stores G n))) (sto_hive (snd (rg_stores G m))))"
proof -
  have line: "in_line T content C L G"
    by (rule sled_storage.run_in_line [OF assms(1,5,2,3,7) assms(6,8) fresh_in_line [OF assms(4,1,2)]])
  note tables = line_tables [OF line]
  have saved: "same_hive (saved_hive content C (sto_meta (snd (rg_stores G n)))) (sto_hive (snd (rg_stores G n)))"
    by (rule same_hive_common [OF tables(2,1)])
  have agree: "rg_applied G n = rg_applied G m \<longrightarrow>
      same_hive (sto_hive (snd (rg_stores G n))) (sto_hive (snd (rg_stores G m)))"
    using same_hive_common tables(1) [of n] tables(1) [of m] by auto
  obtain p where p: "holds T content C (snd (rg_stores G n)) p" "stands_at C (take (rg_applied G n) L) p"
    "rg_applied G n \<le> length L"
    using in_line_store [OF line, of n] by (auto simp: store_in_line_def)
  then have "ps_last p = (if rg_applied G n = 0 then None else Some (en_log_id (L ! (rg_applied G n - 1))))"
    by (auto simp: stands_at_def replay_last last_conv_nth min_def)
  with p tables(1) saved agree show ?thesis
    by (simp add: holds_def stands_at_def last_applied_state_def replay_membership)
qed

theorem stores_agree_witness:
  "\<exists>G. replica_run ref_tree_api unit_codec [goal_entry 1, blank_entry 2]
      [Runs ''n1'' (Applied [(6, goal_entry 1)]), Reads ''n1'', Describes ''n1'' 0, Runs ''n1'' (Applied [(7, blank_entry 2)]),
       Installs ''n2'' 0, Runs ''n2'' (Applied [(9, blank_entry 2)])] fresh_replicas G
    \<and> last_applied_state ref_tree_api unit_codec (snd (rg_stores G ''n2'')) = Ok (Some (log_id 2), default_membership unit_codec)
    \<and> same_hive (sto_hive (snd (rg_stores G ''n2''))) (apply_log [(0, PutGoal (goal_named ''g''))] hive_new)
    \<and> same_hive (sto_hive (snd (rg_stores G ''n2''))) (sto_hive (snd (rg_stores G ''n1'')))"
proof -
  let ?L = "[goal_entry 1, blank_entry 2]"
  let ?ls = "[Runs ''n1'' (Applied [(6, goal_entry 1)]), Reads ''n1'', Describes ''n1'' 0, Runs ''n1'' (Applied [(7, blank_entry 2)]),
       Installs ''n2'' 0, Runs ''n2'' (Applied [(9, blank_entry 2)])]"
  let ?step = "replica_step ref_tree_api unit_codec ?L"
  obtain G1 where G1: "?step (Runs ''n1'' (Applied [(6, goal_entry 1)])) fresh_replicas G1"
    "rg_applied G1 = (\<lambda>n. 0)(''n1'' := 1)" "rg_snapshots G1 = []"
    by (rule ref_batch_step [where t = 6, of fresh_replicas "''n1''" ?L]) (auto simp: fresh_replicas_def)
  obtain Gr where Gr: "?step (Reads ''n1'') G1 Gr" "rg_applied Gr = rg_applied G1" "rg_snapshots Gr = []"
    "rg_building Gr ''n1'' = Some (rg_applied G1 ''n1'', fst (rg_stores G1 ''n1''), HiveBlob (sto_hive (snd (rg_stores G1 ''n1''))))"
    by (rule ref_read_step [of ?L "''n1''" G1]) (auto simp: G1)
  obtain G2 snap where G2: "?step (Describes ''n1'' 0) Gr G2" "rg_applied G2 = rg_applied G1"
    "rg_snapshots G2 = [(1, snap)]" "sp_data snap = HiveBlob (sto_hive (snd (rg_stores G1 ''n1'')))"
    by (rule ref_describe_step [OF Gr(4), of ?L]) (auto simp: G1 Gr)
  obtain G3 where G3: "?step (Runs ''n1'' (Applied [(7, blank_entry 2)])) G2 G3"
    "rg_applied G3 = (\<lambda>n. 0)(''n1'' := 2)" "rg_snapshots G3 = [(1, snap)]"
    by (rule ref_batch_step [where t = 7, of G2 "''n1''" ?L]) (auto simp: G1 G2 numeral_2_eq_2)
  obtain G4 where G4: "?step (Installs ''n2'' 0) G3 G4" "rg_applied G4 = (\<lambda>n. 0)(''n1'' := 2, ''n2'' := 1)"
    by (rule ref_install_step [OF _ _ _ G2(4), of 0 G3 1 "''n2''" ?L]) (auto simp: G3)
  obtain G5 where G5: "?step (Runs ''n2'' (Applied [(9, blank_entry 2)])) G4 G5"
    "rg_applied G5 = (\<lambda>n. 0)(''n1'' := 2, ''n2'' := 2)"
    by (rule ref_batch_step [where t = 9, of G4 "''n2''" ?L]) (auto simp: G4 numeral_2_eq_2)
  have run: "replica_run ref_tree_api unit_codec ?L ?ls fresh_replicas G5"
    by (intro replica_cons [OF G1(1)] replica_cons [OF Gr(1)] replica_cons [OF G2(1)] replica_cons [OF G3(1)]
        replica_cons [OF G4(1)] replica_cons [OF G5(1)] replica_nil)
  have "event_storable unit_codec ev" if "Runs n ev \<in> set ?ls" for n ev
    using that by (auto simp: event_storable_def)
  moreover have "j = 0" if "Describes n j \<in> set ?ls" for n j using that by auto
  ultimately show ?thesis
    using stores_agree [where n = "''n2''" and m = "''n1''", OF ref_store_law ref_tree_reads ref_tree_iterates fresh_replicas_fresh run _
      ref_prefixes_storable] run
    by (intro exI [of _ G5]) (simp add: G5(2) log_commands_def goal_entry_def blank_entry_def)
qed

text \<open>A build that is overtaken breaks the agreement. The first store applies an entry between the two
  readings of a build, and the second installs the snapshot: both have applied the same part of the
  log, and only the first has the goal that it puts.\<close>

theorem overtaken_snapshot_breaks_agreement:
  "\<exists>G. replica_run ref_tree_api unit_codec [goal_entry 1]
      [Reads ''n1'', Runs ''n1'' (Applied [(6, goal_entry 1)]), Describes ''n1'' 1, Installs ''n2'' 0] fresh_replicas G
    \<and> rg_applied G ''n1'' = rg_applied G ''n2''
    \<and> \<not> same_hive (sto_hive (snd (rg_stores G ''n1''))) (sto_hive (snd (rg_stores G ''n2'')))"
proof -
  let ?step = "replica_step ref_tree_api unit_codec [goal_entry 1]"
  obtain G1 where G1: "?step (Reads ''n1'') fresh_replicas G1" "rg_applied G1 = (\<lambda>n. 0)" "rg_snapshots G1 = []"
    "rg_building G1 ''n1'' = Some (0, 0, HiveBlob hive_new)"
    by (rule ref_read_step [of "[goal_entry 1]" "''n1''" fresh_replicas]) (auto simp: fresh_replicas_def empty_store_def)
  obtain G2 where G2: "?step (Runs ''n1'' (Applied [(6, goal_entry 1)])) G1 G2"
    "rg_applied G2 = (\<lambda>n. 0)(''n1'' := 1)" "rg_snapshots G2 = []" "rg_building G2 = rg_building G1"
    by (rule ref_batch_step [where t = 6, of G1 "''n1''" "[goal_entry 1]"]) (auto simp: G1)
  obtain G3 snap where G3: "?step (Describes ''n1'' 1) G2 G3" "rg_applied G3 = rg_applied G2" "rg_snapshots G3 = [(1, snap)]"
    "sp_data snap = HiveBlob hive_new" "sto_hive (snd (rg_stores G3 ''n1'')) = sto_hive (snd (rg_stores G2 ''n1''))"
    by (rule ref_describe_step [OF G1(4) [folded G2(4)], of "[goal_entry 1]"]) (auto simp: G2(2,3))
  obtain G4 where G4: "?step (Installs ''n2'' 0) G3 G4" "rg_applied G4 = (\<lambda>n. 0)(''n1'' := 1, ''n2'' := 1)"
    "sto_hive (snd (rg_stores G4 ''n2'')) = hive_new" "rg_stores G4 ''n1'' = rg_stores G3 ''n1''"
    using ref_install_step [OF _ _ _ G3(4), of 0 G3 1 "''n2''" "[goal_entry 1]"] G3(2,3) G2(2) by auto
  have two: "replica_run ref_tree_api unit_codec [goal_entry 1] [Reads ''n1'', Runs ''n1'' (Applied [(6, goal_entry 1)])] fresh_replicas G2"
    by (intro replica_cons [OF G1(1)] replica_cons [OF G2(1)] replica_nil)
  have "in_line ref_tree_api map_of unit_codec [goal_entry 1] G2"
    by (rule sled_storage.run_in_line [OF ref_store_law two ref_tree_reads ref_tree_iterates ref_prefixes_storable
          _ _ fresh_in_line [OF fresh_replicas_fresh ref_store_law ref_tree_reads]])
      (auto simp: event_storable_def)
  from line_tables(1) [OF this, of "''n1''"]
  have "hm_get (hs_goals (sto_hive (snd (rg_stores G4 ''n1'')))) ''g'' = Some (goal_named ''g'')"
    by (simp add: G2(2) G3(5) G4(4) same_hive_lookups log_commands_def goal_entry_def goal_named_def)
  then have "\<not> same_hive (sto_hive (snd (rg_stores G4 ''n1''))) (sto_hive (snd (rg_stores G4 ''n2'')))"
    by (auto simp: G4(3) same_hive_lookups hive_new_def)
  moreover have "replica_run ref_tree_api unit_codec [goal_entry 1]
      [Reads ''n1'', Runs ''n1'' (Applied [(6, goal_entry 1)]), Describes ''n1'' 1, Installs ''n2'' 0] fresh_replicas G4"
    by (intro replica_cons [OF G1(1)] replica_cons [OF G2(1)] replica_cons [OF G3(1)] replica_cons [OF G4(1)] replica_nil)
  ultimately show ?thesis using G4(2) by auto
qed

end
