(* ===== verification/InterleavingProps.thy ===== *)
theory InterleavingProps
  imports Interleaving
begin

text \<open>
  Properties of every run of the daemon, with its loops, the API and the other nodes interleaved:
  where payloads come from, what runs at a time, what becomes of tasks that are cancelled or left
  behind, that ticks end, and that the ticks of \<open>Daemon\<close> are runs of the machine.
\<close>

section \<open>Properties\<close>

definition demo_setup :: "unit daemon_setup" where
  "demo_setup = \<lparr>dm_node = ''node-1'', dm_policy = execution_policy_default, dm_json = unit_json, dm_fmt = (\<lambda>t. [])\<rparr>"

definition picked_state :: "unit daemon_state" where
  "picked_state = (daemon_initial (live_hive [waiting_task]))\<lparr>ds_runner := RunnerReady [waiting_task]\<rparr>"

definition cancelled_state :: "unit daemon_state" where
  "cancelled_state = picked_state\<lparr>ds_hive := apply_command 0 (UpdateTaskStatus ''a'' Cancelled None) (ds_hive picked_state)\<rparr>"

lemma waiting_fields [simp]:
  "tk_id waiting_task = ''a''" "tk_status waiting_task = Pending" "tk_payload waiting_task = Echo ''hi''"
  by (simp_all add: waiting_task_def demo_task_def)

lemma waiting_tasks:
  "task_of (live_hive [waiting_task]) i = (if i = ''a'' then Some (forget_updated waiting_task) else None)"
  by (simp add: task_of_def live_hive_def hm_get_def)

lemma picked_step: "daemon_step demo_setup RunnerTick (daemon_initial (live_hive [waiting_task])) picked_state"
proof -
  have "my_pending ''node-1'' (to_cluster_view None 0 (live_hive [waiting_task])) = [waiting_task]"
    by (simp add: my_pending_def live_hive_def hm_values_def waiting_task_def demo_task_def)
  then show ?thesis
    using daemon_step.runner_tick [of "daemon_initial (live_hive [waiting_task])" demo_setup None 0]
    by (simp add: picked_state_def daemon_initial_def demo_setup_def)
qed

lemma cancelled_step:
  "daemon_step demo_setup (Remote (UpdateTaskStatus ''a'' Cancelled None)) picked_state cancelled_state"
  unfolding cancelled_state_def by (rule daemon_step.remote)

lemma cancelled_run: "daemon_run demo_setup
    [RunnerTick, Remote (UpdateTaskStatus ''a'' Cancelled None)] (daemon_initial (live_hive [waiting_task])) cancelled_state"
  by (rule run_cons [OF picked_step run_cons [OF cancelled_step run_nil]])

text \<open>Every task that exists in any run of the daemon, with the loops, the API and the other
  nodes interleaved in any way and any write lost, has a payload that was in the state at the start,
  or that the policy permits, or that came in over \<open>POST /tasks\<close> or from another node.\<close>

theorem payloads_have_a_source:
  assumes "daemon_run D ls (daemon_initial h) s" "task_of (ds_hive s) i = Some t"
  shows "payload_ok (dm_policy D) (tk_payload t) \<or> (\<exists>j t0. task_of h j = Some t0 \<and> tk_payload t0 = tk_payload t)
    \<or> (\<exists>l \<in> set ls. tk_payload t \<in> label_payloads l)"
proof -
  let ?P = "{p. payload_ok (dm_policy D) p} \<union> payloads h \<union> (\<Union>l \<in> set ls. label_payloads l)"
  have "sourced ?P s"
  proof (rule run_keeps [OF assms(1), where Q = "\<lambda>l. label_payloads l \<subseteq> ?P"])
    show "sourced ?P (daemon_initial h)" by (auto simp: sourced_def daemon_initial_def)
  qed (blast, rule step_sourced, auto)
  then have "tk_payload t \<in> ?P" using payloads_task [OF assms(2)] by (auto simp: sourced_def)
  then show ?thesis by (simp add: payloads_def disj_ac)
qed

theorem payloads_have_a_source_witness:
  "\<exists>s t. daemon_run demo_setup [RunnerTick, Remote (UpdateTaskStatus ''a'' Cancelled None)]
      (daemon_initial (live_hive [waiting_task])) s \<and> task_of (ds_hive s) ''a'' = Some t \<and> tk_status t = Cancelled
    \<and> (payload_ok execution_policy_default (tk_payload t)
       \<or> (\<exists>j t0. task_of (live_hive [waiting_task]) j = Some t0 \<and> tk_payload t0 = tk_payload t))"
proof -
  have t: "task_of (ds_hive cancelled_state) ''a'' = Some ((forget_updated waiting_task)\<lparr>tk_status := Cancelled, tk_result := None\<rparr>)"
    by (simp add: cancelled_state_def picked_state_def daemon_initial_def task_of_apply waiting_tasks
        del: apply_command.simps)
  from payloads_have_a_source [OF cancelled_run t] t cancelled_run show ?thesis
    by (intro exI [of _ cancelled_state] exI) (auto simp: demo_setup_def)
qed


text \<open>C15. At most one task runs on a node at a time. In every run that starts with nothing running,
  in which no start is committed with its answer lost, no final report is refused and nobody else
  marks a task as running, a task whose status is \<open>Running\<close> is the one the runner is busy with.\<close>

theorem one_task_at_a_time:
  assumes "daemon_run D ls (daemon_initial h) s" "\<forall>l \<in> set ls. answered l"
    and "\<forall>j t. task_of h j = Some t \<longrightarrow> tk_status t \<noteq> Running"
    and "task_of (ds_hive s) i = Some t" "tk_status t = Running"
  shows "running_task (ds_runner s) = Some i"
proof -
  have "one_at_a_time s"
  proof (rule run_keeps [OF assms(1), where Q = answered])
    show "one_at_a_time (daemon_initial h)"
      using assms(3) by (auto simp: one_at_a_time_def daemon_initial_def running_def)
  qed (use assms(2) step_one_at_a_time in \<open>blast+\<close>)
  with assms(4,5) show ?thesis by (auto simp: one_at_a_time_def running_def)
qed

lemma demo_start: "\<exists>s. daemon_run demo_setup [RunnerTick, StartTask ''a'' Committed] (daemon_initial (live_hive [waiting_task])) s
    \<and> task_of (ds_hive s) ''a'' = Some ((forget_updated waiting_task)\<lparr>tk_status := Running, tk_result := None\<rparr>)"
proof -
  have "ds_runner picked_state = RunnerReady [waiting_task]" by (simp add: picked_state_def)
  from daemon_step.start_task [OF this, of demo_setup Committed 0]
  have "daemon_run demo_setup [StartTask ''a'' Committed] picked_state
      (picked_state\<lparr>ds_hive := apply_command 0 (UpdateTaskStatus ''a'' Running None) (ds_hive picked_state),
         ds_runner := RunnerStarted waiting_task []\<rparr>)"
    by (intro run_cons [OF _ run_nil]) simp
  from run_cons [OF picked_step this] show ?thesis
    by (intro exI conjI, assumption)
      (simp add: task_of_apply waiting_tasks picked_state_def daemon_initial_def del: apply_command.simps)
qed

theorem one_task_at_a_time_witness:
  "\<exists>s t. daemon_run demo_setup [RunnerTick, StartTask ''a'' Committed] (daemon_initial (live_hive [waiting_task])) s
    \<and> task_of (ds_hive s) ''a'' = Some t \<and> tk_status t = Running \<and> running_task (ds_runner s) = Some ''a''"
proof -
  obtain s where s: "daemon_run demo_setup [RunnerTick, StartTask ''a'' Committed] (daemon_initial (live_hive [waiting_task])) s"
    "task_of (ds_hive s) ''a'' = Some ((forget_updated waiting_task)\<lparr>tk_status := Running, tk_result := None\<rparr>)"
    using demo_start by blast
  have "running_task (ds_runner s) = Some ''a''"
    by (rule one_task_at_a_time [OF s(1) _ _ s(2)])
      (simp_all add: waiting_tasks)
  with s show ?thesis by (intro exI [of _ s] exI conjI) auto
qed

text \<open>A task whose end was not recorded is never taken up again. When a task has a status other
  than \<open>Pending\<close>, the runner does not hold it, and neither the planner, the API nor another node
  writes it, then in every run it stays as it is and the runner never picks it up.\<close>

theorem abandoned_task_stays:
  assumes "daemon_run D ls s s'" "hive_wf (ds_hive s)" "task_of (ds_hive s) i = Some t" "tk_status t \<noteq> Pending"
    and "i \<notin> tk_id ` set (runner_queue (ds_runner s))" "\<forall>l \<in> set ls. \<not> label_touches i l"
  shows "task_of (ds_hive s') i = Some t \<and> i \<notin> tk_id ` set (runner_queue (ds_runner s'))"
proof -
  have "abandoned i t s'"
  proof (rule run_keeps [OF assms(1), where Q = "\<lambda>l. \<not> label_touches i l"])
    show "abandoned i t s" using assms(2,3,5) by (simp add: abandoned_def)
  qed (use assms(4,6) step_abandoned in \<open>blast+\<close>)
  then show ?thesis by (simp add: abandoned_def)
qed

theorem abandoned_task_stays_witness:
  "\<exists>s'. daemon_run demo_setup [RunnerTick, RunnerEnd] (daemon_initial (live_hive [demo_task ''a'' Running])) s'
    \<and> task_of (ds_hive s') ''a'' = Some (forget_updated (demo_task ''a'' Running))"
proof -
  let ?s = "daemon_initial (live_hive [demo_task ''a'' Running])"
  have none: "my_pending ''node-1'' (to_cluster_view None 0 (ds_hive ?s)) = []"
    by (simp add: daemon_initial_def my_pending_def live_hive_def hm_values_def demo_task_def)
  have "daemon_step demo_setup RunnerTick ?s (?s\<lparr>ds_runner := RunnerReady []\<rparr>)"
    using daemon_step.runner_tick [of ?s demo_setup None 0] none by (simp add: daemon_initial_def demo_setup_def)
  moreover have "daemon_step demo_setup RunnerEnd (?s\<lparr>ds_runner := RunnerReady []\<rparr>)
      (?s\<lparr>ds_runner := RunnerReady []\<rparr>\<lparr>ds_runner := RunnerIdle\<rparr>)"
    by (rule daemon_step.runner_end) simp
  ultimately have run: "daemon_run demo_setup [RunnerTick, RunnerEnd] ?s
      (?s\<lparr>ds_runner := RunnerReady []\<rparr>\<lparr>ds_runner := RunnerIdle\<rparr>)"
    by (rule run_cons [OF _ run_cons [OF _ run_nil]])
  have "task_of (ds_hive ?s) ''a'' = Some (forget_updated (demo_task ''a'' Running))"
    by (simp add: daemon_initial_def task_of_def live_hive_def hm_get_def demo_task_def)
  from abandoned_task_stays [OF run _ this] show ?thesis
    using run by (auto simp: daemon_initial_def live_hive_wf demo_task_def)
qed


text \<open>A task is run at most once. In every run that starts with an idle runner, in which nobody
  puts the task back to pending, its payload is run at most once, whatever writes are refused or
  lost and whatever interleaves; not at all when it was not pending at the start.\<close>

theorem task_runs_at_most_once:
  assumes "daemon_run D ls (daemon_initial h) s" "hive_wf h" "\<forall>l \<in> set ls. \<not> label_reopens i l"
  shows "length (filter (\<lambda>l. l = EndProcess i) ls) \<le> (if not_pending i h then 0 else 1)"
  by (rule initial_allowance [OF assms])

theorem task_runs_at_most_once_witness:
  "\<exists>s. daemon_run demo_setup [RunnerTick, Remote (UpdateTaskStatus ''a'' Cancelled None),
      StartTask ''a'' Committed, EndProcess ''a'', ReportTask ''a'' Committed] (daemon_initial (live_hive [waiting_task])) s
    \<and> length (filter (\<lambda>l. l = EndProcess ''a'') [RunnerTick, Remote (UpdateTaskStatus ''a'' Cancelled None),
      StartTask ''a'' Committed, EndProcess ''a'', ReportTask ''a'' Committed :: unit daemon_label])
      \<le> (if not_pending ''a'' (live_hive [waiting_task]) then 0 else 1)"
proof -
  have q: "ds_runner cancelled_state = RunnerReady [waiting_task]"
    by (simp add: cancelled_state_def picked_state_def)
  obtain s where "daemon_run demo_setup [StartTask ''a'' Committed, EndProcess ''a'', ReportTask ''a'' Committed] cancelled_state s"
    using runner_pass [OF q, of demo_setup] by auto
  from daemon_run_append [OF cancelled_run this]
  have run: "daemon_run demo_setup [RunnerTick, Remote (UpdateTaskStatus ''a'' Cancelled None),
      StartTask ''a'' Committed, EndProcess ''a'', ReportTask ''a'' Committed] (daemon_initial (live_hive [waiting_task])) s"
    by simp
  from task_runs_at_most_once [OF run, of "''a''"] run show ?thesis
    by (intro exI [of _ s] conjI) (simp_all add: live_hive_wf makes_pending_def)
qed

text \<open>What the runner picked at its tick it runs. When a task is next in its queue, the writes to
  it are committed and no other step comes between, then the payload that is run is the one read at
  the tick, and its outcome replaces the status the task has by then, be it cancelled, moved to
  another node or already completed.\<close>

theorem picked_task_is_run:
  assumes "daemon_run D [StartTask i Committed, EndProcess i, ReportTask i Committed] s s'"
    and "ds_runner s = RunnerReady (task # ts)" "task_of (ds_hive s) i = Some t"
  shows "\<exists>S r. r = fst (run_payload (dm_json D) (S :: unit os_api) runner_new (tk_payload task) ())
    \<and> task_of (ds_hive s') i = Some (t\<lparr>tk_status := fst (task_outcome r), tk_result := snd (task_outcome r)\<rparr>)"
  using pass_effect [OF assms] by blast

theorem picked_task_is_run_witness:
  "\<exists>s'. daemon_run demo_setup [RunnerTick, Remote (UpdateTaskStatus ''a'' Cancelled None),
      StartTask ''a'' Committed, EndProcess ''a'', ReportTask ''a'' Committed]
      (daemon_initial (live_hive [waiting_task])) s'
    \<and> map_option tk_status (task_of (ds_hive s') ''a'') = Some Completed"
proof -
  have q: "ds_runner cancelled_state = RunnerReady [waiting_task]"
    by (simp add: cancelled_state_def picked_state_def)
  have t: "task_of (ds_hive cancelled_state) ''a'' = Some ((forget_updated waiting_task)\<lparr>tk_status := Cancelled, tk_result := None\<rparr>)"
    by (simp add: cancelled_state_def picked_state_def daemon_initial_def task_of_apply waiting_tasks
        del: apply_command.simps)
  obtain s' where s': "daemon_run demo_setup [StartTask ''a'' Committed, EndProcess ''a'', ReportTask ''a'' Committed] cancelled_state s'"
    using runner_pass [OF q, of demo_setup] by auto
  from picked_task_is_run [OF s' q t] have "map_option tk_status (task_of (ds_hive s') ''a'') = Some Completed"
    by auto
  with daemon_run_append [OF cancelled_run s'] show ?thesis by auto
qed

text \<open>C23. Ticks end. From every state the steps of the runner alone bring it back to its ticker, so do
  those of the planner, whatever the answers to their writes; and in any run without a new tick,
  with anything interleaved, the runner makes at most three steps for each task it picked and the
  planner three for each action of the plan.\<close>

theorem ticks_end:
  "(\<exists>ls u. daemon_run D ls s u \<and> list_all is_runner_step ls \<and> ds_runner u = RunnerIdle)
    \<and> (\<exists>ls u. daemon_run D ls s u \<and> list_all is_planner_step ls \<and> ds_planner u = PlannerIdle)
    \<and> (\<forall>ls u. daemon_run D ls s u \<and> (\<forall>l \<in> set ls. \<not> is_tick l) \<longrightarrow>
        length (filter is_runner_step ls) \<le> runner_work (ds_runner s)
      \<and> length (filter is_planner_step ls) \<le> planner_work (ds_planner s))"
  using runner_finishes planner_finishes run_work by fastforce

theorem ticks_end_witness:
  "\<exists>u. daemon_run demo_setup [StartTask ''a'' Committed, EndProcess ''a'', ReportTask ''a'' Committed] cancelled_state u
    \<and> length (filter is_runner_step [StartTask ''a'' Committed, EndProcess ''a'', ReportTask ''a'' Committed :: unit daemon_label])
      \<le> runner_work (ds_runner cancelled_state)
    \<and> runner_work (ds_runner cancelled_state) = 4"
proof -
  have q: "ds_runner cancelled_state = RunnerReady [waiting_task]"
    by (simp add: cancelled_state_def picked_state_def)
  obtain u where u: "daemon_run demo_setup [StartTask ''a'' Committed, EndProcess ''a'', ReportTask ''a'' Committed] cancelled_state u"
    using runner_pass [OF q, of demo_setup] by auto
  from ticks_end [of demo_setup cancelled_state, THEN conjunct2, THEN conjunct2, rule_format, OF conjI, OF u] u q
  show ?thesis by auto
qed




text \<open>C21. The loop of the planner refines the machine. A tick of \<open>planner_tick\<close>, for any brain and
  with writes that end as a script says, is a run that starts with \<open>PlannerTick\<close>, goes on with steps
  of the planner and leaves the same state and the same tracker: what holds of all runs holds when
  the loop is run on its own.\<close>

theorem planner_tick_refines:
  assumes "planner_tick (dm_fmt D) local_replicator (dm_policy D) (beside_brain B) reg e (tr, (h, script, w))
      = (tr', (h', script', w'))"
    and "hive_wf h" "ds_hive s = h" "ds_tracker s = tr" "ds_planner s = PlannerIdle"
  shows "\<exists>actions ls. daemon_run D (PlannerTick actions # ls) s (s\<lparr>ds_hive := h', ds_tracker := tr'\<rparr>)
    \<and> (\<forall>l \<in> set ls. is_planner_step l)"
  by (rule planner_tick_as_steps [OF assms])

definition cancel_brain :: "(unit, unit) brain_api" where
  "cancel_brain = \<lparr>br_plan = (\<lambda>goals view atts w. (Ok [CancelTask ''a''], w))\<rparr>"

theorem planner_tick_refines_witness:
  "\<exists>actions ls h' tr'. daemon_run demo_setup (PlannerTick actions # ls) (daemon_initial (live_hive [waiting_task]))
      ((daemon_initial (live_hive [waiting_task]))\<lparr>ds_hive := h', ds_tracker := tr'\<rparr>)
    \<and> map_option tk_status (task_of h' ''a'') = Some Cancelled"
proof -
  let ?h = "live_hive [waiting_task]"
  let ?e = "\<lparr>pe_now = 0, pe_acts = demo_act\<rparr>"
  let ?h' = "apply_command 1 (UpdateTaskStatus ''a'' Cancelled None) ?h"
  let ?R = "local_replicator :: (unit, (unit, unit) local_world) replicator_api"
  have new: "cleanup_stale 0 tracker_new = (tracker_new :: unit ActionTracker)"
    "\<not> has_similar_pending (CancelTask ''a'') (tracker_new :: unit ActionTracker)"
    "get_recent_failures 10 (tracker_new :: unit ActionTracker) = []"
    by (simp_all add: cleanup_stale_def tracker_new_def has_similar_pending_def get_recent_failures_def hm_values_def)
  have ok: "validate execution_policy_default (CancelTask ''a'') (to_cluster_view None 0 ?h) = Ok ()"
    by (simp add: validate_Ok task_ids_def live_hive_def hm_values_def)
  have ex: "execute ?R execution_policy_default (ae_uuid (demo_act 0)) (ae_t1 (demo_act 0)) (ae_t2 (demo_act 0))
      (CancelTask ''a'') (?h, [(1, Committed)], ()) = (Ok (), (?h', [], ()))"
    unfolding execute_def by (simp add: ok commit_def del: validate.simps apply_command.simps)
  have step: "plan_step fmt ?R execution_policy_default [] (demo_act 0) (CancelTask ''a'') (tracker_new, (?h, [(1, Committed)], ()))
      = (tracker_run fmt (round_ops (demo_act 0) (CancelTask ''a'') (Ok ())) tracker_new, (?h', [], ()))" for fmt
    by (rule plan_step_act [OF new(2) _ ex]) (simp add: is_recently_failed_def)
  let ?tr = "tracker_run (dm_fmt demo_setup) (round_ops (demo_act 0) (CancelTask ''a'') (Ok ())) tracker_new"
  have tick: "planner_tick (dm_fmt demo_setup) ?R (dm_policy demo_setup) (beside_brain cancel_brain)
      (registry_new ''node-1'') ?e (tracker_new, (?h, [(1, Committed)], ())) = (?tr, (?h', [], ()))"
    by (simp add: planner_tick_def beside_brain_def cancel_brain_def new demo_setup_def step del: apply_command.simps)
  obtain actions ls where "daemon_run demo_setup (PlannerTick actions # ls) (daemon_initial ?h)
      ((daemon_initial ?h)\<lparr>ds_hive := ?h', ds_tracker := ?tr\<rparr>)"
    using planner_tick_refines [OF tick _, of "daemon_initial ?h"]
    by (auto simp: daemon_initial_def live_hive_wf simp del: apply_command.simps)
  then show ?thesis
    by (intro exI conjI, assumption) (simp add: task_of_apply waiting_tasks del: apply_command.simps)
qed

end
