(* ===== verification/Cluster.thy ===== *)
theory Cluster
  imports InterleavingProps
begin

text \<open>
  The cluster: the machine of \<open>Interleaving\<close> once for each node, and what Raft gives them, one log of
  committed commands that every node applies in order, each at its own instant, and at most one node
  that leads, which openraft changes at will (\<open>elect_step\<close>). \<open>RaftReplicator::apply\<close> hands every write to
  the \<open>client_write\<close> of the node's own openraft, which accepts it on the leader only: on any other node
  it returns \<open>ForwardToLeader\<close>, which the code passes on as an error (\<open>forward_step\<close>). When the leader's
  write is committed the leader has applied the whole log up to it (\<open>commit_step\<close>); a write of the
  leader that was refused may still be committed later (\<open>cl_limbo\<close>, \<open>late_step\<close>), as a client of Raft
  must expect.

  \<open>cluster_projects\<close> shows that what a node goes through is a run of its own machine in which
  everything else arrives as \<open>Remote\<close>, so that every property of \<open>daemon_run\<close> carries over.
\<close>

record 'j cluster =
  cl_log :: "'j ClusterCommand list"
  cl_limbo :: "'j ClusterCommand list"
  cl_nodes :: "NodeId \<Rightarrow> 'j daemon_state"
  cl_applied :: "NodeId \<Rightarrow> nat"
  cl_leader :: "NodeId option"

datatype 'j cluster_label =
    At NodeId "'j daemon_label"
  | Deliver NodeId
  | Late "'j ClusterCommand"
  | Elects "NodeId option"

text \<open>The command a step writes, and how the write ends.\<close>

fun written :: "'j daemon_setup \<Rightarrow> 'j daemon_label \<Rightarrow> 'j daemon_state \<Rightarrow> ('j ClusterCommand \<times> write_result) option" where
  "written D (StartTask i out) s = Some (UpdateTaskStatus i Running None, out)"
| "written D (ReportTask i out) s =
     (case ds_runner s of
        RunnerEnded task r ts \<Rightarrow> Some (UpdateTaskStatus i (fst (task_outcome r)) (snd (task_outcome r)), out)
      | _ \<Rightarrow> None)"
| "written D (PlannerWrite c out) s = Some (c, out)"
| "written D (Heartbeat out) s = Some (UpdateNodeHealth (dm_node D) Healthy collect_node_metrics, out)"
| "written D (SubmitTask task out) s = Some (PutTask task, out)"
| "written D (SubmitGoal goal out) s = Some (PutGoal goal, out)"
| "written D _ s = None"

fun is_remote :: "'j daemon_label \<Rightarrow> bool" where
  "is_remote (Remote c) \<longleftrightarrow> True"
| "is_remote _ \<longleftrightarrow> False"

inductive cluster_step :: "(NodeId \<Rightarrow> 'j daemon_setup) \<Rightarrow> 'j cluster_label \<Rightarrow> 'j cluster \<Rightarrow> 'j cluster \<Rightarrow> bool"
  for Ds :: "NodeId \<Rightarrow> 'j daemon_setup" where
  local_step: "daemon_step (Ds n) l (cl_nodes C n) s' \<Longrightarrow> \<not> is_remote l \<Longrightarrow> written (Ds n) l (cl_nodes C n) = None \<Longrightarrow>
    cluster_step Ds (At n l) C (C\<lparr>cl_nodes := (cl_nodes C)(n := s')\<rparr>)"
| commit_step: "daemon_step (Ds n) l (cl_nodes C n) s' \<Longrightarrow> written (Ds n) l (cl_nodes C n) = Some (c, out) \<Longrightarrow>
    out \<noteq> Refused \<Longrightarrow> cl_leader C = Some n \<Longrightarrow> cl_applied C n = length (cl_log C) \<Longrightarrow>
    cluster_step Ds (At n l) C
      (C\<lparr>cl_log := cl_log C @ [c], cl_nodes := (cl_nodes C)(n := s'),
         cl_applied := (cl_applied C)(n := Suc (cl_applied C n))\<rparr>)"
| refuse_step: "daemon_step (Ds n) l (cl_nodes C n) s' \<Longrightarrow> written (Ds n) l (cl_nodes C n) = Some (c, Refused) \<Longrightarrow>
    cl_leader C = Some n \<Longrightarrow>
    cluster_step Ds (At n l) C (C\<lparr>cl_limbo := c # cl_limbo C, cl_nodes := (cl_nodes C)(n := s')\<rparr>)"
| forward_step: "daemon_step (Ds n) l (cl_nodes C n) s' \<Longrightarrow> written (Ds n) l (cl_nodes C n) = Some (c, Refused) \<Longrightarrow>
    cl_leader C \<noteq> Some n \<Longrightarrow>
    cluster_step Ds (At n l) C (C\<lparr>cl_nodes := (cl_nodes C)(n := s')\<rparr>)"
| late_step: "c \<in> set (cl_limbo C) \<Longrightarrow> cluster_step Ds (Late c) C (C\<lparr>cl_log := cl_log C @ [c]\<rparr>)"
| deliver_step: "cl_applied C n < length (cl_log C) \<Longrightarrow>
    daemon_step (Ds n) (Remote (cl_log C ! cl_applied C n)) (cl_nodes C n) s' \<Longrightarrow>
    cluster_step Ds (Deliver n) C
      (C\<lparr>cl_nodes := (cl_nodes C)(n := s'), cl_applied := (cl_applied C)(n := Suc (cl_applied C n))\<rparr>)"
| elect_step: "cluster_step Ds (Elects l) C (C\<lparr>cl_leader := l\<rparr>)"

inductive cluster_run :: "(NodeId \<Rightarrow> 'j daemon_setup) \<Rightarrow> 'j cluster_label list \<Rightarrow> 'j cluster \<Rightarrow> 'j cluster \<Rightarrow> bool"
  for Ds :: "NodeId \<Rightarrow> 'j daemon_setup" where
  cluster_nil: "cluster_run Ds [] C C"
| cluster_cons: "cluster_step Ds L C C' \<Longrightarrow> cluster_run Ds Ls C' C'' \<Longrightarrow> cluster_run Ds (L # Ls) C C''"

inductive_cases cluster_step_AtE: "cluster_step Ds (At n l) C C'"
inductive_simps cluster_run_Nil [simp]: "cluster_run Ds [] C C'"
inductive_simps cluster_run_Cons: "cluster_run Ds (L # Ls) C C''"

definition cluster_initial :: "'j HiveState \<Rightarrow> 'j cluster" where
  "cluster_initial h = \<lparr>cl_log = [], cl_limbo = [], cl_nodes = (\<lambda>n. daemon_initial h), cl_applied = (\<lambda>n. 0),
     cl_leader = None\<rparr>"

lemma cluster_run_append:
  "cluster_run Ds Ls C C' \<Longrightarrow> cluster_run Ds Ms C' C'' \<Longrightarrow> cluster_run Ds (Ls @ Ms) C C''"
  by (induction rule: cluster_run.induct) (auto intro: cluster_cons)

lemma cluster_keeps:
  assumes "cluster_run Ds Ls C C'" "P C" "\<And>L. L \<in> set Ls \<Longrightarrow> Q L"
    and "\<And>L B B'. cluster_step Ds L B B' \<Longrightarrow> Q L \<Longrightarrow> P B \<Longrightarrow> P B'"
  shows "P C'"
  using assms(1-3) by (induction rule: cluster_run.induct) (auto intro: assms(4))

section \<open>Projection to a node\<close>

text \<open>The log only grows.\<close>

lemma step_log: "cluster_step Ds L C C' \<Longrightarrow> \<exists>cs. cl_log C' = cl_log C @ cs"
  by (cases rule: cluster_step.cases) auto

lemma run_log: "cluster_run Ds Ls C C' \<Longrightarrow> \<exists>cs. cl_log C' = cl_log C @ cs"
  by (induction rule: cluster_run.induct) (use step_log in \<open>fastforce+\<close>)

lemma step_applied: "cluster_step Ds L C C' \<Longrightarrow> cl_applied C n \<le> cl_applied C' n"
  by (cases rule: cluster_step.cases) auto

lemma run_applied: "cluster_run Ds Ls C C' \<Longrightarrow> cl_applied C n \<le> cl_applied C' n"
  by (induction rule: cluster_run.induct) (use step_applied order_trans in blast)+

text \<open>A step of the cluster as seen by the node \<open>n\<close>: nothing, a step of its own, or a command of the
  log. \<open>own_labels\<close> are the steps of its own in a run.\<close>

fun own_label :: "NodeId \<Rightarrow> 'j cluster_label \<Rightarrow> 'j daemon_label list" where
  "own_label n (At m l) = (if m = n then [l] else [])"
| "own_label n _ = []"

definition own_labels :: "NodeId \<Rightarrow> 'j cluster_label list \<Rightarrow> 'j daemon_label list" where
  "own_labels n Ls = concat (map (own_label n) Ls)"

lemma own_labels_simps [simp]:
  "own_labels n [] = []" "own_labels n (L # Ls) = own_label n L @ own_labels n Ls"
  by (simp_all add: own_labels_def)

lemma run_one: "daemon_step D l s s' \<Longrightarrow> daemon_run D [l] s s'"
  by (rule run_cons [OF _ run_nil])

lemma step_projects:
  assumes "cluster_step Ds L C C'"
  shows "\<exists>ls. daemon_run (Ds n) ls (cl_nodes C n) (cl_nodes C' n) \<and> filter (\<lambda>l. \<not> is_remote l) ls = own_label n L
    \<and> (\<forall>c. Remote c \<in> set ls \<longrightarrow> c \<in> set (cl_log C'))"
  using assms
proof (cases rule: cluster_step.cases)
  case (local_step m l s')
  then show ?thesis
    by (cases "m = n") (auto intro!: exI [of _ "if m = n then [l] else []"] intro: run_one)
next
  case (commit_step m l s' c out)
  then show ?thesis
    by (cases l; cases "m = n") (auto intro!: exI [of _ "if m = n then [l] else []"] intro: run_one)
next
  case (refuse_step m l s' c)
  then show ?thesis
    by (cases l; cases "m = n") (auto intro!: exI [of _ "if m = n then [l] else []"] intro: run_one)
next
  case (forward_step m l s' c)
  then show ?thesis
    by (cases l; cases "m = n") (auto intro!: exI [of _ "if m = n then [l] else []"] intro: run_one)
next
  case (late_step c)
  then show ?thesis by (auto intro!: exI [of _ "[]"])
next
  case (elect_step l)
  then show ?thesis by (auto intro!: exI [of _ "[]"])
next
  case (deliver_step m s')
  then show ?thesis
    by (auto intro!: exI [of _ "if m = n then [Remote (cl_log C ! cl_applied C m)] else []"] intro: run_one)
qed

lemma cluster_projects:
  assumes "cluster_run Ds Ls C C'"
  shows "\<exists>ls. daemon_run (Ds n) ls (cl_nodes C n) (cl_nodes C' n) \<and> filter (\<lambda>l. \<not> is_remote l) ls = own_labels n Ls
    \<and> (\<forall>c. Remote c \<in> set ls \<longrightarrow> c \<in> set (cl_log C'))"
  using assms
proof (induction rule: cluster_run.induct)
  case (cluster_nil C)
  show ?case by (intro exI [of _ "[]"]) simp
next
  case (cluster_cons L C C' Ls C'')
  obtain ls where ls: "daemon_run (Ds n) ls (cl_nodes C n) (cl_nodes C' n)" "filter (\<lambda>l. \<not> is_remote l) ls = own_label n L"
    "\<forall>c. Remote c \<in> set ls \<longrightarrow> c \<in> set (cl_log C')" using step_projects [OF cluster_cons.hyps(1)] by blast
  obtain ms where ms: "daemon_run (Ds n) ms (cl_nodes C' n) (cl_nodes C'' n)" "filter (\<lambda>l. \<not> is_remote l) ms = own_labels n Ls"
    "\<forall>c. Remote c \<in> set ms \<longrightarrow> c \<in> set (cl_log C'')" using cluster_cons.IH by blast
  obtain cs where "cl_log C'' = cl_log C' @ cs" using run_log [OF cluster_cons.hyps(2)] by blast
  with ls ms daemon_run_append [OF ls(1) ms(1)] show ?case by (intro exI [of _ "ls @ ms"]) auto
qed


section \<open>Agreement\<close>

text \<open>What a step does to the replicated state is what it writes.\<close>

lemma step_hive:
  assumes "daemon_step D l s s'"
  shows "case written D l s of
      Some (c, out) \<Rightarrow> \<exists>now. ds_hive s' = settle_write out now c (ds_hive s)
    | None \<Rightarrow> is_remote l \<or> ds_hive s' = ds_hive s"
  using assms by (cases rule: daemon_step.cases) auto

lemma remote_hive:
  "daemon_step D (Remote c) s s' \<Longrightarrow> \<exists>now. ds_hive s' = apply_command now c (ds_hive s)"
  by (cases rule: daemon_step.cases) auto

definition in_step :: "'j HiveState \<Rightarrow> 'j cluster \<Rightarrow> bool" where
  "in_step h C \<longleftrightarrow> (\<forall>n. cl_applied C n \<le> length (cl_log C)
     \<and> evolves (take (cl_applied C n) (cl_log C)) h (ds_hive (cl_nodes C n)))"

lemma evolves_snoc: "evolves cs h h' \<Longrightarrow> evolves (cs @ [c]) h (apply_command now c h')"
  by (rule evolves_trans [OF _ evolves_command])

lemma settled_apply: "out \<noteq> Refused \<Longrightarrow> settle_write out now c h = apply_command now c h"
  by (cases out) simp_all

lemma step_in_step:
  assumes "cluster_step Ds L C C'" "in_step h C"
  shows "in_step h C'"
  using assms
proof (cases rule: cluster_step.cases)
  case (local_step n l s')
  with step_hive [OF local_step(3)] assms(2) show ?thesis by (auto simp: in_step_def)
next
  case (commit_step n l s' c out)
  from step_hive [OF commit_step(3)] obtain now where "ds_hive s' = apply_command now c (ds_hive (cl_nodes C n))"
    by (auto simp: commit_step settled_apply)
  moreover have "evolves (cl_log C) h (ds_hive (cl_nodes C n))"
    using assms(2) commit_step(7) by (metis in_step_def take_all_iff order_refl)
  ultimately have "evolves (cl_log C @ [c]) h (ds_hive s')" by (simp add: evolves_snoc del: apply_command.simps)
  with commit_step assms(2) show ?thesis by (auto simp: in_step_def le_SucI)
next
  case (refuse_step n l s' c)
  from step_hive [OF refuse_step(3)] have "ds_hive s' = ds_hive (cl_nodes C n)" by (simp add: refuse_step)
  with refuse_step assms(2) show ?thesis by (auto simp: in_step_def)
next
  case (forward_step n l s' c)
  from step_hive [OF forward_step(3)] have "ds_hive s' = ds_hive (cl_nodes C n)" by (simp add: forward_step)
  with forward_step assms(2) show ?thesis by (auto simp: in_step_def)
next
  case (late_step c)
  with assms(2) show ?thesis by (auto simp: in_step_def le_SucI)
next
  case (elect_step l)
  with assms(2) show ?thesis by (simp add: in_step_def)
next
  case (deliver_step n s')
  obtain now where "ds_hive s' = apply_command now (cl_log C ! cl_applied C n) (ds_hive (cl_nodes C n))"
    using remote_hive [OF deliver_step(4)] by blast
  with assms(2) have "evolves (take (Suc (cl_applied C n)) (cl_log C)) h (ds_hive s')"
    by (simp add: in_step_def take_Suc_conv_app_nth [OF deliver_step(3)] evolves_snoc del: apply_command.simps)
  with deliver_step assms(2) show ?thesis by (auto simp: in_step_def)
qed

lemma evolves_agree: "evolves cs h s \<Longrightarrow> evolves cs h s' \<Longrightarrow> same_hive s s'"
  by (simp add: evolves_def same_hive_def)

section \<open>Payloads\<close>

definition log_sourced :: "'j TaskPayload set \<Rightarrow> 'j cluster \<Rightarrow> bool" where
  "log_sourced P C \<longleftrightarrow> (\<forall>n. sourced P (cl_nodes C n)) \<and> (\<forall>c \<in> set (cl_log C) \<union> set (cl_limbo C). brought c \<subseteq> P)"

fun cluster_payloads :: "'j cluster_label \<Rightarrow> 'j TaskPayload set" where
  "cluster_payloads (At n (SubmitTask task out)) = {tk_payload task}"
| "cluster_payloads _ = {}"

lemma own_payloads: "\<not> is_remote l \<Longrightarrow> label_payloads l = cluster_payloads (At n l)"
  by (cases l) auto

lemma written_brought:
  assumes "daemon_step D l s s'" "written D l s = Some (c, out)" "label_payloads l \<subseteq> P" "sourced P s"
  shows "brought c \<subseteq> P"
  using assms by (cases rule: daemon_step.cases) (auto simp: sourced_def)

lemma step_log_sourced:
  assumes "cluster_step Ds L C C'" "cluster_payloads L \<subseteq> P" "\<And>n. {p. payload_ok (dm_policy (Ds n)) p} \<subseteq> P"
    and "log_sourced P C"
  shows "log_sourced P C'"
  using assms(1,2,4)
proof (cases rule: cluster_step.cases)
  case (local_step n l s')
  from step_sourced [OF local_step(3) _ assms(3)] assms(2,4) own_payloads [OF local_step(4), of n]
  have "sourced P s'" by (simp add: log_sourced_def local_step(1))
  with local_step assms(4) show ?thesis by (simp add: log_sourced_def)
next
  case (commit_step n l s' c out)
  have l: "label_payloads l \<subseteq> P"
    using assms(2) own_payloads [of l n] commit_step(4) by (cases l) (simp_all add: commit_step(1))
  have s: "sourced P (cl_nodes C n)" using assms(4) by (simp add: log_sourced_def)
  from step_sourced [OF commit_step(3) l assms(3) s] written_brought [OF commit_step(3,4) l s] commit_step assms(4)
  show ?thesis by (auto simp: log_sourced_def)
next
  case (refuse_step n l s' c)
  have l: "label_payloads l \<subseteq> P"
    using assms(2) own_payloads [of l n] refuse_step(4) by (cases l) (simp_all add: refuse_step(1))
  have s: "sourced P (cl_nodes C n)" using assms(4) by (simp add: log_sourced_def)
  from step_sourced [OF refuse_step(3) l assms(3) s] written_brought [OF refuse_step(3,4) l s] refuse_step assms(4)
  show ?thesis by (auto simp: log_sourced_def)
next
  case (forward_step n l s' c)
  have l: "label_payloads l \<subseteq> P"
    using assms(2) own_payloads [of l n] forward_step(4) by (cases l) (simp_all add: forward_step(1))
  have s: "sourced P (cl_nodes C n)" using assms(4) by (simp add: log_sourced_def)
  from step_sourced [OF forward_step(3) l assms(3) s] forward_step assms(4) show ?thesis
    by (auto simp: log_sourced_def)
next
  case (late_step c)
  with assms(4) show ?thesis by (auto simp: log_sourced_def)
next
  case (elect_step l)
  with assms(4) show ?thesis by (simp add: log_sourced_def)
next
  case (deliver_step n s')
  have "brought (cl_log C ! cl_applied C n) \<subseteq> P"
    using assms(4) deliver_step(3) by (auto simp: log_sourced_def)
  with step_sourced [OF deliver_step(4) _ assms(3)] assms(4) have "sourced P s'" by (simp add: log_sourced_def)
  with deliver_step assms(4) show ?thesis by (simp add: log_sourced_def)
qed


section \<open>How often a task runs in the cluster\<close>

text \<open>The commands of a log that make a task pending, and the node a task is pending on after a part of
  the log. Between two states of the log with equally many of them a task that is pending in the
  later has been so, for the same node, all the time.\<close>

definition openings :: "TaskId \<Rightarrow> 'j ClusterCommand list \<Rightarrow> nat" where
  "openings i cs = length (filter (makes_pending i) cs)"

definition pending_at :: "'j HiveState \<Rightarrow> TaskId \<Rightarrow> 'j ClusterCommand list \<Rightarrow> NodeId \<Rightarrow> bool" where
  "pending_at h i cs n \<longleftrightarrow> (\<exists>t. task_of (apply_log (map (Pair 0) cs) h) i = Some t
     \<and> tk_status t = Pending \<and> tk_target_node t = n)"

lemma openings_append [simp]: "openings i (cs @ ds) = openings i cs + openings i ds"
  by (simp add: openings_def)

lemma pending_before:
  assumes "task_of (apply_command now c s) i = Some t" "tk_status t = Pending" "\<not> makes_pending i c"
  shows "task_of s i = Some t"
  using assms by (cases c) (auto simp: task_of_apply makes_pending_def simp del: apply_command.simps split: if_splits)

lemma pending_at_back: "pending_at h i (cs @ ds) n \<Longrightarrow> openings i ds = 0 \<Longrightarrow> pending_at h i cs n"
proof (induction ds rule: rev_induct)
  case (snoc d ds)
  then have "pending_at h i (cs @ ds) n"
    using pending_before [of 0 d "apply_log (map (Pair 0) (cs @ ds)) h" i]
    by (auto simp: pending_at_def apply_log_append openings_def simp del: apply_command.simps split: if_splits)
  with snoc show ?case by simp
qed simp

lemma pending_at_one: "pending_at h i cs n \<Longrightarrow> pending_at h i cs m \<Longrightarrow> n = m"
  by (auto simp: pending_at_def)

lemma running_not_pending: "\<not> pending_at h i (cs @ [UpdateTaskStatus i Running r]) n"
  by (auto simp: pending_at_def apply_log_append task_of_apply simp del: apply_command.simps)

lemma take_split: "p \<le> q \<Longrightarrow> take q xs = take p xs @ drop p (take q xs)"
  by (metis append_take_drop_id min.absorb1 take_take)

lemma same_opening:
  assumes "pending_at h i (take q cs) m" "openings i (take p cs) = openings i (take q cs)" "p \<le> q"
  shows "pending_at h i (take p cs) m"
proof -
  have "openings i (drop p (take q cs)) = 0"
    using assms(2) take_split [OF assms(3), of cs] by (metis add_eq_self_zero openings_append)
  with pending_at_back assms(1) take_split [OF assms(3), of cs] show ?thesis by metis
qed

lemma same_opening_node:
  assumes "pending_at h i (take p cs) n" "pending_at h i (take q cs) m" "openings i (take p cs) = openings i (take q cs)"
  shows "n = m"
proof (cases "p \<le> q")
  case True
  with same_opening [OF assms(2,3)] assms(1) pending_at_one show ?thesis by metis
next
  case False
  with same_opening [OF assms(1) assms(3) [symmetric]] assms(2) pending_at_one show ?thesis by (metis nle_le)
qed

text \<open>The end of a process that carried the task out, on any node.\<close>

fun ends_task :: "TaskId \<Rightarrow> 'j cluster_label \<Rightarrow> bool" where
  "ends_task i (At n (EndProcess j)) \<longleftrightarrow> j = i"
| "ends_task i _ \<longleftrightarrow> False"

lemma ends_task_iff: "ends_task i L \<longleftrightarrow> (\<exists>n. L = At n (EndProcess i))"
  by (cases "(i, L)" rule: ends_task.cases) auto

text \<open>Every run of the task is charged to the command that made it pending, named by its number: the
  node that runs it has picked it after that command and before the next, and has since committed
  that it is running. A node that holds the task has picked it after one that is not charged yet.\<close>

definition picked :: "'j HiveState \<Rightarrow> TaskId \<Rightarrow> nat set \<Rightarrow> 'j cluster \<Rightarrow> NodeId \<Rightarrow> bool" where
  "picked h i T C n \<longleftrightarrow> (\<exists>p \<le> cl_applied C n. pending_at h i (take p (cl_log C)) n \<and> openings i (take p (cl_log C)) \<notin> T)"

definition begun :: "'j HiveState \<Rightarrow> TaskId \<Rightarrow> 'j cluster \<Rightarrow> NodeId \<Rightarrow> nat \<Rightarrow> bool" where
  "begun h i C n e \<longleftrightarrow> (\<exists>p r. p \<le> r \<and> r < cl_applied C n \<and> pending_at h i (take p (cl_log C)) n
     \<and> openings i (take p (cl_log C)) = e \<and> cl_log C ! r = UpdateTaskStatus i Running None)"

definition accounts :: "'j HiveState \<Rightarrow> TaskId \<Rightarrow> nat set \<Rightarrow> 'j cluster \<Rightarrow> bool" where
  "accounts h i T C \<longleftrightarrow> finite T \<and> (\<forall>e \<in> T. \<exists>n. begun h i C n e)
     \<and> (\<forall>n. i \<in> tk_id ` set (runner_waiting (ds_runner (cl_nodes C n))) \<longrightarrow> picked h i T C n)
     \<and> (\<forall>n. has_started i (ds_runner (cl_nodes C n)) \<longrightarrow> (\<exists>e. e \<notin> T \<and> begun h i C n e))"

definition tidy :: "'j daemon_state \<Rightarrow> bool" where
  "tidy s \<longleftrightarrow> hive_wf (ds_hive s) \<and> distinct (map tk_id (runner_queue (ds_runner s)))"

lemma step_tidy: "daemon_step D l s s' \<Longrightarrow> tidy s \<Longrightarrow> tidy s'"
  by (cases rule: daemon_step.cases)
    (auto simp: tidy_def my_pending_distinct hive_wf_write hive_wf_apply simp del: apply_command.simps)

text \<open>What a step makes of the tasks a runner holds.\<close>

lemma waiting_step:
  assumes "daemon_step D l s s'" "i \<in> tk_id ` set (runner_waiting (ds_runner s'))" "tidy s"
  shows "i \<in> tk_id ` set (runner_waiting (ds_runner s))
    \<or> l = RunnerTick \<and> (\<exists>t. task_of (ds_hive s) i = Some t \<and> tk_status t = Pending \<and> tk_target_node t = dm_node D)"
  using assms
proof (cases rule: daemon_step.cases)
  case (runner_tick lead u)
  with assms(2,3) my_pending_status [of "ds_hive s" _ "dm_node D" lead u] show ?thesis by (auto simp: tidy_def)
qed (auto split: if_splits)

lemma started_step:
  assumes "daemon_step D l s s'" "has_started i (ds_runner s')"
  shows "has_started i (ds_runner s) \<or> l = StartTask i Committed \<and> i \<in> tk_id ` set (runner_waiting (ds_runner s))"
  using assms by (cases rule: daemon_step.cases) (auto split: if_splits)

lemma ended_step:
  assumes "daemon_step D (EndProcess i) s s'" "tidy s"
  shows "has_started i (ds_runner s)" "\<not> has_started i (ds_runner s')"
    "i \<notin> tk_id ` set (runner_waiting (ds_runner s'))"
  using assms by (auto elim!: daemon_step.cases simp: tidy_def, metis imageI)

text \<open>What has happened stays so.\<close>

lemma begun_later:
  assumes "begun h i C n e" "cl_log C' = cl_log C @ cs" "cl_applied C n \<le> cl_applied C' n" "cl_applied C n \<le> length (cl_log C)"
  shows "begun h i C' n e"
proof -
  obtain p r where p: "p \<le> r" "r < cl_applied C n" "pending_at h i (take p (cl_log C)) n"
    "openings i (take p (cl_log C)) = e" "cl_log C ! r = UpdateTaskStatus i Running None"
    using assms(1) by (auto simp: begun_def)
  then have "take p (cl_log C') = take p (cl_log C)" "cl_log C' ! r = cl_log C ! r"
    using assms(2,4) by (auto simp: nth_append)
  with p assms(3) show ?thesis unfolding begun_def by (metis order.strict_trans2)
qed

lemma picked_later:
  assumes "picked h i T C n" "cl_log C' = cl_log C @ cs" "cl_applied C n \<le> cl_applied C' n" "cl_applied C n \<le> length (cl_log C)"
  shows "picked h i T C' n"
proof -
  obtain p where p: "p \<le> cl_applied C n" "pending_at h i (take p (cl_log C)) n" "openings i (take p (cl_log C)) \<notin> T"
    using assms(1) by (auto simp: picked_def)
  then have "take p (cl_log C') = take p (cl_log C)" using assms(2,4) by simp
  with p assms(3) show ?thesis unfolding picked_def by (metis order_trans)
qed

text \<open>Two nodes are never charged to the same command, and a command that is charged is past: no node
  picks the task on its account again.\<close>

lemma begun_node: "begun h i C n e \<Longrightarrow> begun h i C m e \<Longrightarrow> n = m"
  unfolding begun_def using same_opening_node by metis

lemma charged_past:
  assumes "begun h i C m (openings i (take q (cl_log C)))" "pending_at h i (take q (cl_log C)) n" "q = cl_applied C n"
    and "\<And>n. cl_applied C n \<le> length (cl_log C)"
  shows False
proof -
  obtain p r where p: "p \<le> r" "r < cl_applied C m" "pending_at h i (take p (cl_log C)) m"
    "openings i (take p (cl_log C)) = openings i (take q (cl_log C))" "cl_log C ! r = UpdateTaskStatus i Running None"
    using assms(1) by (auto simp: begun_def)
  have "m = n" by (rule same_opening_node [OF p(3) assms(2) p(4)])
  with p(2) assms(3) have r: "r < q" by simp
  have le: "openings i (take p (cl_log C)) \<le> openings i (take (Suc r) (cl_log C))"
    "openings i (take (Suc r) (cl_log C)) \<le> openings i (take q (cl_log C))"
    using take_split [of p "Suc r" "cl_log C"] take_split [of "Suc r" q "cl_log C"] p(1) r
    by (metis le_SucI le_add1 openings_append, metis Suc_leI le_add1 openings_append)
  with p(4) have "openings i (take (Suc r) (cl_log C)) = openings i (take q (cl_log C))" by simp
  from same_opening [OF assms(2) this] r have "pending_at h i (take (Suc r) (cl_log C)) n" by simp
  moreover have "r < length (cl_log C)" using p(2) assms(4) [of m] by simp
  then have "take (Suc r) (cl_log C) = take r (cl_log C) @ [UpdateTaskStatus i Running None]"
    by (simp add: take_Suc_conv_app_nth p(5))
  ultimately show False using running_not_pending by metis
qed

lemma pending_at_hive:
  assumes "in_step h C"
  shows "pending_at h i (take (cl_applied C n) (cl_log C)) m \<longleftrightarrow>
    (\<exists>t. task_of (ds_hive (cl_nodes C n)) i = Some t \<and> tk_status t = Pending \<and> tk_target_node t = m)"
proof -
  have "evolves (take (cl_applied C n) (cl_log C)) h (ds_hive (cl_nodes C n))" using assms by (simp add: in_step_def)
  from evolves_same [OF this] show ?thesis by (simp add: pending_at_def same_hive_lookups)
qed

text \<open>The effect of a step of the cluster on the log, on how far the nodes are and on the nodes.\<close>

lemma step_frame:
  assumes "cluster_step Ds L C C'"
  obtains (other) "cl_nodes C' = cl_nodes C" "cl_applied C' = cl_applied C" "\<exists>cs. cl_log C' = cl_log C @ cs"
    "\<And>i. \<not> ends_task i L"
  | (node) n l s' where "daemon_step (Ds n) l (cl_nodes C n) s'" "cl_nodes C' = (cl_nodes C)(n := s')"
    "\<And>i. ends_task i L \<Longrightarrow> L = At n l" "\<And>m i. L = At m (EndProcess i) \<Longrightarrow> m = n \<and> l = EndProcess i"
    "\<exists>cs. cl_log C' = cl_log C @ cs" "\<And>m. cl_applied C m \<le> cl_applied C' m"
    "l = RunnerTick \<Longrightarrow> C' = C\<lparr>cl_nodes := (cl_nodes C)(n := s')\<rparr>"
    "\<And>i. l = StartTask i Committed \<Longrightarrow> L = At n l \<and> cl_log C' = cl_log C @ [UpdateTaskStatus i Running None]
        \<and> cl_applied C n = length (cl_log C) \<and> cl_applied C' n = Suc (cl_applied C n)"
  using assms
proof (cases rule: cluster_step.cases)
  case (local_step n l s')
  then show thesis by (intro node [of n l s']) (auto simp: ends_task_iff)
next
  case (commit_step n l s' c out)
  then show thesis by (intro node [of n l s']) (auto simp: ends_task_iff)
next
  case (refuse_step n l s' c)
  then show thesis by (intro node [of n l s']) (auto simp: ends_task_iff)
next
  case (forward_step n l s' c)
  then show thesis by (intro node [of n l s']) (auto simp: ends_task_iff)
next
  case (late_step c)
  then show thesis by (intro other) auto
next
  case (deliver_step n s')
  then show thesis by (intro node [of n "Remote (cl_log C ! cl_applied C n)" s']) (auto simp: ends_task_iff)
next
  case (elect_step l)
  then show thesis by (intro other) auto
qed

lemma step_accounts:
  assumes "cluster_step Ds L C C'" "in_step h C" "\<And>n. tidy (cl_nodes C n)" "\<And>n. dm_node (Ds n) = n"
    and "accounts h i T C"
  shows "\<exists>T'. accounts h i T' C' \<and> card T' = card T + (if ends_task i L then 1 else 0)
    \<and> (\<forall>n. L = At n (EndProcess i) \<longrightarrow> (\<exists>e. begun h i C' n e))"
  using assms(1)
proof (cases rule: step_frame)
  case other
  have le: "cl_applied C n \<le> length (cl_log C)" for n using assms(2) by (simp add: in_step_def)
  obtain cs where cs: "cl_log C' = cl_log C @ cs" using other(3) by blast
  have "accounts h i T C'"
    using assms(5) begun_later [OF _ cs _ le] picked_later [OF _ cs _ le] unfolding accounts_def other(1,2)
    by (metis order_refl)
  with other(4) [of i] show ?thesis by (metis add.right_neutral ends_task_iff)
next
  case (node n l s')
  have le: "cl_applied C m \<le> length (cl_log C)" for m using assms(2) by (simp add: in_step_def)
  obtain cs where cs: "cl_log C' = cl_log C @ cs" using node(5) by blast
  note later = begun_later [OF _ cs node(6) le] picked_later [OF _ cs node(6) le]
  have spent: "\<forall>e \<in> T. \<exists>m. begun h i C' m e" using assms(5) later(1) unfolding accounts_def by metis
  have fin: "finite T" using assms(5) by (simp add: accounts_def)
  have waits: "picked h i T C' m" if "i \<in> tk_id ` set (runner_waiting (ds_runner (cl_nodes C' m)))" for m
  proof (cases "i \<in> tk_id ` set (runner_waiting (ds_runner (cl_nodes C m)))")
    case True
    then show ?thesis using assms(5) later(2) unfolding accounts_def by blast
  next
    case False
    with that node(2) have m: "m = n" by (auto split: if_splits)
    with waiting_step [OF node(1) _ assms(3)] that False node(2) have tick: "l = RunnerTick"
      "\<exists>t. task_of (ds_hive (cl_nodes C n)) i = Some t \<and> tk_status t = Pending \<and> tk_target_node t = n"
      using assms(4) by auto
    then have at: "pending_at h i (take (cl_applied C n) (cl_log C)) n" using pending_at_hive [OF assms(2)] by simp
    have "openings i (take (cl_applied C n) (cl_log C)) \<notin> T"
      using charged_past [OF _ at refl le] assms(5) unfolding accounts_def by blast
    with at have "picked h i T C n" unfolding picked_def by blast
    with later(2) m show ?thesis by simp
  qed
  have starts: "\<exists>e. e \<notin> T \<and> begun h i C' m e" if "has_started i (ds_runner (cl_nodes C' m))" for m
  proof (cases "has_started i (ds_runner (cl_nodes C m))")
    case True
    then show ?thesis using assms(5) later(1) unfolding accounts_def by blast
  next
    case False
    with that node(2) have m: "m = n" by (auto split: if_splits)
    with started_step [OF node(1)] that False node(2) have start: "l = StartTask i Committed"
      "i \<in> tk_id ` set (runner_waiting (ds_runner (cl_nodes C n)))" by auto
    then obtain p where p: "p \<le> cl_applied C n" "pending_at h i (take p (cl_log C)) n" "openings i (take p (cl_log C)) \<notin> T"
      using assms(5) unfolding accounts_def picked_def by blast
    note w = node(8) [OF start(1)]
    have "begun h i C' n (openings i (take p (cl_log C)))"
      unfolding begun_def using p w by (intro exI [of _ p] exI [of _ "cl_applied C n"]) (auto simp: nth_append)
    with p(3) m show ?thesis by blast
  qed
  show ?thesis
  proof (cases "ends_task i L")
    case False
    have "accounts h i T C'" using fin spent waits starts unfolding accounts_def by blast
    with False show ?thesis by (intro exI [of _ T]) (auto simp: ends_task_iff)
  next
    case True
    then have l: "l = EndProcess i" "L = At n l" using node(3,4) by (auto simp: ends_task_iff)
    note ended = ended_step [OF node(1) [unfolded l] assms(3)]
    obtain e where e: "e \<notin> T" "begun h i C n e" using assms(5) ended(1) unfolding accounts_def by blast
    have n: "cl_nodes C' n = s'" using node(2) by simp
    have own: "i \<notin> tk_id ` set (runner_waiting (ds_runner (cl_nodes C' n)))" "\<not> has_started i (ds_runner (cl_nodes C' n))"
      unfolding n by (rule ended(3), rule ended(2))
    have e': "begun h i C' n e" by (rule later(1) [OF e(2)])
    have "picked h i (insert e T) C' m" if "i \<in> tk_id ` set (runner_waiting (ds_runner (cl_nodes C' m)))" for m
    proof -
      have "m \<noteq> n" using that own(1) by blast
      have "picked h i T C' m" by (rule waits [OF that])
      then obtain p where p: "p \<le> cl_applied C' m" "pending_at h i (take p (cl_log C')) m" "openings i (take p (cl_log C')) \<notin> T"
        by (auto simp: picked_def)
      moreover have "openings i (take p (cl_log C')) \<noteq> e"
        using e' p(2) same_opening_node \<open>m \<noteq> n\<close> unfolding begun_def by metis
      ultimately show ?thesis unfolding picked_def by blast
    qed
    moreover have "\<exists>d. d \<notin> insert e T \<and> begun h i C' m d" if "has_started i (ds_runner (cl_nodes C' m))" for m
    proof -
      have "m \<noteq> n" using that own(2) by blast
      have "\<exists>d. d \<notin> T \<and> begun h i C' m d" by (rule starts [OF that])
      then obtain d where d: "d \<notin> T" "begun h i C' m d" by blast
      then have "d \<noteq> e" using begun_node e' \<open>m \<noteq> n\<close> by blast
      with d show ?thesis by blast
    qed
    moreover have "\<forall>d \<in> insert e T. \<exists>m. begun h i C' m d" using spent e' by blast
    ultimately have "accounts h i (insert e T) C'" using fin unfolding accounts_def by blast
    with True fin e(1) e' l show ?thesis by (intro exI [of _ "insert e T"]) auto
  qed
qed

lemma tidy_cluster: "cluster_step Ds L C C' \<Longrightarrow> (\<And>n. tidy (cl_nodes C n)) \<Longrightarrow> tidy (cl_nodes C' n)"
  by (cases rule: step_frame) (auto dest: step_tidy)

lemma run_accounts:
  assumes "cluster_run Ds Ls C C'" "\<And>n. dm_node (Ds n) = n"
    and "in_step h C" "\<And>n. tidy (cl_nodes C n)" "accounts h i T C"
  shows "\<exists>T'. accounts h i T' C' \<and> card T' = card T + length (filter (ends_task i) Ls) \<and> in_step h C'
    \<and> (\<forall>n. At n (EndProcess i) \<in> set Ls \<longrightarrow> (\<exists>e. begun h i C' n e))"
  using assms(1,3-)
proof (induction arbitrary: T rule: cluster_run.induct)
  case (cluster_nil C)
  then show ?case by auto
next
  case (cluster_cons L C C' Ls C'')
  note le = cluster_cons.prems(1) [unfolded in_step_def, rule_format, THEN conjunct1]
  obtain T1 where T1: "accounts h i T1 C'" "card T1 = card T + (if ends_task i L then 1 else 0)"
    "\<forall>n. L = At n (EndProcess i) \<longrightarrow> (\<exists>e. begun h i C' n e)"
    using step_accounts [OF cluster_cons.hyps(1) cluster_cons.prems(1,2) assms(2) cluster_cons.prems(3)] by blast
  have in1: "in_step h C'" by (rule step_in_step [OF cluster_cons.hyps(1) cluster_cons.prems(1)])
  obtain T2 where T2: "accounts h i T2 C''" "card T2 = card T1 + length (filter (ends_task i) Ls)" "in_step h C''"
    "\<forall>n. At n (EndProcess i) \<in> set Ls \<longrightarrow> (\<exists>e. begun h i C'' n e)"
    using cluster_cons.IH [OF in1 tidy_cluster [OF cluster_cons.hyps(1) cluster_cons.prems(2)] T1(1)] by blast
  obtain cs where cs: "cl_log C'' = cl_log C' @ cs" using run_log [OF cluster_cons.hyps(2)] by blast
  have "begun h i C'' n e" if "begun h i C' n e" for n e
    using begun_later [OF that cs] run_applied [OF cluster_cons.hyps(2)] in1 by (simp add: in_step_def)
  then have "\<exists>e. begun h i C'' n e" if "At n (EndProcess i) \<in> set (L # Ls)" for n
    using that T1(3) T2(4) by (metis set_ConsD)
  with T1 T2 show ?case by (intro exI [of _ T2]) auto
qed

text \<open>The bound: one run for every command of the log that makes the task pending, and one more when it
  is pending at the start.\<close>

lemma cluster_runs_bounded:
  assumes "cluster_run Ds Ls (cluster_initial h) C" "hive_wf h" "\<And>n. dm_node (Ds n) = n"
  shows "length (filter (ends_task i) Ls) \<le> openings i (cl_log C) + (if not_pending i h then 0 else 1)"
    and "At n (EndProcess i) \<in> set Ls \<Longrightarrow> \<exists>k \<le> length (cl_log C). pending_at h i (take k (cl_log C)) n"
proof -
  have start: "in_step h (cluster_initial h)" "tidy (cl_nodes (cluster_initial h) m)" "accounts h i {} (cluster_initial h)" for m
    using assms(2) by (simp_all add: in_step_def tidy_def accounts_def cluster_initial_def daemon_initial_def)
  obtain T where T: "accounts h i T C" "card T = length (filter (ends_task i) Ls)" "in_step h C"
    "\<forall>n. At n (EndProcess i) \<in> set Ls \<longrightarrow> (\<exists>e. begun h i C n e)"
    using run_accounts [OF assms(1,3) start] by auto
  have le: "cl_applied C m \<le> length (cl_log C)" for m using T(3) by (simp add: in_step_def)
  have "T \<subseteq> (if not_pending i h then {1..openings i (cl_log C)} else {0..openings i (cl_log C)})"
  proof
    fix e
    assume "e \<in> T"
    then obtain m p where p: "pending_at h i (take p (cl_log C)) m" "openings i (take p (cl_log C)) = e"
      using T(1) unfolding accounts_def begun_def by metis
    have "e \<le> openings i (cl_log C)"
      using p(2) openings_append [of i "take p (cl_log C)" "drop p (cl_log C)"] by simp
    moreover have "e \<noteq> 0" if "not_pending i h"
    proof
      assume "e = 0"
      with pending_at_back [of h i "[]" "take p (cl_log C)" m] p have "pending_at h i [] m" by simp
      with that show False by (auto simp: pending_at_def not_pending_def)
    qed
    ultimately show "e \<in> (if not_pending i h then {1..openings i (cl_log C)} else {0..openings i (cl_log C)})"
      by (cases "not_pending i h") (auto simp: Suc_le_eq)
  qed
  then have "card T \<le> card (if not_pending i h then {1..openings i (cl_log C)} else {0..openings i (cl_log C)})"
    by (intro card_mono) simp_all
  with T(2) show "length (filter (ends_task i) Ls) \<le> openings i (cl_log C) + (if not_pending i h then 0 else 1)"
    by (simp split: if_splits)
  assume "At n (EndProcess i) \<in> set Ls"
  then obtain p r where "p \<le> r" "r < cl_applied C n" "pending_at h i (take p (cl_log C)) n"
    using T(4) unfolding begun_def by metis
  with le [of n] show "\<exists>k \<le> length (cl_log C). pending_at h i (take k (cl_log C)) n"
    by (intro exI [of _ p]) simp
qed

text \<open>No command removes a task.\<close>

definition has_task :: "TaskId \<Rightarrow> 'j HiveState \<Rightarrow> bool" where
  "has_task i h \<longleftrightarrow> task_of h i \<noteq> None"

lemma apply_keeps_task: "has_task i h \<Longrightarrow> has_task i (apply_command now c h)"
  by (cases c) (auto simp: has_task_def task_of_apply simp del: apply_command.simps)

lemma write_keeps_task: "has_task i h \<Longrightarrow> has_task i (settle_write out now c h)"
  by (cases out) (auto simp: apply_keeps_task simp del: apply_command.simps)

lemma daemon_keeps_task: "daemon_step D l s s' \<Longrightarrow> has_task i (ds_hive s) \<Longrightarrow> has_task i (ds_hive s')"
  by (cases rule: daemon_step.cases) (auto simp: apply_keeps_task write_keeps_task simp del: apply_command.simps)

lemma step_keeps_task:
  "cluster_step Ds L C C' \<Longrightarrow> has_task i (ds_hive (cl_nodes C n)) \<Longrightarrow> has_task i (ds_hive (cl_nodes C' n))"
  by (cases rule: cluster_step.cases) (auto dest: daemon_keeps_task)

section \<open>What the cluster can do\<close>

text \<open>The leader, when it is up to date, can make every step of its machine whose writes are committed,
  and every node can always catch up with the log.\<close>

fun not_refused :: "'j daemon_label \<Rightarrow> bool" where
  "not_refused (StartTask i out) \<longleftrightarrow> out \<noteq> Refused"
| "not_refused (ReportTask i out) \<longleftrightarrow> out \<noteq> Refused"
| "not_refused (PlannerWrite c out) \<longleftrightarrow> out \<noteq> Refused"
| "not_refused (Heartbeat out) \<longleftrightarrow> out \<noteq> Refused"
| "not_refused (SubmitTask task out) \<longleftrightarrow> out \<noteq> Refused"
| "not_refused (SubmitGoal goal out) \<longleftrightarrow> out \<noteq> Refused"
| "not_refused (Remote c) \<longleftrightarrow> False"
| "not_refused _ \<longleftrightarrow> True"

lemma not_refused_written:
  "not_refused l \<Longrightarrow> \<not> is_remote l \<and> (\<forall>c out. written D l s = Some (c, out) \<longrightarrow> out \<noteq> Refused)"
  by (cases l) (auto split: runner_pc.splits)

lemma step_lifts:
  assumes "daemon_step (Ds n) l (cl_nodes C n) s'" "not_refused l" "cl_applied C n = length (cl_log C)" "cl_leader C = Some n"
  shows "\<exists>C'. cluster_step Ds (At n l) C C' \<and> cl_nodes C' = (cl_nodes C)(n := s') \<and> cl_applied C' n = length (cl_log C')
    \<and> cl_leader C' = Some n \<and> (\<forall>m. m \<noteq> n \<longrightarrow> cl_applied C' m = cl_applied C m)"
proof (cases "written (Ds n) l (cl_nodes C n)")
  case None
  with cluster_step.local_step [where Ds = Ds and n = n and l = l and C = C, OF assms(1)]
    not_refused_written [OF assms(2)] assms(3,4)
  show ?thesis by fastforce
next
  case (Some w)
  obtain c out where w: "w = (c, out)" by fastforce
  with Some not_refused_written [OF assms(2)] have "out \<noteq> Refused" by blast
  with cluster_step.commit_step [where Ds = Ds and n = n and l = l and C = C, OF assms(1) Some [unfolded w] _ assms(4,3)]
    assms(3,4)
  show ?thesis by fastforce
qed

lemma run_lifts:
  assumes "daemon_run (Ds n) ls s s'" "cl_nodes C n = s" "list_all not_refused ls" "cl_applied C n = length (cl_log C)"
    and "cl_leader C = Some n"
  shows "\<exists>C'. cluster_run Ds (map (At n) ls) C C' \<and> cl_nodes C' = (cl_nodes C)(n := s') \<and> cl_applied C' n = length (cl_log C')
    \<and> cl_leader C' = Some n \<and> (\<forall>m. m \<noteq> n \<longrightarrow> cl_applied C' m = cl_applied C m)"
  using assms
proof (induction arbitrary: C rule: daemon_run.induct)
  case (run_nil s)
  then show ?case by (intro exI [of _ C]) auto
next
  case (run_cons l s u ls s')
  obtain B where B: "cluster_step Ds (At n l) C B" "cl_nodes B = (cl_nodes C)(n := u)" "cl_applied B n = length (cl_log B)"
    "cl_leader B = Some n" "\<forall>m. m \<noteq> n \<longrightarrow> cl_applied B m = cl_applied C m"
    using step_lifts [of Ds n l C u] run_cons by auto
  from run_cons.IH [of B] B run_cons.prems
  obtain C' where "cluster_run Ds (map (At n) ls) B C'" "cl_nodes C' = (cl_nodes C)(n := s')" "cl_applied C' n = length (cl_log C')"
    "cl_leader C' = Some n" "\<forall>m. m \<noteq> n \<longrightarrow> cl_applied C' m = cl_applied C m" by (fastforce simp: fun_upd_def)
  with B show ?case by (intro exI [of _ C']) (auto intro: cluster_cons)
qed

lemma catch_up:
  assumes "cl_applied C n \<le> length (cl_log C)"
  shows "\<exists>Ls C'. cluster_run Ds Ls C C' \<and> set Ls \<subseteq> {Deliver n} \<and> cl_log C' = cl_log C \<and> cl_applied C' n = length (cl_log C)
    \<and> cl_leader C' = cl_leader C
    \<and> ds_runner (cl_nodes C' n) = ds_runner (cl_nodes C n) \<and> (\<forall>m. m \<noteq> n \<longrightarrow> cl_nodes C' m = cl_nodes C m)"
  using assms
proof (induction "length (cl_log C) - cl_applied C n" arbitrary: C)
  case 0
  then show ?case by (intro exI [of _ "[]"] exI [of _ C]) auto
next
  case (Suc k)
  let ?c = "cl_log C ! cl_applied C n"
  let ?s = "(cl_nodes C n)\<lparr>ds_hive := apply_command 0 ?c (ds_hive (cl_nodes C n))\<rparr>"
  let ?B = "C\<lparr>cl_nodes := (cl_nodes C)(n := ?s), cl_applied := (cl_applied C)(n := Suc (cl_applied C n))\<rparr>"
  have less: "cl_applied C n < length (cl_log C)" using Suc.hyps(2) by simp
  have step: "cluster_step Ds (Deliver n) C ?B"
    by (rule cluster_step.deliver_step [OF less daemon_step.remote])
  have "k = length (cl_log ?B) - cl_applied ?B n" "cl_applied ?B n \<le> length (cl_log ?B)" using Suc.hyps(2) less by simp_all
  from Suc.hyps(1) [OF this] obtain Ls C' where run: "cluster_run Ds Ls ?B C'" and "set Ls \<subseteq> {Deliver n}" "cl_log C' = cl_log C"
    "cl_applied C' n = length (cl_log C)" "cl_leader C' = cl_leader C" "ds_runner (cl_nodes C' n) = ds_runner (cl_nodes C n)"
    "\<forall>m. m \<noteq> n \<longrightarrow> cl_nodes C' m = cl_nodes C m" by auto
  with cluster_cons [OF step run] show ?case by (intro exI [of _ "Deliver n # Ls"] exI [of _ C']) auto
qed

section \<open>Bringing a task to its end\<close>

fun commits :: "'j daemon_label \<Rightarrow> bool" where
  "commits RunnerTick \<longleftrightarrow> True"
| "commits RunnerEnd \<longleftrightarrow> True"
| "commits (StartTask i out) \<longleftrightarrow> out = Committed"
| "commits (EndProcess i) \<longleftrightarrow> True"
| "commits (ReportTask i out) \<longleftrightarrow> out = Committed"
| "commits _ \<longleftrightarrow> False"

lemma commits_not_refused: "commits l \<Longrightarrow> not_refused l"
  by (cases l) auto

text \<open>A task has come to its end when its status and result are the outcome of a process of it that \<open>Y\<close>
  accounts for. A runner fits \<open>X\<close> and \<open>Y\<close> when they account for all it holds.\<close>

definition finished :: "('j Task \<Rightarrow> runner_error + 'j \<Rightarrow> bool) \<Rightarrow> TaskId \<Rightarrow> 'j daemon_state \<Rightarrow> bool" where
  "finished Y i s \<longleftrightarrow> (\<exists>t x r. task_of (ds_hive s) i = Some t \<and> tk_id x = i \<and> Y x r
     \<and> (tk_status t, tk_result t) = task_outcome r)"

fun fits :: "('j Task \<Rightarrow> bool) \<Rightarrow> ('j Task \<Rightarrow> runner_error + 'j \<Rightarrow> bool) \<Rightarrow> 'j runner_pc \<Rightarrow> bool" where
  "fits X Y RunnerIdle \<longleftrightarrow> True"
| "fits X Y (RunnerReady ts) \<longleftrightarrow> (\<forall>x \<in> set ts. X x)"
| "fits X Y (RunnerStarted task ts) \<longleftrightarrow> X task \<and> (\<forall>x \<in> set ts. X x)"
| "fits X Y (RunnerEnded task r ts) \<longleftrightarrow> Y task r \<and> (\<forall>x \<in> set ts. X x)"

definition process_of :: "'j daemon_setup \<Rightarrow> unit os_api \<Rightarrow> 'j Task \<Rightarrow> runner_error + 'j" where
  "process_of D S x = fst (run_payload (dm_json D) S runner_new (tk_payload x) ())"

definition own_run :: "'j daemon_setup \<Rightarrow> 'j daemon_state \<Rightarrow> 'j daemon_state \<Rightarrow> bool" where
  "own_run D s s' \<longleftrightarrow> (\<exists>ls. daemon_run D ls s s' \<and> list_all commits ls)"

lemma own_run_refl: "own_run D s s"
  unfolding own_run_def by (rule exI [of _ "[]"]) simp

lemma own_run_step: "daemon_step D l s u \<Longrightarrow> commits l \<Longrightarrow> own_run D u s' \<Longrightarrow> own_run D s s'"
  unfolding own_run_def by (metis list.pred_inject(2) run_cons)

lemma own_run_trans: "own_run D s u \<Longrightarrow> own_run D u s' \<Longrightarrow> own_run D s s'"
  unfolding own_run_def using daemon_run_append by (metis list_all_append)

text \<open>One step of a runner that is not idle: the next task starts, ends its process or is reported, or
  the pass is over.\<close>

lemma own_move:
  assumes "ds_runner s \<noteq> RunnerIdle" "has_task i (ds_hive s)" "fits X Y (ds_runner s)" "\<And>x. X x \<Longrightarrow> Y x (process_of D S x)"
  shows "\<exists>l u. daemon_step D l s u \<and> commits l \<and> fits X Y (ds_runner u) \<and> has_task i (ds_hive u) \<and> runner_work (ds_runner u) < runner_work (ds_runner s)
    \<and> (i \<in> tk_id ` set (runner_queue (ds_runner s)) \<longrightarrow> i \<in> tk_id ` set (runner_queue (ds_runner u)) \<or> finished Y i u)
    \<and> (i \<notin> tk_id ` set (runner_queue (ds_runner s)) \<longrightarrow>
        i \<notin> tk_id ` set (runner_queue (ds_runner u)) \<and> task_of (ds_hive u) i = task_of (ds_hive s) i)"
proof (cases "ds_runner s")
  case (RunnerReady ts)
  show ?thesis
  proof (cases ts)
    case Nil
    with RunnerReady daemon_step.runner_end [of s D] assms(2,3) show ?thesis
      by (intro exI [of _ RunnerEnd] exI [of _ "s\<lparr>ds_runner := RunnerIdle\<rparr>"]) simp
  next
    case (Cons task ts')
    let ?u = "s\<lparr>ds_hive := settle_write Committed 0 (UpdateTaskStatus (tk_id task) Running None) (ds_hive s),
      ds_runner := RunnerStarted task ts'\<rparr>"
    have "daemon_step D (StartTask (tk_id task) Committed) s ?u"
      using daemon_step.start_task [OF RunnerReady [unfolded Cons], of D Committed 0] by simp
    with RunnerReady Cons assms(2,3) show ?thesis
      by (intro exI [of _ "StartTask (tk_id task) Committed"] exI [of _ ?u])
        (auto simp: apply_keeps_task task_of_apply simp del: apply_command.simps)
  qed
next
  case (RunnerStarted task ts)
  from daemon_step.end_process [OF this refl, of D S]
  have "daemon_step D (EndProcess (tk_id task)) s (s\<lparr>ds_runner := RunnerEnded task (process_of D S task) ts\<rparr>)"
    by (simp add: process_of_def)
  with RunnerStarted assms(2-4) show ?thesis
    by (intro exI [of _ "EndProcess (tk_id task)"] exI [of _ "s\<lparr>ds_runner := RunnerEnded task (process_of D S task) ts\<rparr>"]) simp
next
  case (RunnerEnded task r ts)
  let ?u = "s\<lparr>ds_hive := settle_write Committed 0 (UpdateTaskStatus (tk_id task) (fst (task_outcome r)) (snd (task_outcome r))) (ds_hive s),
    ds_runner := RunnerReady ts\<rparr>"
  have "daemon_step D (ReportTask (tk_id task) Committed) s ?u"
    by (rule daemon_step.report_task [OF RunnerEnded])
  moreover have "finished Y i ?u" if "i = tk_id task"
    using assms(2,3) that RunnerEnded
    by (auto simp: finished_def has_task_def task_of_apply simp del: apply_command.simps) (metis prod.collapse)
  ultimately show ?thesis using RunnerEnded assms(2,3)
    by (intro exI [of _ "ReportTask (tk_id task) Committed"] exI [of _ ?u])
      (auto simp: apply_keeps_task task_of_apply simp del: apply_command.simps)
qed (use assms(1) in simp)

lemma queued_task_finishes:
  assumes "\<And>x. X x \<Longrightarrow> Y x (process_of D S x)"
    and "i \<in> tk_id ` set (runner_queue (ds_runner s))" "has_task i (ds_hive s)" "fits X Y (ds_runner s)"
  shows "\<exists>u. own_run D s u \<and> finished Y i u"
  using assms(2-)
proof (induction "runner_work (ds_runner s)" arbitrary: s rule: less_induct)
  case less
  then have "ds_runner s \<noteq> RunnerIdle" by auto
  from own_move [OF this less.prems(2,3) assms(1)] less.prems(1) obtain l u where
    u: "daemon_step D l s u" "commits l" "fits X Y (ds_runner u)" "has_task i (ds_hive u)"
      "runner_work (ds_runner u) < runner_work (ds_runner s)"
      "i \<in> tk_id ` set (runner_queue (ds_runner u)) \<or> finished Y i u" by blast
  show ?case
  proof (cases "finished Y i u")
    case True
    with own_run_step [OF u(1,2) own_run_refl] show ?thesis by blast
  next
    case False
    with less.hyps [OF u(5) _ u(4,3)] u(6) own_run_step [OF u(1,2)] show ?thesis by blast
  qed
qed

lemma runner_drains:
  assumes "\<And>x. X x \<Longrightarrow> Y x (process_of D S x)"
    and "i \<notin> tk_id ` set (runner_queue (ds_runner s))" "has_task i (ds_hive s)" "fits X Y (ds_runner s)"
  shows "\<exists>u. own_run D s u \<and> ds_runner u = RunnerIdle \<and> task_of (ds_hive u) i = task_of (ds_hive s) i"
  using assms(2-)
proof (induction "runner_work (ds_runner s)" arbitrary: s rule: less_induct)
  case less
  show ?case
  proof (cases "ds_runner s = RunnerIdle")
    case True
    with own_run_refl show ?thesis by blast
  next
    case False
    from own_move [OF this less.prems(2,3) assms(1)] less.prems(1) obtain l u where
      u: "daemon_step D l s u" "commits l" "fits X Y (ds_runner u)" "has_task i (ds_hive u)"
        "runner_work (ds_runner u) < runner_work (ds_runner s)"
        "i \<notin> tk_id ` set (runner_queue (ds_runner u))" "task_of (ds_hive u) i = task_of (ds_hive s) i" by blast
    from less.hyps [OF u(5,6,4,3)] u(7) own_run_step [OF u(1,2)] show ?thesis by metis
  qed
qed

lemma run_wf: "daemon_run D ls s s' \<Longrightarrow> hive_wf (ds_hive s) \<Longrightarrow> hive_wf (ds_hive s')"
proof (erule run_keeps [where Q = "\<lambda>l. True"])
  show "daemon_step D l u u' \<Longrightarrow> hive_wf (ds_hive u) \<Longrightarrow> hive_wf (ds_hive u')" for l u u'
    by (cases rule: daemon_step.cases) (auto simp: hive_wf_write hive_wf_apply simp del: apply_command.simps)
qed auto

lemma pending_task_picked:
  assumes "hive_wf h" "task_of h i = Some t" "tk_status t = Pending" "tk_target_node t = n"
  shows "i \<in> tk_id ` set (my_pending n (to_cluster_view l u h))"
proof -
  from assms(2) obtain x where x: "hm_get (hs_tasks h) i = Some x" "t = forget_updated x" by (auto simp: task_of_def)
  have "x \<in> set (hm_values (hs_tasks h)) \<and> tk_id x = i"
    using keyed_values_mem [OF hive_wf_keyed(2) [OF assms(1)]] x(1) keyed_key [OF hive_wf_keyed(2) [OF assms(1)] x(1)] by auto
  with x(2) assms(3,4) show ?thesis by (auto simp: my_pending_def image_iff intro: bexI [of _ x])
qed

text \<open>The processes that may bring the task to its end: one whose end the runner is about to report, and
  one of a task that the runner holds or that is stored.\<close>

definition may_run :: "'j daemon_state \<Rightarrow> 'j Task \<Rightarrow> 'j Task \<Rightarrow> bool" where
  "may_run s t x \<longleftrightarrow> x \<in> set (runner_queue (ds_runner s)) \<or> forget_updated x = t"

definition ends_with :: "'j daemon_setup \<Rightarrow> unit os_api \<Rightarrow> 'j daemon_state \<Rightarrow> 'j Task \<Rightarrow> 'j Task \<Rightarrow> runner_error + 'j \<Rightarrow> bool" where
  "ends_with D S s t x r \<longleftrightarrow> (\<exists>ts. ds_runner s = RunnerEnded x r ts) \<or> may_run s t x \<and> r = process_of D S x"

lemma pending_task_finishes:
  assumes "hive_wf (ds_hive s)" "task_of (ds_hive s) i = Some t" "tk_status t = Pending" "tk_target_node t = dm_node D"
  shows "\<exists>u. own_run D s u \<and> finished (ends_with D S s t) i u"
proof -
  let ?X = "\<lambda>x. tk_id x = i \<longrightarrow> may_run s t x" and ?Y = "\<lambda>x r. tk_id x = i \<longrightarrow> ends_with D S s t x r"
  have XY: "?X x \<Longrightarrow> ?Y x (process_of D S x)" for x by (simp add: ends_with_def)
  have fit: "fits ?X ?Y (ds_runner s)"
    by (cases "ds_runner s") (auto simp: may_run_def ends_with_def)
  have task: "has_task i (ds_hive s)" using assms(2) by (simp add: has_task_def)
  have done_: "finished ?Y i u \<Longrightarrow> finished (ends_with D S s t) i u" for u unfolding finished_def by blast
  show ?thesis
  proof (cases "i \<in> tk_id ` set (runner_queue (ds_runner s))")
    case True
    with queued_task_finishes [where X = ?X and Y = ?Y, OF XY _ task fit] done_ show ?thesis by blast
  next
    case False
    obtain u where u: "own_run D s u" "ds_runner u = RunnerIdle" "task_of (ds_hive u) i = Some t"
      using runner_drains [where X = ?X and Y = ?Y, OF XY False task fit] assms(2) by auto
    let ?ts = "my_pending (dm_node D) (to_cluster_view None 0 (ds_hive u))"
    let ?v = "u\<lparr>ds_runner := RunnerReady ?ts\<rparr>"
    have tick: "daemon_step D RunnerTick u ?v" by (rule daemon_step.runner_tick [OF u(2)])
    have wf: "hive_wf (ds_hive u)" using u(1) run_wf assms(1) by (auto simp: own_run_def)
    have "?X x" if "x \<in> set ?ts" for x
    proof
      assume "tk_id x = i"
      moreover have "hm_get (hs_tasks (ds_hive u)) (tk_id x) = Some x"
        using that keyed_values_mem [OF hive_wf_keyed(2) [OF wf]] by (auto simp: my_pending_def)
      ultimately show "may_run s t x" using u(3) by (simp add: may_run_def task_of_def)
    qed
    then have fit': "fits ?X ?Y (ds_runner ?v)" by simp
    from pending_task_picked [OF wf u(3) assms(3,4)] have "i \<in> tk_id ` set (runner_queue (ds_runner ?v))" by simp
    with queued_task_finishes [where X = ?X and Y = ?Y, OF XY _ _ fit'] u(3)
    obtain w where "own_run D ?v w" "finished ?Y i w" by (auto simp: has_task_def)
    with own_run_trans [OF u(1) own_run_step [OF tick]] done_ show ?thesis by auto
  qed
qed

section \<open>A node that does not lead\<close>

text \<open>How the write of a step ends, if it makes one.\<close>

fun write_of :: "'j daemon_label \<Rightarrow> write_result option" where
  "write_of (StartTask i out) = Some out"
| "write_of (ReportTask i out) = Some out"
| "write_of (PlannerWrite c out) = Some out"
| "write_of (Heartbeat out) = Some out"
| "write_of (SubmitTask task out) = Some out"
| "write_of (SubmitGoal goal out) = Some out"
| "write_of _ = None"

lemma write_of_written: "daemon_step D l s s' \<Longrightarrow> write_of l = map_option snd (written D l s)"
  by (cases rule: daemon_step.cases) auto

text \<open>A step somewhere in a run starts in a state that keeps what every step keeps.\<close>

lemma run_visits:
  assumes "cluster_run Ds Ls C C'" "L \<in> set Ls" "P C" "\<And>L. L \<in> set Ls \<Longrightarrow> Q L"
    and "\<And>L B B'. cluster_step Ds L B B' \<Longrightarrow> Q L \<Longrightarrow> P B \<Longrightarrow> P B'"
  shows "\<exists>B B'. cluster_step Ds L B B' \<and> P B"
  using assms(1-4)
proof (induction rule: cluster_run.induct)
  case (cluster_cons M C C' Ls C'')
  show ?case
  proof (cases "L = M")
    case True
    with cluster_cons.hyps(1) cluster_cons.prems(2) show ?thesis by blast
  next
    case False
    have "P C'" by (rule assms(5) [OF cluster_cons.hyps(1) _ cluster_cons.prems(2)]) (simp add: cluster_cons.prems(3))
    with cluster_cons.IH cluster_cons.prems(1,3) False show ?thesis by simp
  qed
qed simp

definition follows :: "NodeId \<Rightarrow> 'j cluster \<Rightarrow> bool" where
  "follows n C \<longleftrightarrow> cl_leader C \<noteq> Some n \<and> (\<forall>i. \<not> has_started i (ds_runner (cl_nodes C n)))"

lemma follower_step:
  assumes "cluster_step Ds (At n l) C C'" "cl_leader C \<noteq> Some n"
  shows "write_of l \<noteq> None \<Longrightarrow> write_of l = Some Refused"
    and "\<exists>s'. daemon_step (Ds n) l (cl_nodes C n) s' \<and> cl_nodes C' = (cl_nodes C)(n := s')"
  using assms by (auto elim!: cluster_step_AtE dest: write_of_written)

lemma step_follows:
  assumes "cluster_step Ds L C C'" "L \<noteq> Elects (Some n)" "follows n C"
  shows "follows n C'"
  using assms(1)
proof (cases rule: step_frame)
  case other
  with assms show ?thesis by (auto simp: follows_def elim: cluster_step.cases)
next
  case (node m l s')
  have lead: "cl_leader C' \<noteq> Some n" using assms by (auto simp: follows_def elim: cluster_step.cases)
  show ?thesis
  proof (cases "m = n")
    case False
    with node(2) lead assms(3) show ?thesis by (simp add: follows_def)
  next
    case True
    have "l \<noteq> StartTask i Committed" for i
    proof
      assume l: "l = StartTask i Committed"
      have "L = At n l" using node(8) [OF l] True by simp
      with follower_step(1) [of Ds n l C C'] assms(1,3) l show False by (simp add: follows_def)
    qed
    with started_step [OF node(1)] assms(3) True node(2) lead show ?thesis by (auto simp: follows_def)
  qed
qed

end
