(* ===== verification/ClusterProps.thy ===== *)
theory ClusterProps
  imports Cluster
begin

text \<open>
  Properties of every run of the cluster: the nodes agree, a policy stands behind every payload that
  did not come in over HTTP, a task runs at most once for every time it is made pending and only on
  the nodes it was pending on, a node that leads can bring its pending tasks to their end, and a node
  that never leads runs no task. The last theorem shows that the bound on the runs is attained: a
  task that is moved while it is picked runs on both nodes.
\<close>

text \<open>A cluster of demo nodes, which differ in their name, and a state with two of them.\<close>

definition demo_nodes :: "NodeId \<Rightarrow> unit daemon_setup" where
  "demo_nodes n = demo_setup\<lparr>dm_node := n\<rparr>"

definition two_hive :: "unit HiveState" where
  "two_hive = (live_hive [waiting_task])\<lparr>hs_nodes :=
     [(''node-1'', demo_node), (''node-2'', demo_node\<lparr>ns_node_id := ''node-2''\<rparr>)]\<rparr>"

lemma two_hive_wf: "hive_wf two_hive"
  by (auto simp: two_hive_def hive_wf_def live_hive_def keyed_def hm_ok_def demo_node_def demo_goal_def)

lemma two_hive_tasks: "task_of two_hive i = (if i = ''a'' then Some (forget_updated waiting_task) else None)"
  by (simp add: task_of_def two_hive_def live_hive_def hm_get_def)

lemma waiting_target [simp]: "tk_target_node waiting_task = ''node-1''"
  by (simp add: waiting_task_def demo_task_def)

abbreviation demo_cluster :: "unit cluster" where
  "demo_cluster \<equiv> cluster_initial two_hive"

abbreviation pass_labels :: "unit daemon_label list" where
  "pass_labels \<equiv> [RunnerTick, StartTask ''a'' Committed, EndProcess ''a'', ReportTask ''a'' Committed]"

text \<open>The first node carries its task out, the second catches up.\<close>

lemma two_tick:
  "daemon_step (demo_nodes ''node-1'') RunnerTick (daemon_initial two_hive)
     ((daemon_initial two_hive)\<lparr>ds_runner := RunnerReady [waiting_task]\<rparr>)"
proof -
  have "my_pending ''node-1'' (to_cluster_view None 0 two_hive) = [waiting_task]"
    by (simp add: my_pending_def two_hive_def live_hive_def hm_values_def)
  then show ?thesis
    using daemon_step.runner_tick [of "daemon_initial two_hive" "demo_nodes ''node-1''" None 0]
    by (simp add: daemon_initial_def demo_nodes_def)
qed

abbreviation demo_labels :: "unit cluster_label list" where
  "demo_labels \<equiv> Elects (Some ''node-1'') # map (At ''node-1'') pass_labels"

lemma demo_pass:
  obtains Ls C where "cluster_run demo_nodes (demo_labels @ Ls) demo_cluster C" "set Ls \<subseteq> {Deliver ''node-2''}"
    "cl_applied C ''node-1'' = length (cl_log C)" "cl_applied C ''node-2'' = length (cl_log C)"
proof -
  let ?s = "(daemon_initial two_hive)\<lparr>ds_runner := RunnerReady [waiting_task]\<rparr>"
  let ?A = "demo_cluster\<lparr>cl_leader := Some ''node-1''\<rparr>"
  obtain s' where "daemon_run (demo_nodes ''node-1'') [StartTask ''a'' Committed, EndProcess ''a'', ReportTask ''a'' Committed] ?s s'"
    using runner_pass [of ?s waiting_task "[]" "demo_nodes ''node-1''"] by auto
  from run_cons [OF two_tick this]
  have run: "daemon_run (demo_nodes ''node-1'') pass_labels (daemon_initial two_hive) s'" .
  obtain B where B: "cluster_run demo_nodes (map (At ''node-1'') pass_labels) ?A B"
    "cl_applied B ''node-1'' = length (cl_log B)" "cl_applied B ''node-2'' = 0"
    using run_lifts [where Ds = demo_nodes and n = "''node-1''" and C = ?A, OF run] by (auto simp: cluster_initial_def)
  obtain Ls C where C: "cluster_run demo_nodes Ls B C" "set Ls \<subseteq> {Deliver ''node-2''}" "cl_log C = cl_log B"
    "cl_applied C ''node-2'' = length (cl_log B)"
    using catch_up [of B "''node-2''" demo_nodes] B(3) by auto
  have "cl_applied C ''node-1'' = cl_applied B ''node-1''"
    by (rule cluster_keeps [OF C(1), where P = "\<lambda>X. cl_applied X ''node-1'' = cl_applied B ''node-1''"
          and Q = "\<lambda>L. L = Deliver ''node-2''"]) (use C(2) in \<open>auto elim: cluster_step.cases\<close>)
  with that [OF _ C(2)] cluster_cons [OF cluster_step.elect_step cluster_run_append [OF B(1) C(1)]] B(2) C(3,4) show thesis by simp
qed

lemma later_in_step: "cluster_run Ds Ls C C' \<Longrightarrow> in_step h C \<Longrightarrow> in_step h C'"
  by (erule cluster_keeps [where P = "in_step h" and Q = "\<lambda>L. True"]) (auto intro: step_in_step)

lemma run_in_step: "cluster_run Ds Ls (cluster_initial h) C \<Longrightarrow> in_step h C"
  by (erule later_in_step) (simp add: in_step_def cluster_initial_def daemon_initial_def)

section \<open>Properties\<close>

text \<open>C9. The nodes agree. In every run of the cluster, with writes committed, refused, answered too
  late or committed later than refused, the state of a node is what the initial state becomes by
  the part of the log it has applied, up to the instants it stamps itself; so nodes that have applied
  equally much hold the same nodes, tasks, attachments and goals.\<close>

theorem nodes_agree:
  assumes "cluster_run Ds Ls (cluster_initial h) C"
  shows "evolves (take (cl_applied C n) (cl_log C)) h (ds_hive (cl_nodes C n))
    \<and> (cl_applied C n = cl_applied C m \<longrightarrow> same_hive (ds_hive (cl_nodes C n)) (ds_hive (cl_nodes C m)))"
proof -
  have "in_step h C" by (rule run_in_step [OF assms])
  then have at: "evolves (take (cl_applied C k) (cl_log C)) h (ds_hive (cl_nodes C k))" for k
    by (simp add: in_step_def)
  show ?thesis using at [of n] at [of m] evolves_agree by auto
qed

theorem nodes_agree_witness:
  "\<exists>Ls C. cluster_run demo_nodes (demo_labels @ Ls) demo_cluster C
    \<and> same_hive (ds_hive (cl_nodes C ''node-1'')) (ds_hive (cl_nodes C ''node-2''))"
proof -
  obtain Ls C where C: "cluster_run demo_nodes (demo_labels @ Ls) demo_cluster C"
    "cl_applied C ''node-1'' = length (cl_log C)" "cl_applied C ''node-2'' = length (cl_log C)"
    using demo_pass by metis
  from nodes_agree [OF C(1), of "''node-1''" "''node-2''"] C show ?thesis by auto
qed

text \<open>C3. Behind every task in the cluster stands a policy or a request. In every run, on every node,
  each task has a payload that was there at the start, that the policy of some node permits, or that
  came in over \<open>POST /tasks\<close> at some node.\<close>

theorem cluster_payloads_have_a_source:
  assumes "cluster_run Ds Ls (cluster_initial h) C" "task_of (ds_hive (cl_nodes C n)) i = Some t"
  shows "(\<exists>m. payload_ok (dm_policy (Ds m)) (tk_payload t))
    \<or> (\<exists>j t0. task_of h j = Some t0 \<and> tk_payload t0 = tk_payload t)
    \<or> (\<exists>m task out. At m (SubmitTask task out) \<in> set Ls \<and> tk_payload task = tk_payload t)"
proof -
  let ?P = "{p. \<exists>m. payload_ok (dm_policy (Ds m)) p} \<union> payloads h \<union> (\<Union>L \<in> set Ls. cluster_payloads L)"
  have "log_sourced ?P C"
  proof (rule cluster_keeps [OF assms(1), where Q = "\<lambda>L. cluster_payloads L \<subseteq> ?P"])
    show "log_sourced ?P (cluster_initial h)"
      by (auto simp: log_sourced_def sourced_def cluster_initial_def daemon_initial_def)
  qed (blast, rule step_log_sourced, auto)
  then have "payloads (ds_hive (cl_nodes C n)) \<subseteq> ?P" by (simp only: log_sourced_def sourced_def)
  with payloads_task [OF assms(2)] have "tk_payload t \<in> ?P" by blast
  moreover have "\<exists>m task out. L = At m (SubmitTask task out) \<and> tk_payload task = p" if "p \<in> cluster_payloads L" for L p
    using that by (cases L rule: cluster_payloads.cases) auto
  ultimately show ?thesis by (fastforce simp: payloads_def)
qed

theorem cluster_payloads_have_a_source_witness:
  "\<exists>Ls C t. cluster_run demo_nodes (demo_labels @ Ls) demo_cluster C
    \<and> task_of (ds_hive (cl_nodes C ''node-2'')) ''a'' = Some t
    \<and> ((\<exists>m. payload_ok (dm_policy (demo_nodes m)) (tk_payload t))
       \<or> (\<exists>j t0. task_of two_hive j = Some t0 \<and> tk_payload t0 = tk_payload t)
       \<or> (\<exists>m task out. At m (SubmitTask task out) \<in> set (demo_labels @ Ls)
            \<and> tk_payload task = tk_payload t))"
proof -
  obtain Ls C where C: "cluster_run demo_nodes (demo_labels @ Ls) demo_cluster C"
    using demo_pass by metis
  have "has_task ''a'' (ds_hive (cl_nodes C ''node-2''))"
    by (rule cluster_keeps [OF C, where P = "\<lambda>X. has_task ''a'' (ds_hive (cl_nodes X ''node-2''))" and Q = "\<lambda>L. True"])
      (simp_all add: step_keeps_task, simp add: cluster_initial_def daemon_initial_def two_hive_tasks has_task_def)
  then obtain t where t: "task_of (ds_hive (cl_nodes C ''node-2'')) ''a'' = Some t" by (auto simp: has_task_def)
  from cluster_payloads_have_a_source [OF C t] C t show ?thesis by blast
qed


text \<open>C5. A pending task is brought to its end by its node once that node leads. In whatever state a
  run of the cluster has come to, when the log leaves a task pending on a node and that node, having
  applied the log, is elected, it comes on its own, by finishing what its runner holds and ticking
  once, with its writes committed, to a state in which the task has the status and the result that
  \<open>run_task\<close> reports for the outcome \<open>r\<close> of a process of the task, whatever the operating system
  \<open>S\<close>: the outcome of \<open>run_payload\<close> on the payload of the task as it is stored or as the runner
  holds it, or the outcome the runner was about to report.\<close>

theorem pending_task_can_finish:
  assumes "cluster_run Ds Ls (cluster_initial h) C" "hive_wf h" "dm_node (Ds n) = n"
    and "task_of (apply_log (map (Pair 0) (cl_log C)) h) i = Some t" "tk_status t = Pending" "tk_target_node t = n"
  shows "\<exists>Ks Ms B t' x r. cluster_run Ds (Ks @ Elects (Some n) # map (At n) Ms) C B
    \<and> set Ks \<subseteq> {Deliver n} \<and> list_all commits Ms
    \<and> task_of (ds_hive (cl_nodes B n)) i = Some t' \<and> (tk_status t', tk_result t') = task_outcome r
    \<and> tk_id x = i
    \<and> ((\<exists>ts. ds_runner (cl_nodes C n) = RunnerEnded x r ts)
       \<or> (x \<in> set (runner_queue (ds_runner (cl_nodes C n))) \<or> tk_payload x = tk_payload t)
         \<and> r = fst (run_payload (dm_json (Ds n)) S runner_new (tk_payload x) ()))"
proof -
  have reached: "in_step h C" by (rule run_in_step [OF assms(1)])
  then have "cl_applied C n \<le> length (cl_log C)" by (simp add: in_step_def)
  from catch_up [OF this, of Ds] obtain Ks A where A: "cluster_run Ds Ks C A" "set Ks \<subseteq> {Deliver n}" "cl_log A = cl_log C"
    "cl_applied A n = length (cl_log C)" "ds_runner (cl_nodes A n) = ds_runner (cl_nodes C n)" by blast
  have "in_step h A" by (rule later_in_step [OF A(1) reached])
  then have e: "evolves (cl_log C) h (ds_hive (cl_nodes A n))"
    unfolding in_step_def using A(3,4) by (metis order_refl take_all)
  have "evolves (cl_log C) h (apply_log (map (Pair 0) (cl_log C)) h)"
    using evolves_apply_log [of "map (Pair 0) (cl_log C)" h] by (simp add: comp_def)
  from evolves_agree [OF e this] assms(4) have t: "task_of (ds_hive (cl_nodes A n)) i = Some t"
    by (simp add: same_hive_lookups)
  obtain u Ms where u: "daemon_run (Ds n) Ms (cl_nodes A n) u" "list_all commits Ms"
    "finished (ends_with (Ds n) S (cl_nodes A n) t) i u"
    using pending_task_finishes [where S = S, OF evolves_wf [OF e assms(2)] t assms(5), of "Ds n"] assms(3,6)
    by (auto simp: own_run_def)
  have "list_all not_refused Ms" using u(2) commits_not_refused by (auto simp: list_all_iff)
  with run_lifts [where Ds = Ds and n = n and C = "A\<lparr>cl_leader := Some n\<rparr>", OF u(1)] A(3,4) obtain B where
    B: "cluster_run Ds (map (At n) Ms) (A\<lparr>cl_leader := Some n\<rparr>) B" "cl_nodes B n = u" by auto
  have run: "cluster_run Ds (Ks @ Elects (Some n) # map (At n) Ms) C B"
    by (rule cluster_run_append [OF A(1) cluster_cons [OF cluster_step.elect_step B(1)]])
  obtain t' x r where f: "task_of (ds_hive u) i = Some t'" "tk_id x = i" "ends_with (Ds n) S (cl_nodes A n) t x r"
    "(tk_status t', tk_result t') = task_outcome r" using u(3) by (auto simp: finished_def)
  have "(\<exists>ts. ds_runner (cl_nodes C n) = RunnerEnded x r ts)
    \<or> (x \<in> set (runner_queue (ds_runner (cl_nodes C n))) \<or> tk_payload x = tk_payload t)
      \<and> r = fst (run_payload (dm_json (Ds n)) S runner_new (tk_payload x) ())"
    using f(3) unfolding ends_with_def may_run_def process_of_def A(5) by auto
  with run A(2) u(2) f(1,2,4) B(2) show ?thesis by blast
qed

theorem pending_task_can_finish_witness:
  "\<exists>C Ks Ms B t' r. cluster_run demo_nodes [At ''node-1'' RunnerTick] demo_cluster C
    \<and> cluster_run demo_nodes (Ks @ Elects (Some ''node-1'') # map (At ''node-1'') Ms) C B
    \<and> task_of (ds_hive (cl_nodes B ''node-1'')) ''a'' = Some t' \<and> (tk_status t', tk_result t') = task_outcome r
    \<and> r = fst (run_payload (dm_json (demo_nodes ''node-1'')) (idle_os (ProcExited (Some 0) [] [])) runner_new (tk_payload waiting_task) ())"
proof -
  have "cluster_step demo_nodes (At ''node-1'' RunnerTick) demo_cluster (demo_cluster\<lparr>cl_nodes :=
      (cl_nodes demo_cluster)(''node-1'' := (daemon_initial two_hive)\<lparr>ds_runner := RunnerReady [waiting_task]\<rparr>)\<rparr>)"
    using two_tick by (intro cluster_step.local_step) (simp_all add: cluster_initial_def)
  then obtain C where C: "cluster_run demo_nodes [At ''node-1'' RunnerTick] demo_cluster C" "cl_log C = []"
    "ds_runner (cl_nodes C ''node-1'') = RunnerReady [waiting_task]"
    using cluster_cons [OF _ cluster_nil] by (fastforce simp: cluster_initial_def)
  have "task_of (apply_log (map (Pair 0) (cl_log C)) two_hive) ''a'' = Some (forget_updated waiting_task)"
    "tk_status (forget_updated waiting_task) = Pending" "tk_target_node (forget_updated waiting_task) = ''node-1''"
    "dm_node (demo_nodes ''node-1'') = ''node-1''" by (simp_all add: C(2) two_hive_tasks demo_nodes_def)
  from pending_task_can_finish [where S = "idle_os (ProcExited (Some 0) [] [])", OF C(1) two_hive_wf this(4,1,2,3)]
  obtain Ks Ms B t' x r where B: "cluster_run demo_nodes (Ks @ Elects (Some ''node-1'') # map (At ''node-1'') Ms) C B"
    "task_of (ds_hive (cl_nodes B ''node-1'')) ''a'' = Some t'" "(tk_status t', tk_result t') = task_outcome r"
    and x: "(\<exists>ts. RunnerReady [waiting_task] = RunnerEnded x r ts)
      \<or> (x \<in> set (runner_queue (RunnerReady [waiting_task])) \<or> tk_payload x = tk_payload (forget_updated waiting_task))
        \<and> r = fst (run_payload (dm_json (demo_nodes ''node-1'')) (idle_os (ProcExited (Some 0) [] [])) runner_new (tk_payload x) ())"
    unfolding C(3) by blast
  have "tk_payload x = tk_payload waiting_task" using x by (auto simp del: run_payload.simps)
  with x have "r = fst (run_payload (dm_json (demo_nodes ''node-1'')) (idle_os (ProcExited (Some 0) [] [])) runner_new (tk_payload waiting_task) ())"
    by (simp only: runner_pc.distinct simp_thms)
  with C(1) B show ?thesis by blast
qed

text \<open>C4. A task runs at most once for every time it is made pending, and only where it was pending. In
  every run, the payload of a task is run on all nodes together at most as often as commands of the
  log put the task as pending or set it to pending, and once more when it is pending at the start.
  In particular a task that is submitted once, and is not put again, runs at most once. A node that
  runs it is one the task was pending on after some prefix of the log.\<close>

theorem task_runs_bounded_in_cluster:
  assumes "cluster_run Ds Ls (cluster_initial h) C" "hive_wf h" "\<forall>n. dm_node (Ds n) = n"
  shows "length (filter (ends_task i) Ls) \<le> length (filter (makes_pending i) (cl_log C))
      + (if \<exists>t. task_of h i = Some t \<and> tk_status t = Pending then 1 else 0)
    \<and> (At n (EndProcess i) \<in> set Ls \<longrightarrow> (\<exists>k \<le> length (cl_log C). \<exists>t.
        task_of (apply_log (map (Pair 0) (take k (cl_log C))) h) i = Some t \<and> tk_status t = Pending \<and> tk_target_node t = n))"
proof -
  have ids: "dm_node (Ds n) = n" for n using assms(3) by blast
  have "not_pending i h \<longleftrightarrow> \<not> (\<exists>t. task_of h i = Some t \<and> tk_status t = Pending)" by (auto simp: not_pending_def)
  with cluster_runs_bounded(1) [OF assms(1,2) ids, of i] cluster_runs_bounded(2) [OF assms(1,2) ids, of n i] show ?thesis by (auto simp: openings_def pending_at_def)
qed

theorem task_runs_bounded_in_cluster_witness:
  "\<exists>Ls C. cluster_run demo_nodes (demo_labels @ Ls) demo_cluster C
    \<and> length (filter (ends_task ''a'') (demo_labels @ Ls)) = 1
    \<and> length (filter (ends_task ''a'') (demo_labels @ Ls)) \<le> length (filter (makes_pending ''a'') (cl_log C)) + 1"
proof -
  obtain Ls C where C: "cluster_run demo_nodes (demo_labels @ Ls) demo_cluster C"
    "set Ls \<subseteq> {Deliver ''node-2''}" using demo_pass by metis
  have ids: "\<forall>n. dm_node (demo_nodes n) = n" by (simp add: demo_nodes_def)
  have "filter (ends_task ''a'') Ls = []" using C(2) by (auto simp: filter_empty_conv)
  then have one: "length (filter (ends_task ''a'') (demo_labels @ Ls)) = 1" by simp
  from task_runs_bounded_in_cluster [OF C(1) two_hive_wf ids, of "''a''" "''node-1''"] one C(1) show ?thesis
    by (intro exI [of _ Ls] exI [of _ C]) (simp split: if_splits)
qed



text \<open>Two runs do happen. When the second node's planner moves the task to itself after the
  first node has picked it, both run it.\<close>

definition moved :: "unit Task" where
  "moved = moved_task (ae_t1 (demo_act 0)) ''node-2'' waiting_task"

abbreviation move_labels :: "unit daemon_label list" where
  "move_labels \<equiv> [PlannerTick [RebalanceTask ''a'' ''node-2''], CheckAction, PlannerCommand (PutTask moved),
     PlannerWrite (PutTask moved) Committed]"

lemma two_moves:
  obtains s where "daemon_run (demo_nodes ''node-2'') move_labels (daemon_initial two_hive) s"
    and "ds_hive s = apply_command 0 (PutTask moved) two_hive" "ds_runner s = RunnerIdle"
proof -
  let ?a = "RebalanceTask ''a'' ''node-2'' :: unit BrainAction"
  let ?D = "demo_nodes ''node-2''"
  let ?e = "demo_act 0"
  let ?s0 = "daemon_initial two_hive"
  let ?s1 = "?s0\<lparr>ds_planner := PlannerReady [] [?a]\<rparr>"
  let ?s2 = "?s0\<lparr>ds_planner := PlannerChecked ?e ?a [] []\<rparr>"
  let ?s3 = "?s0\<lparr>ds_planner := PlannerWriting ?e ?a (PutTask moved) [] []\<rparr>"
  have new: "cleanup_stale 0 tracker_new = (tracker_new :: unit ActionTracker)"
    "\<not> has_similar_pending ?a (tracker_new :: unit ActionTracker)"
    "get_recent_failures 10 (tracker_new :: unit ActionTracker) = []"
    by (simp_all add: cleanup_stale_def tracker_new_def has_similar_pending_def get_recent_failures_def hm_values_def)
  have ok: "validate execution_policy_default ?a (to_cluster_view None 0 two_hive) = Ok ()"
    by (simp add: validate_Ok task_ids_def node_ids_def two_hive_def live_hive_def hm_values_def demo_node_def)
  have cmd: "action_commands (ae_uuid ?e) (ae_t1 ?e) (ae_t2 ?e) ?a two_hive = [PutTask moved]"
    by (simp add: two_hive_def live_hive_def hm_get_def moved_def)
  have step1: "daemon_step ?D (PlannerTick [?a]) ?s0 ?s1"
    using daemon_step.planner_tick [of ?s0 "tracker_new" 0 ?D "[?a]"] by (simp add: daemon_initial_def new)
  have step2: "daemon_step ?D CheckAction ?s1 ?s2"
    using daemon_step.check_action [of ?s1 "[]" ?a "[]" ?D None 0 ?e] ok new
    by (simp add: daemon_initial_def demo_nodes_def demo_setup_def is_recently_failed_def)
  have step3: "daemon_step ?D (PlannerCommand (PutTask moved)) ?s2 ?s3"
    using daemon_step.planner_command [of ?s2 ?e ?a "[]" "[]" "PutTask moved" ?D] cmd by (simp add: daemon_initial_def)
  obtain s where step4: "daemon_step ?D (PlannerWrite (PutTask moved) Committed) ?s3 s"
    "ds_hive s = apply_command 0 (PutTask moved) two_hive" "ds_runner s = RunnerIdle"
    using daemon_step.planner_write [of ?s3 ?e ?a "PutTask moved" "[]" "[]" _ Committed "[]" ?D 0, OF _ refl]
    by (fastforce simp: daemon_initial_def simp del: apply_command.simps)
  show thesis
    by (rule that [OF run_cons [OF step1 run_cons [OF step2 run_cons [OF step3 run_cons [OF step4(1) run_nil]]]] step4(2,3)])
qed


lemma two_picks:
  assumes "ds_hive s = apply_command 0 (PutTask moved) two_hive" "ds_runner s = RunnerIdle"
  obtains s' where "daemon_run (demo_nodes ''node-2'') pass_labels s s'"
proof -
  have "my_pending ''node-2'' (to_cluster_view None 0 (ds_hive s)) = [moved]"
    by (simp add: assms(1) my_pending_def two_hive_def live_hive_def hm_values_def hm_insert_def moved_def moved_task_def)
  then have "daemon_step (demo_nodes ''node-2'') RunnerTick s (s\<lparr>ds_runner := RunnerReady [moved]\<rparr>)"
    using daemon_step.runner_tick [OF assms(2), of "demo_nodes ''node-2''" None 0] by (simp add: demo_nodes_def)
  moreover have "tk_id moved = ''a''" by (simp add: moved_def moved_task_def)
  then obtain s' where "daemon_run (demo_nodes ''node-2'') [StartTask ''a'' Committed, EndProcess ''a'', ReportTask ''a'' Committed]
      (s\<lparr>ds_runner := RunnerReady [moved]\<rparr>) s'"
    using runner_pass [of "s\<lparr>ds_runner := RunnerReady [moved]\<rparr>" moved "[]" "demo_nodes ''node-2''"] by auto
  ultimately show thesis by (rule that [OF run_cons])
qed

text \<open>A task that is moved while it is picked runs twice. There is a run of two nodes, with every
  write committed, in which the first node picks a task, the second is elected, its planner moves
  the task to the second with an action the policy admits and the second node runs it, and the
  first, elected again and having applied all of the log, runs it as well.\<close>

theorem moved_task_runs_twice:
  "\<exists>Ls C. cluster_run demo_nodes Ls demo_cluster C
    \<and> At ''node-1'' (EndProcess ''a'') \<in> set Ls \<and> At ''node-2'' (EndProcess ''a'') \<in> set Ls
    \<and> length (filter (ends_task ''a'') Ls) = 2"
proof -
  let ?picked = "(daemon_initial two_hive)\<lparr>ds_runner := RunnerReady [waiting_task]\<rparr>"
  obtain A where A: "cluster_run demo_nodes [At ''node-1'' RunnerTick] demo_cluster A"
    "cl_nodes A = (\<lambda>n. daemon_initial two_hive)(''node-1'' := ?picked)" "cl_applied A ''node-2'' = 0" "cl_log A = []"
    using cluster_step.local_step [where Ds = demo_nodes and n = "''node-1''" and C = demo_cluster and l = RunnerTick, of ?picked] two_tick
    by (force simp: cluster_initial_def cluster_run_Cons)
  obtain s where s: "daemon_run (demo_nodes ''node-2'') move_labels (daemon_initial two_hive) s"
    "ds_hive s = apply_command 0 (PutTask moved) two_hive" "ds_runner s = RunnerIdle"
    by (rule two_moves)
  obtain s' where s': "daemon_run (demo_nodes ''node-2'') pass_labels s s'" by (rule two_picks [OF s(2,3)])
  let ?A = "A\<lparr>cl_leader := Some ''node-2''\<rparr>"
  obtain B where B: "cluster_run demo_nodes (map (At ''node-2'') (move_labels @ pass_labels)) ?A B"
    "ds_runner (cl_nodes B ''node-1'') = RunnerReady [waiting_task]"
    using run_lifts [where Ds = demo_nodes and n = "''node-2''" and C = ?A, OF daemon_run_append [OF s(1) s']] A(2-4)
    by auto
  have AB: "cluster_run demo_nodes ([At ''node-1'' RunnerTick] @ Elects (Some ''node-2'') # map (At ''node-2'') (move_labels @ pass_labels))
      demo_cluster B"
    by (rule cluster_run_append [OF A(1) cluster_cons [OF cluster_step.elect_step B(1)]])
  have le: "cl_applied B ''node-1'' \<le> length (cl_log B)" using run_in_step [OF AB] by (simp add: in_step_def)
  obtain Ds C where C: "cluster_run demo_nodes Ds B C" "set Ds \<subseteq> {Deliver ''node-1''}"
    "cl_applied C ''node-1'' = length (cl_log C)" "ds_runner (cl_nodes C ''node-1'') = RunnerReady [waiting_task]"
    using catch_up [OF le, of demo_nodes] B(2) by auto
  obtain u where u: "daemon_run (demo_nodes ''node-1'') [StartTask ''a'' Committed, EndProcess ''a'', ReportTask ''a'' Committed]
      (cl_nodes C ''node-1'') u"
    using runner_pass [OF C(4), of "demo_nodes ''node-1''"] by auto
  let ?C = "C\<lparr>cl_leader := Some ''node-1''\<rparr>"
  obtain E where E: "cluster_run demo_nodes (map (At ''node-1'') [StartTask ''a'' Committed, EndProcess ''a'', ReportTask ''a'' Committed]) ?C E"
    using run_lifts [where Ds = demo_nodes and n = "''node-1''" and C = ?C, OF u] C(3) by auto
  let ?Ls = "([At ''node-1'' RunnerTick] @ Elects (Some ''node-2'') # map (At ''node-2'') (move_labels @ pass_labels)) @ Ds
    @ Elects (Some ''node-1'') # map (At ''node-1'') [StartTask ''a'' Committed, EndProcess ''a'', ReportTask ''a'' Committed]"
  have run: "cluster_run demo_nodes ?Ls demo_cluster E"
    by (rule cluster_run_append [OF AB cluster_run_append [OF C(1) cluster_cons [OF cluster_step.elect_step E]]])
  have "filter (ends_task ''a'') Ds = []" using C(2) by (auto simp: filter_empty_conv)
  then have "length (filter (ends_task ''a'') ?Ls) = 2" by simp
  moreover have "At ''node-1'' (EndProcess ''a'') \<in> set ?Ls" "At ''node-2'' (EndProcess ''a'') \<in> set ?Ls" by simp_all
  ultimately show ?thesis using run by blast
qed

end
