(* ===== verification/Lifecycle.thy ===== *)
theory Lifecycle
  imports InterleavingProps EntryPoint
begin

text \<open>
  The life of the process: \<open>run_daemon\<close> of \<open>src/main.rs\<close> from where it spawns the server and the
  daemon, \<open>run\<close> of \<open>src/daemon.rs\<close> with its three loops, and the way they end. The tasks of the
  process are the server, \<open>run\<close> and the loops; each has a program counter, the loops share the
  replicated state through the machine of \<open>Interleaving\<close>, and \<open>process_step\<close> interleaves them. A
  timer may fire at any time, and \<open>select!\<close> takes any arm that is ready. The watch channel is the
  parameter of \<open>Watch\<close>. When \<open>main\<close> returns, the runtime is dropped and nothing steps any more.

  What tokio does is taken from its documentation: a spawned task runs whether or not its handle is
  kept, a handle resolves when its task returns or panics, and \<open>interval\<close> panics for a period of
  zero.
\<close>

section \<open>States\<close>

datatype loop_name = HeartbeatLoop | RunnerLoop | PlannerLoop

datatype 'r loop_pc = LoopAbsent | LoopSpawned 'r | Looping 'r | LoopEnded | LoopPanicked

datatype run_event = LoopExited loop_name | ShutdownReceived

datatype 'r run_pc =
    RunInitialising
  | RunRegistering
  | RunSelecting 'r
  | RunReturned "daemon_error + run_event"

datatype main_pc = AwaitSignal | AwaitDaemon | AwaitApi | MainReturned "string + unit"

record ('j, 'c, 'r) process =
  pr_self :: "('j, 'c, 'r) HiveDaemon"
  pr_state :: "'j daemon_state"
  pr_loops :: "loop_name \<Rightarrow> 'r loop_pc"
  pr_run :: "'r run_pc"
  pr_serving :: bool
  pr_main :: main_pc

record ('j, 'c, 'r) process_env =
  pn_watch :: "('c, 'r) watch_api"
  pn_json :: "'j json_api"
  pn_fmt :: "timestamp \<Rightarrow> string"

definition process_setup :: "('j, 'c, 'r) process_env \<Rightarrow> ('j, 'c, 'r) HiveDaemon \<Rightarrow> 'j daemon_setup" where
  "process_setup P d = \<lparr>dm_node = hd_node_id d, dm_policy = hd_policy d, dm_json = pn_json P, dm_fmt = pn_fmt P\<rparr>"

section \<open>The tasks of the process\<close>

definition loop_interval :: "NodeConfig \<Rightarrow> loop_name \<Rightarrow> u64" where
  "loop_interval config k =
     (case k of HeartbeatLoop \<Rightarrow> cf_heartbeat_interval_secs config
      | RunnerLoop \<Rightarrow> 2
      | PlannerLoop \<Rightarrow> cf_planning_interval_secs config)"

text \<open>\<open>run\<close> spawns the loops with clones of the receiver the daemon was made with, which nobody polls,
  and then selects over the handles and the wait for the shutdown, which clones it once more.\<close>

definition first_run_pc :: "('j, 'c, 'r) HiveDaemon \<Rightarrow> 'r run_pc" where
  "first_run_pc d = (if cf_peers (hd_config d) = [] then RunInitialising else RunRegistering)"

definition spawn_loops :: "('c, 'r) watch_api \<Rightarrow> ('j, 'c, 'r) process \<Rightarrow> ('j, 'c, 'r) process" where
  "spawn_loops W s =
     s\<lparr>pr_loops := (\<lambda>k. LoopSpawned (wt_clone W (hd_shutdown_rx (pr_self s)))),
       pr_run := RunSelecting (wt_clone W (hd_shutdown_rx (pr_self s)))\<rparr>"

text \<open>The first poll of a loop makes its ticker.\<close>

definition first_poll :: "NodeConfig \<Rightarrow> loop_name \<Rightarrow> 'r \<Rightarrow> 'r loop_pc" where
  "first_poll config k r = (if loop_interval config k = 0 then LoopPanicked else Looping r)"

text \<open>A loop is at its \<open>select!\<close> when its body is not under way; the heartbeat's body is one step.\<close>

definition at_select :: "loop_name \<Rightarrow> 'j daemon_state \<Rightarrow> bool" where
  "at_select k u =
     (case k of HeartbeatLoop \<Rightarrow> True
      | RunnerLoop \<Rightarrow> ds_runner u = RunnerIdle
      | PlannerLoop \<Rightarrow> ds_planner u = PlannerIdle)"

datatype 'r waiting = WaitOver | WaitAgain 'r | WaitParked

text \<open>One turn of the loop of \<open>wait_for_shutdown\<close>.\<close>

definition wait_for_shutdown :: "('c, 'r) watch_api \<Rightarrow> 'c \<Rightarrow> 'r \<Rightarrow> 'r waiting" where
  "wait_for_shutdown W c r =
     (if \<not> wt_borrow W c r
      then (case wt_changed W c r of Some r' \<Rightarrow> WaitAgain r' | None \<Rightarrow> WaitParked)
      else WaitOver)"

fun handle_ready :: "'r loop_pc \<Rightarrow> bool" where
  "handle_ready LoopEnded \<longleftrightarrow> True"
| "handle_ready LoopPanicked \<longleftrightarrow> True"
| "handle_ready _ \<longleftrightarrow> False"

text \<open>The arms of the \<open>select!\<close> of \<open>run\<close> that are ready.\<close>

definition run_select :: "('c, 'r) watch_api \<Rightarrow> ('j, 'c, 'r) process \<Rightarrow> run_event list" where
  "run_select W s =
     (case pr_run s of
        RunSelecting r \<Rightarrow>
          map LoopExited (filter (\<lambda>k. handle_ready (pr_loops s k)) [HeartbeatLoop, RunnerLoop, PlannerLoop])
          @ (case wait_for_shutdown W (hd_shutdown_tx (pr_self s)) r of WaitOver \<Rightarrow> [ShutdownReceived] | _ \<Rightarrow> [])
      | _ \<Rightarrow> [])"

fun run_returned :: "'r run_pc \<Rightarrow> bool" where
  "run_returned (RunReturned e) \<longleftrightarrow> True"
| "run_returned _ \<longleftrightarrow> False"

fun main_returned :: "main_pc \<Rightarrow> bool" where
  "main_returned (MainReturned r) \<longleftrightarrow> True"
| "main_returned _ \<longleftrightarrow> False"

definition process_up :: "('j, 'c, 'r) process \<Rightarrow> bool" where
  "process_up s \<longleftrightarrow> \<not> main_returned (pr_main s)"

text \<open>Which loop makes a step of the machine; the others are the server's and the network's.\<close>

fun label_loop :: "'j daemon_label \<Rightarrow> loop_name option" where
  "label_loop RunnerTick = Some RunnerLoop"
| "label_loop RunnerEnd = Some RunnerLoop"
| "label_loop (StartTask i out) = Some RunnerLoop"
| "label_loop (EndProcess i) = Some RunnerLoop"
| "label_loop (ReportTask i out) = Some RunnerLoop"
| "label_loop (Heartbeat out) = Some HeartbeatLoop"
| "label_loop (SubmitTask t out) = None"
| "label_loop (SubmitGoal g out) = None"
| "label_loop (Remote c) = None"
| "label_loop _ = Some PlannerLoop"

fun by_server :: "'j daemon_label \<Rightarrow> bool" where
  "by_server (SubmitTask t out) \<longleftrightarrow> True"
| "by_server (SubmitGoal g out) \<longleftrightarrow> True"
| "by_server _ \<longleftrightarrow> False"

fun is_looping :: "'r loop_pc \<Rightarrow> bool" where
  "is_looping (Looping r) \<longleftrightarrow> True"
| "is_looping _ \<longleftrightarrow> False"

definition may_step :: "('j, 'c, 'r) process \<Rightarrow> 'j daemon_label \<Rightarrow> bool" where
  "may_step s l \<longleftrightarrow>
     (case label_loop l of Some k \<Rightarrow> is_looping (pr_loops s k) | None \<Rightarrow> by_server l \<longrightarrow> pr_serving s)"

section \<open>Steps\<close>

datatype 'j process_label =
    Inside "'j daemon_label"
  | Initialise "string option"
  | Register timestamp write_result
  | FirstPoll loop_name
  | LoopExit loop_name
  | WaitWoken
  | RunSelects run_event
  | CtrlC
  | SignalFails string
  | DaemonJoined
  | ApiJoined
  | ApiReturns
  | GraceOver

definition self_registration :: "timestamp \<Rightarrow> ('j, 'c, 'r) HiveDaemon \<Rightarrow> 'j ClusterCommand" where
  "self_registration now d = RegisterNode (self_status now (hd_node_id d) (hd_hostname d) (hd_tags d))"

inductive process_step ::
  "('j, 'c, 'r) process_env \<Rightarrow> 'j process_label \<Rightarrow> ('j, 'c, 'r) process \<Rightarrow> ('j, 'c, 'r) process \<Rightarrow> bool"
  for P :: "('j, 'c, 'r) process_env" where
  inside: "process_up s \<Longrightarrow> may_step s l \<Longrightarrow> daemon_step (process_setup P (pr_self s)) l (pr_state s) u \<Longrightarrow>
    process_step P (Inside l) s (s\<lparr>pr_state := u\<rparr>)"
| initialise: "process_up s \<Longrightarrow> pr_run s = RunInitialising \<Longrightarrow>
    process_step P (Initialise e) s
      (s\<lparr>pr_run := (case e of None \<Rightarrow> RunRegistering
           | Some err \<Rightarrow> RunReturned (Err (DaemonReplicator (MembershipFailed err))))\<rparr>)"
| register: "process_up s \<Longrightarrow> pr_run s = RunRegistering \<Longrightarrow>
    s' = s\<lparr>pr_state := (pr_state s)\<lparr>ds_hive := settle_write out now' (self_registration now (pr_self s)) (ds_hive (pr_state s))\<rparr>\<rparr> \<Longrightarrow>
    process_step P (Register now out) s
      (if out = Committed then spawn_loops (pn_watch P) s'
       else s'\<lparr>pr_run := RunReturned (Err (DaemonReplicator (WriteFailed err)))\<rparr>)"
| poll_loop: "process_up s \<Longrightarrow> pr_loops s k = LoopSpawned r \<Longrightarrow>
    process_step P (FirstPoll k) s (s\<lparr>pr_loops := (pr_loops s)(k := first_poll (hd_config (pr_self s)) k r)\<rparr>)"
| loop_exit: "process_up s \<Longrightarrow> pr_loops s k = Looping r \<Longrightarrow> at_select k (pr_state s) \<Longrightarrow>
    wt_changed (pn_watch P) (hd_shutdown_tx (pr_self s)) r = Some r' \<Longrightarrow>
    process_step P (LoopExit k) s (s\<lparr>pr_loops := (pr_loops s)(k := LoopEnded)\<rparr>)"
| wait_woken: "process_up s \<Longrightarrow> pr_run s = RunSelecting r \<Longrightarrow>
    wait_for_shutdown (pn_watch P) (hd_shutdown_tx (pr_self s)) r = WaitAgain r' \<Longrightarrow>
    process_step P WaitWoken s (s\<lparr>pr_run := RunSelecting r'\<rparr>)"
| run_selects: "process_up s \<Longrightarrow> e \<in> set (run_select (pn_watch P) s) \<Longrightarrow>
    process_step P (RunSelects e) s (s\<lparr>pr_run := RunReturned (Ok e)\<rparr>)"
| ctrl_c: "pr_main s = AwaitSignal \<Longrightarrow>
    process_step P CtrlC s (s\<lparr>pr_self := shutdown (pn_watch P) (pr_self s), pr_main := AwaitDaemon\<rparr>)"
| signal_fails: "pr_main s = AwaitSignal \<Longrightarrow>
    process_step P (SignalFails err) s (s\<lparr>pr_main := MainReturned (Err err)\<rparr>)"
| daemon_joined: "pr_main s = AwaitDaemon \<Longrightarrow> run_returned (pr_run s) \<Longrightarrow>
    process_step P DaemonJoined s (s\<lparr>pr_main := AwaitApi\<rparr>)"
| api_joined: "pr_main s = AwaitApi \<Longrightarrow> \<not> pr_serving s \<Longrightarrow>
    process_step P ApiJoined s (s\<lparr>pr_main := MainReturned (Ok ())\<rparr>)"
| api_returns: "process_up s \<Longrightarrow> pr_serving s \<Longrightarrow> process_step P ApiReturns s (s\<lparr>pr_serving := False\<rparr>)"
| grace_over: "pr_main s = AwaitDaemon \<or> pr_main s = AwaitApi \<Longrightarrow>
    process_step P GraceOver s (s\<lparr>pr_main := MainReturned (Ok ())\<rparr>)"

inductive process_run ::
  "('j, 'c, 'r) process_env \<Rightarrow> 'j process_label list \<Rightarrow> ('j, 'c, 'r) process \<Rightarrow> ('j, 'c, 'r) process \<Rightarrow> bool"
  for P :: "('j, 'c, 'r) process_env" where
  process_nil: "process_run P [] s s"
| process_cons: "process_step P l s s' \<Longrightarrow> process_run P ls s' s'' \<Longrightarrow> process_run P (l # ls) s s''"

inductive_simps process_run_Nil [simp]: "process_run P [] s s'"
inductive_simps process_run_Cons: "process_run P (l # ls) s s'"

lemma process_run_append: "process_run P ls s s' \<Longrightarrow> process_run P ms s' s'' \<Longrightarrow> process_run P (ls @ ms) s s''"
  by (induction rule: process_run.induct) (auto intro: process_cons)

lemma process_run_one: "process_step P l s s' \<Longrightarrow> process_run P [l] s s'"
  by (rule process_cons [OF _ process_nil])

text \<open>What every step keeps every run keeps; a step may rest on its label.\<close>

lemma process_keeps:
  assumes "process_run P ls s s'" "I s" "\<And>l. l \<in> set ls \<Longrightarrow> Q l"
    and "\<And>l u u'. process_step P l u u' \<Longrightarrow> Q l \<Longrightarrow> I u \<Longrightarrow> I u'"
  shows "I s'"
  using assms(1-3) by (induction rule: process_run.induct) (auto intro: assms(4))

definition process_initial :: "('j, 'c, 'r) HiveDaemon \<Rightarrow> 'j HiveState \<Rightarrow> ('j, 'c, 'r) process" where
  "process_initial d h = \<lparr>pr_self = d, pr_state = daemon_initial h, pr_loops = (\<lambda>k. LoopAbsent),
     pr_run = first_run_pc d, pr_serving = True, pr_main = AwaitSignal\<rparr>"

section \<open>The process as a run of the daemon\<close>

definition same_node :: "('j, 'c, 'r) HiveDaemon \<Rightarrow> ('j, 'c, 'r) HiveDaemon \<Rightarrow> bool" where
  "same_node d d' \<longleftrightarrow> hd_node_id d' = hd_node_id d \<and> hd_hostname d' = hd_hostname d \<and> hd_tags d' = hd_tags d
     \<and> hd_policy d' = hd_policy d \<and> hd_config d' = hd_config d"

fun inner :: "('j, 'c, 'r) HiveDaemon \<Rightarrow> 'j process_label \<Rightarrow> 'j daemon_label list" where
  "inner d (Inside l) = [l]"
| "inner d (Register now out) = (if out = Refused then [] else [Remote (self_registration now d)])"
| "inner d _ = []"

lemma same_node_refl [simp]: "same_node d d"
  by (simp add: same_node_def)

lemma same_node_trans: "same_node d d' \<Longrightarrow> same_node d' d'' \<Longrightarrow> same_node d d''"
  by (simp add: same_node_def)

lemma same_node_setup: "same_node d d' \<Longrightarrow> process_setup P d' = process_setup P d"
  by (simp add: same_node_def process_setup_def)

lemma same_node_inner: "same_node d d' \<Longrightarrow> inner d' l = inner d l"
  by (cases l) (simp_all add: same_node_def self_registration_def)

lemma step_same_node: "process_step P l s s' \<Longrightarrow> same_node (pr_self s) (pr_self s')"
  by (cases rule: process_step.cases) (auto simp: same_node_def shutdown_def spawn_loops_def)

lemma run_same_node: "process_run P ls s s' \<Longrightarrow> same_node (pr_self s) (pr_self s')"
  by (induction rule: process_run.induct) (auto intro: step_same_node same_node_trans)

lemma process_step_projects:
  assumes "process_step P l s s'"
  shows "daemon_run (process_setup P (pr_self s)) (inner (pr_self s) l) (pr_state s) (pr_state s')"
  using assms
proof (cases rule: process_step.cases)
  case (inside l u)
  then show ?thesis by (auto intro: run_cons run_nil)
next
  case (register s1 out now' now err)
  let ?c = "self_registration now (pr_self s)"
  have moved: "pr_state s' = (pr_state s)\<lparr>ds_hive := settle_write out now' ?c (ds_hive (pr_state s))\<rparr>"
    using register by (simp add: spawn_loops_def)
  show ?thesis
  proof (cases "out = Refused")
    case False
    then have "settle_write out now' ?c h = apply_command now' ?c h" for h by (cases out) auto
    with moved have "daemon_step (process_setup P (pr_self s)) (Remote ?c) (pr_state s) (pr_state s')"
      using daemon_step.remote by metis
    with False register show ?thesis by (auto intro: run_cons run_nil)
  qed (use register moved in simp)
qed simp_all

text \<open>Whatever holds of all runs of the daemon holds of the process.\<close>

lemma process_projects:
  assumes "process_run P ls s s'"
  shows "daemon_run (process_setup P (pr_self s)) (concat (map (inner (pr_self s)) ls)) (pr_state s) (pr_state s')"
  using assms
proof (induction rule: process_run.induct)
  case (process_cons l s s' ls s'')
  note n = step_same_node [OF process_cons.hyps(1)]
  from daemon_run_append [OF process_step_projects [OF process_cons.hyps(1)] process_cons.IH [unfolded same_node_setup [OF n]]]
  show ?case by (simp add: same_node_inner [OF n])
qed simp

lemma state_frame [simp]:
  "may_step (s\<lparr>pr_state := u\<rparr>) l = may_step s l" "process_up (s\<lparr>pr_state := u\<rparr>) = process_up s"
  by (cases "label_loop l") (simp_all add: may_step_def process_up_def)

text \<open>And a run of the daemon in which only loops that are up take part is a run of the process.\<close>

lemma inside_run:
  assumes "daemon_run D ls u u'" "D = process_setup P (pr_self s)" "pr_state s = u" "process_up s"
    and "\<forall>l \<in> set ls. may_step s l"
  shows "process_run P (map Inside ls) s (s\<lparr>pr_state := u'\<rparr>)"
  using assms
proof (induction arbitrary: s rule: daemon_run.induct)
  case (run_nil u)
  then have "s\<lparr>pr_state := u\<rparr> = s" by simp
  then show ?case by (simp only: list.map process_run_Nil)
next
  case (run_cons l u u1 ls u2)
  let ?s = "s\<lparr>pr_state := u1\<rparr>"
  have "process_step P (Inside l) s ?s"
    using run_cons.hyps(1) run_cons.prems by (intro process_step.inside) auto
  moreover have "process_run P (map Inside ls) ?s (?s\<lparr>pr_state := u2\<rparr>)"
    using run_cons.prems by (intro run_cons.IH) auto
  ultimately show ?case by (auto intro: process_cons)
qed

section \<open>What has been spawned\<close>

fun not_started :: "'r run_pc \<Rightarrow> bool" where
  "not_started RunInitialising \<longleftrightarrow> True"
| "not_started RunRegistering \<longleftrightarrow> True"
| "not_started (RunSelecting r) \<longleftrightarrow> False"
| "not_started (RunReturned e) \<longleftrightarrow> (case e of Inl _ \<Rightarrow> True | Inr _ \<Rightarrow> False)"

definition well_spawned :: "('j, 'c, 'r) process \<Rightarrow> bool" where
  "well_spawned s \<longleftrightarrow> (\<forall>k. pr_loops s k = LoopAbsent \<longleftrightarrow> not_started (pr_run s))
     \<and> (\<forall>k. is_looping (pr_loops s k) \<or> at_select k (pr_state s))"

lemma step_at_select:
  assumes "daemon_step D l u u'" "label_loop l \<noteq> Some k" "at_select k u"
  shows "at_select k u'"
  using assms by (cases k; cases rule: daemon_step.cases) (auto simp: at_select_def)

lemma at_select_hive [simp]: "at_select k (u\<lparr>ds_hive := h\<rparr>) = at_select k u"
  by (cases k) (simp_all add: at_select_def)

lemma is_looping_iff: "is_looping pc \<longleftrightarrow> (\<exists>r. pc = Looping r)"
  by (cases pc) auto

lemma first_poll_simps [simp]:
  "first_poll config k r \<noteq> LoopAbsent" "first_poll config k r \<noteq> LoopSpawned r'" "first_poll config k r \<noteq> LoopEnded"
  "first_poll config k r = LoopPanicked \<longleftrightarrow> loop_interval config k = 0"
  "first_poll config k r = Looping r' \<longleftrightarrow> loop_interval config k \<noteq> 0 \<and> r' = r"
  by (auto simp: first_poll_def)

lemma step_well_spawned:
  assumes "process_step P l s s'" "well_spawned s"
  shows "well_spawned s'"
  using assms
proof (cases rule: process_step.cases)
  case (inside l u)
  have "is_looping (pr_loops s k) \<or> at_select k u" for k
  proof (cases "label_loop l = Some k")
    case False
    with step_at_select [OF inside(5) False] assms(2) show ?thesis by (auto simp: well_spawned_def)
  qed (use inside(4) in \<open>simp add: may_step_def\<close>)
  with inside assms(2) show ?thesis by (simp add: well_spawned_def)
next
  case (poll_loop k r)
  have "at_select k (pr_state s)" "\<not> not_started (pr_run s)"
    using assms(2) poll_loop(4) by (force simp: well_spawned_def)+
  with poll_loop assms(2) show ?thesis by (simp add: well_spawned_def)
next
  case (register s1 out now' now err)
  then show ?thesis using assms(2) by (auto simp: well_spawned_def spawn_loops_def)
next
  case (initialise e)
  then show ?thesis using assms(2) by (auto simp: well_spawned_def split: option.splits)
next
  case (run_selects e)
  then obtain r where "pr_run s = RunSelecting r" by (cases "pr_run s") (simp_all add: run_select_def)
  with run_selects assms(2) show ?thesis by (simp add: well_spawned_def)
qed (auto simp: well_spawned_def)

lemma initial_well_spawned: "well_spawned (process_initial d h)"
proof -
  have "at_select k (daemon_initial h)" for k by (cases k) (simp_all add: at_select_def daemon_initial_def)
  then show ?thesis by (simp add: well_spawned_def process_initial_def first_run_pc_def)
qed

section \<open>What the end of a task tells\<close>

fun was_told :: "main_pc \<Rightarrow> bool" where
  "was_told AwaitSignal \<longleftrightarrow> False"
| "was_told (MainReturned r) \<longleftrightarrow> r = Ok ()"
| "was_told _ \<longleftrightarrow> True"

lemma told_by_signal: "process_step P l s s' \<Longrightarrow> was_told (pr_main s') = (was_told (pr_main s) \<or> l = CtrlC)"
  by (cases rule: process_step.cases) (auto simp: spawn_loops_def process_up_def split: if_splits)

lemma run_told:
  "process_run P ls s s' \<Longrightarrow> was_told (pr_main s') = (was_told (pr_main s) \<or> CtrlC \<in> set ls)"
  by (induction rule: process_run.induct) (auto simp: told_by_signal)

lemma initial_told [simp]: "\<not> was_told (pr_main (process_initial d h))"
  by (simp add: process_initial_def)

text \<open>A loop ends because of the shutdown, or panics because of its period; \<open>run\<close> returns for one of
  these reasons or because the start failed.\<close>

definition ends_for_reason :: "('j, 'c, 'r) process \<Rightarrow> bool" where
  "ends_for_reason s \<longleftrightarrow>
     (\<forall>k. (pr_loops s k = LoopEnded \<longrightarrow> was_told (pr_main s))
        \<and> (pr_loops s k = LoopPanicked \<longrightarrow> loop_interval (hd_config (pr_self s)) k = 0))
   \<and> (\<forall>k. pr_run s = RunReturned (Ok (LoopExited k)) \<longrightarrow> handle_ready (pr_loops s k))
   \<and> (pr_run s = RunReturned (Ok ShutdownReceived) \<longrightarrow> was_told (pr_main s))"

context watch
begin

text \<open>Every receiver that is still waited on has heard of the shutdown exactly when it was sent.\<close>

definition in_tune :: "('j, 'c, 'r) process \<Rightarrow> bool" where
  "in_tune s \<longleftrightarrow>
     tuned (was_told (pr_main s)) (hd_shutdown_tx (pr_self s)) (hd_shutdown_rx (pr_self s))
   \<and> (\<forall>k r. pr_loops s k = LoopSpawned r \<or> pr_loops s k = Looping r \<longrightarrow>
        tuned (was_told (pr_main s)) (hd_shutdown_tx (pr_self s)) r)
   \<and> (\<forall>r. pr_run s = RunSelecting r \<longrightarrow> tuned (was_told (pr_main s)) (hd_shutdown_tx (pr_self s)) r)"

lemma waits_as_told:
  "tuned told c r \<Longrightarrow> wait_for_shutdown W c r = (if told then WaitOver else WaitParked)"
  using tuned_changed [of told c r] by (auto simp: wait_for_shutdown_def tuned_borrow split: option.split)

lemma step_in_tune:
  assumes "process_step P l s s'" "pn_watch P = W" "in_tune s"
  shows "in_tune s'"
  using assms
proof (cases rule: process_step.cases)
  case ctrl_c
  then show ?thesis using assms(3) by (auto simp: assms(2) in_tune_def shutdown_def intro: tuned_send)
next
  case (register s1 out now' now err)
  then show ?thesis using assms(3) by (auto simp: assms(2) in_tune_def spawn_loops_def intro: tuned_clone)
next
  case (wait_woken r r')
  then have "tuned (was_told (pr_main s)) (hd_shutdown_tx (pr_self s)) r" using assms(3) by (simp add: in_tune_def)
  with wait_woken assms(2) show ?thesis by (simp add: waits_as_told split: if_splits)
next
  case (daemon_joined)
  then show ?thesis using assms(3) by (simp add: in_tune_def)
next
  case (initialise e)
  then show ?thesis using assms(3) by (auto simp: in_tune_def split: option.splits)
next
  case (poll_loop k r)
  then show ?thesis using assms(3) by (auto simp: in_tune_def split: if_splits)
qed (auto simp: in_tune_def split: if_splits)

lemma run_in_tune: "process_run P ls s s' \<Longrightarrow> pn_watch P = W \<Longrightarrow> in_tune s \<Longrightarrow> in_tune s'"
  by (induction rule: process_run.induct) (use step_in_tune in metis)+

lemma initial_in_tune:
  "wt_channel W False = (hd_shutdown_tx d, hd_shutdown_rx d) \<Longrightarrow> in_tune (process_initial d h)"
  by (simp add: in_tune_def process_initial_def first_run_pc_def tuned_channel)

lemma select_arms:
  assumes "e \<in> set (run_select W s)" "in_tune s"
  shows "case e of LoopExited k \<Rightarrow> handle_ready (pr_loops s k) | ShutdownReceived \<Rightarrow> was_told (pr_main s)"
proof -
  from assms(1) obtain r where r: "pr_run s = RunSelecting r" by (cases "pr_run s") (simp_all add: run_select_def)
  with assms(2) have "tuned (was_told (pr_main s)) (hd_shutdown_tx (pr_self s)) r" by (simp add: in_tune_def)
  with assms(1) r show ?thesis
    by (auto simp: run_select_def waits_as_told split: if_splits)
qed

lemma step_ends_for_reason:
  assumes "process_step P l s s'" "pn_watch P = W" "in_tune s" "ends_for_reason s"
  shows "ends_for_reason s'"
  using assms
proof (cases rule: process_step.cases)
  case (run_selects e)
  then show ?thesis using select_arms [of e s] assms by (auto simp: ends_for_reason_def split: run_event.splits)
next
  case (loop_exit k r r')
  then have "tuned (was_told (pr_main s)) (hd_shutdown_tx (pr_self s)) r" using assms(3) by (simp add: in_tune_def)
  from tuned_changed [OF this] loop_exit(6) have "was_told (pr_main s)" by (simp add: assms(2))
  with loop_exit assms(4) show ?thesis by (simp add: ends_for_reason_def)
next
  case (register s1 out now' now err)
  then show ?thesis using assms(4) by (auto simp: ends_for_reason_def spawn_loops_def)
next
  case (poll_loop k r)
  then show ?thesis using assms(4) by (fastforce simp: ends_for_reason_def)
next
  case (initialise e)
  then show ?thesis using assms(4) by (auto simp: ends_for_reason_def split: option.splits)
qed (auto simp: ends_for_reason_def shutdown_def)

lemma run_ends_for_reason:
  "process_run P ls s s' \<Longrightarrow> pn_watch P = W \<Longrightarrow> in_tune s \<Longrightarrow> ends_for_reason s \<Longrightarrow> ends_for_reason s'"
  by (induction rule: process_run.induct) (use step_in_tune step_ends_for_reason in metis)+

lemma initial_ends_for_reason: "ends_for_reason (process_initial d h)"
  by (simp add: ends_for_reason_def process_initial_def first_run_pc_def)

end

section \<open>Coming to an end\<close>

text \<open>The steps that finish what is under way and begin nothing.\<close>

fun closes :: "'j process_label \<Rightarrow> bool" where
  "closes (Inside l) \<longleftrightarrow> is_runner_step l \<or> is_planner_step l"
| "closes (Initialise e) \<longleftrightarrow> True"
| "closes (Register now out) \<longleftrightarrow> True"
| "closes (FirstPoll k) \<longleftrightarrow> True"
| "closes (LoopExit k) \<longleftrightarrow> True"
| "closes (RunSelects e) \<longleftrightarrow> True"
| "closes DaemonJoined \<longleftrightarrow> True"
| "closes _ \<longleftrightarrow> False"

definition loop_over :: "'r loop_pc \<Rightarrow> bool" where
  "loop_over pc \<longleftrightarrow> handle_ready pc \<or> pc = LoopAbsent"

definition closing_run ::
  "('j, 'c, 'r) process_env \<Rightarrow> ('j, 'c, 'r) process \<Rightarrow> ('j, 'c, 'r) process \<Rightarrow> bool" where
  "closing_run P s u \<longleftrightarrow> (\<exists>ms. process_run P ms s u \<and> list_all closes ms)"

lemma closing_refl: "closing_run P s s"
  unfolding closing_run_def by (rule exI [of _ "[]"]) simp

lemma closing_trans: "closing_run P s u \<Longrightarrow> closing_run P u v \<Longrightarrow> closing_run P s v"
  unfolding closing_run_def using process_run_append by (metis list_all_append)

lemma closing_step: "process_step P l s u \<Longrightarrow> closes l \<Longrightarrow> closing_run P s u"
  unfolding closing_run_def using process_run_one by (intro exI [of _ "[l]"]) simp

lemma runner_label_loop: "is_runner_step l \<Longrightarrow> label_loop l = Some RunnerLoop"
  by (cases l) auto

lemma planner_label_loop: "is_planner_step l \<Longrightarrow> label_loop l = Some PlannerLoop"
  by (cases l) auto

text \<open>A loop whose body is under way can finish it.\<close>

lemma body_ends:
  assumes "process_up s" "is_looping (pr_loops s k)"
  shows "\<exists>u. closing_run P s (s\<lparr>pr_state := u\<rparr>) \<and> at_select k u"
proof -
  let ?D = "process_setup P (pr_self s)"
  have "\<exists>ls u. daemon_run ?D ls (pr_state s) u \<and> list_all (closes \<circ> Inside) ls \<and> list_all (may_step s) ls \<and> at_select k u"
  proof (cases k)
    case HeartbeatLoop
    then show ?thesis by (intro exI [of _ "[]"] exI [of _ "pr_state s"]) (simp add: at_select_def)
  next
    case RunnerLoop
    obtain ls u where "daemon_run ?D ls (pr_state s) u" "list_all is_runner_step ls" "ds_runner u = RunnerIdle"
      using runner_finishes by blast
    with RunnerLoop assms(2) show ?thesis
      by (intro exI [of _ ls] exI [of _ u]) (auto simp: list_all_iff at_select_def may_step_def runner_label_loop)
  next
    case PlannerLoop
    obtain ls u where "daemon_run ?D ls (pr_state s) u" "list_all is_planner_step ls" "ds_planner u = PlannerIdle"
      using planner_finishes by blast
    with PlannerLoop assms(2) show ?thesis
      by (intro exI [of _ ls] exI [of _ u]) (auto simp: list_all_iff at_select_def may_step_def planner_label_loop)
  qed
  then obtain ls u where run: "daemon_run ?D ls (pr_state s) u" "list_all (closes \<circ> Inside) ls"
    "list_all (may_step s) ls" "at_select k u" by blast
  from inside_run [OF run(1) refl refl assms(1)] run(3) have "process_run P (map Inside ls) s (s\<lparr>pr_state := u\<rparr>)"
    by (simp add: list_all_iff)
  with run(2,4) show ?thesis
    by (intro exI [of _ u] conjI) (auto simp: closing_run_def list_all_iff intro!: exI [of _ "map Inside ls"])
qed

context watch
begin

lemma looping_closes:
  assumes "in_tune s" "pn_watch P = W" "was_told (pr_main s)" "process_up s" "pr_loops s k = Looping r"
  shows "\<exists>u. closing_run P s u \<and> pr_loops u = (pr_loops s)(k := LoopEnded) \<and> pr_run u = pr_run s \<and> pr_main u = pr_main s"
proof -
  obtain v where v: "closing_run P s (s\<lparr>pr_state := v\<rparr>)" "at_select k v"
    using body_ends [OF assms(4), of k P] assms(5) by auto
  have "tuned True (hd_shutdown_tx (pr_self s)) r" using assms(1,3,5) by (auto simp: in_tune_def)
  then obtain r' where r': "wt_changed (pn_watch P) (hd_shutdown_tx (pr_self s)) r = Some r'"
    using tuned_ready assms(2) by blast
  let ?u = "(s\<lparr>pr_state := v\<rparr>)\<lparr>pr_loops := (pr_loops (s\<lparr>pr_state := v\<rparr>))(k := LoopEnded)\<rparr>"
  have "process_step P (LoopExit k) (s\<lparr>pr_state := v\<rparr>) ?u"
    by (rule process_step.loop_exit [where r = r and r' = r']) (use assms(4,5) v(2) r' in simp_all)
  from closing_trans [OF v(1) closing_step [OF this]] show ?thesis
    by (intro exI [of _ ?u]) simp
qed

lemma loop_closes:
  assumes "in_tune s" "pn_watch P = W" "was_told (pr_main s)" "process_up s"
  shows "\<exists>u. closing_run P s u \<and> (\<forall>j. loop_over (pr_loops s j) \<or> j = k \<longrightarrow> loop_over (pr_loops u j))
    \<and> pr_run u = pr_run s \<and> pr_main u = pr_main s"
proof (cases "pr_loops s k")
  case (LoopSpawned r)
  let ?s = "s\<lparr>pr_loops := (pr_loops s)(k := first_poll (hd_config (pr_self s)) k r)\<rparr>"
  have poll: "process_step P (FirstPoll k) s ?s" by (rule process_step.poll_loop [OF assms(4) LoopSpawned])
  show ?thesis
  proof (cases "loop_interval (hd_config (pr_self s)) k = 0")
    case True
    with closing_step [OF poll] show ?thesis
      by (intro exI [of _ ?s]) (auto simp: loop_over_def first_poll_def)
  next
    case False
    then have looping: "pr_loops ?s k = Looping r" by simp
    from looping_closes [OF step_in_tune [OF poll assms(2,1)] assms(2) _ _ looping] assms(3,4)
    obtain u where "closing_run P ?s u" "pr_loops u = (pr_loops ?s)(k := LoopEnded)"
      "pr_run u = pr_run ?s" "pr_main u = pr_main ?s" by (auto simp: process_up_def)
    with closing_trans [OF closing_step [OF poll]] show ?thesis
      by (intro exI [of _ u]) (auto simp: loop_over_def)
  qed
next
  case (Looping r)
  from looping_closes [OF assms this] obtain u where "closing_run P s u"
    "pr_loops u = (pr_loops s)(k := LoopEnded)" "pr_run u = pr_run s" "pr_main u = pr_main s" by blast
  then show ?thesis by (intro exI [of _ u]) (simp add: loop_over_def)
qed (auto simp: loop_over_def intro!: exI [of _ s] closing_refl)

lemma loops_close:
  assumes "in_tune s" "pn_watch P = W" "was_told (pr_main s)" "process_up s"
  shows "\<exists>u. closing_run P s u \<and> (\<forall>j. loop_over (pr_loops u j)) \<and> pr_run u = pr_run s \<and> pr_main u = pr_main s"
proof -
  have tune: "in_tune v" if "closing_run P s v" for v
    using that run_in_tune assms(1,2) unfolding closing_run_def by metis
  note close = loop_closes [OF tune assms(2)]
  obtain s1 where s1: "closing_run P s s1" "loop_over (pr_loops s1 HeartbeatLoop)" "pr_run s1 = pr_run s" "pr_main s1 = pr_main s"
    using close [OF closing_refl, of HeartbeatLoop] assms(3,4) by auto
  obtain s2 where s2: "closing_run P s1 s2" "loop_over (pr_loops s2 HeartbeatLoop)" "loop_over (pr_loops s2 RunnerLoop)"
    "pr_run s2 = pr_run s" "pr_main s2 = pr_main s"
    using close [OF s1(1), of RunnerLoop] assms(3,4) s1 by (auto simp: process_up_def)
  obtain s3 where s3: "closing_run P s2 s3" "loop_over (pr_loops s3 HeartbeatLoop)" "loop_over (pr_loops s3 RunnerLoop)"
    "loop_over (pr_loops s3 PlannerLoop)" "pr_run s3 = pr_run s" "pr_main s3 = pr_main s"
    using close [OF closing_trans [OF s1(1) s2(1)], of PlannerLoop] assms(3,4) s2 by (auto simp: process_up_def)
  have "loop_over (pr_loops s3 j)" for j by (cases j) (simp_all add: s3)
  with closing_trans [OF closing_trans [OF s1(1) s2(1)] s3(1)] s3(5,6) show ?thesis by blast
qed

text \<open>The start can be carried through, also after the signal.\<close>

lemma start_closes:
  assumes "process_up s"
  shows "\<exists>u. closing_run P s u \<and> pr_run u \<noteq> RunInitialising \<and> pr_run u \<noteq> RunRegistering \<and> pr_main u = pr_main s"
proof -
  have reg: "\<exists>u. closing_run P v u \<and> pr_run u \<noteq> RunInitialising \<and> pr_run u \<noteq> RunRegistering \<and> pr_main u = pr_main v"
    if "process_up v" "pr_run v = RunRegistering" for v
    using closing_step [OF process_step.register [OF that refl, where out = Committed]]
    by (fastforce simp: spawn_loops_def)
  show ?thesis
  proof (cases "pr_run s")
    case RunInitialising
    let ?v = "s\<lparr>pr_run := RunRegistering\<rparr>"
    have "process_step P (Initialise None) s ?v"
      using process_step.initialise [OF assms RunInitialising, of P None] by simp
    with reg [of ?v] assms show ?thesis
      using closing_trans [OF closing_step] by (fastforce simp: process_up_def)
  qed (use reg assms closing_refl in fastforce)+
qed

lemma process_closes:
  assumes "in_tune s" "pn_watch P = W" "was_told (pr_main s)" "process_up s"
  shows "\<exists>u. closing_run P s u \<and> (\<forall>j. loop_over (pr_loops u j)) \<and> run_returned (pr_run u) \<and> pr_main u = AwaitApi"
proof -
  have tune: "in_tune v" if "closing_run P s v" for v
    using that run_in_tune assms(1,2) unfolding closing_run_def by metis
  obtain s1 where s1: "closing_run P s s1" "pr_run s1 \<noteq> RunInitialising" "pr_run s1 \<noteq> RunRegistering" "pr_main s1 = pr_main s"
    using start_closes [OF assms(4)] by blast
  obtain s2 where s2: "closing_run P s1 s2" "\<forall>j. loop_over (pr_loops s2 j)" "pr_run s2 = pr_run s1" "pr_main s2 = pr_main s"
    using loops_close [OF tune [OF s1(1)] assms(2)] assms(3,4) s1(4) by (auto simp: process_up_def)
  obtain s3 where s3: "closing_run P s2 s3" "\<forall>j. loop_over (pr_loops s3 j)" "run_returned (pr_run s3)" "pr_main s3 = pr_main s"
  proof (cases "pr_run s2")
    case (RunSelecting r)
    have "in_tune s2" using tune closing_trans s1(1) s2(1) by blast
    then have "tuned True (hd_shutdown_tx (pr_self s2)) r" using RunSelecting assms(3) s2(4) by (simp add: in_tune_def)
    then have "ShutdownReceived \<in> set (run_select (pn_watch P) s2)"
      by (simp add: run_select_def RunSelecting assms(2) waits_as_told)
    then have "process_step P (RunSelects ShutdownReceived) s2 (s2\<lparr>pr_run := RunReturned (Ok ShutdownReceived)\<rparr>)"
      using assms(4) s2(4) by (intro process_step.run_selects) (auto simp: process_up_def)
    from that [OF closing_step [OF this]] s2 show ?thesis by simp
  next
    case (RunReturned e)
    from that [OF closing_refl] RunReturned s2(2,4) show ?thesis by simp
  qed (use s1 s2 in simp_all)
  have all: "closing_run P s s3" using closing_trans s1(1) s2(1) s3(1) by blast
  from assms(3,4) have "pr_main s = AwaitDaemon \<or> pr_main s = AwaitApi"
    by (cases "pr_main s") (auto simp: process_up_def)
  then show ?thesis
  proof
    assume "pr_main s = AwaitDaemon"
    then have "process_step P DaemonJoined s3 (s3\<lparr>pr_main := AwaitApi\<rparr>)"
      using s3 by (intro process_step.daemon_joined) auto
    from closing_trans [OF all closing_step [OF this]] s3 show ?thesis
      by (intro exI [of _ "s3\<lparr>pr_main := AwaitApi\<rparr>"]) simp
  qed (use all s3 in auto)
qed

end

end
