(* ===== verification/LifecycleProps.thy ===== *)
theory LifecycleProps
  imports Lifecycle DaemonProps
begin

text \<open>
  Properties of the life of a process, for every interleaving of its tasks: the shutdown reaches every
  loop, nothing ends without a reason, a failed start leaves a process that serves and runs nothing,
  and what the end of a process leaves running is not taken up by the next.
\<close>

section \<open>A start that fails\<close>

definition start_failed :: "('j, 'c, 'r) process \<Rightarrow> bool" where
  "start_failed s \<longleftrightarrow> (\<exists>e. pr_run s = RunReturned (Err e)) \<and> (\<forall>k. pr_loops s k = LoopAbsent)"

lemma step_start_failed:
  assumes "process_step P l s s'" "start_failed s"
  shows "start_failed s'"
  using assms by (cases rule: process_step.cases) (auto simp: start_failed_def run_select_def)

text \<open>A loop steps only when it has been spawned and polled.\<close>

lemma inside_looping:
  assumes "process_step P (Inside l) s s'" "label_loop l = Some k"
  shows "is_looping (pr_loops s k)"
  using assms by (cases rule: process_step.cases) (simp_all add: may_step_def)

lemma absent_until_started:
  assumes "process_step P (Inside l) s s'" "well_spawned s" "not_started (pr_run s)"
  shows "label_loop l = None"
proof (cases "label_loop l")
  case (Some k)
  from inside_looping [OF assms(1) Some] assms(2,3) show ?thesis by (auto simp: well_spawned_def)
qed simp

lemma not_started_backwards:
  assumes "process_step P l s s'" "not_started (pr_run s')"
  shows "not_started (pr_run s)"
  using assms
  by (cases rule: process_step.cases) (auto simp: run_select_def spawn_loops_def split: run_pc.splits option.splits if_splits)

lemma run_not_started:
  assumes "process_run P ls s s'" "well_spawned s" "not_started (pr_run s')"
  shows "not_started (pr_run s) \<and> (\<forall>l. Inside l \<in> set ls \<longrightarrow> label_loop l = None)"
  using assms
proof (induction rule: process_run.induct)
  case (process_cons l s s' ls s'')
  then have later: "not_started (pr_run s')" "\<forall>l. Inside l \<in> set ls \<longrightarrow> label_loop l = None"
    using step_well_spawned by blast+
  with not_started_backwards [OF process_cons.hyps(1)] absent_until_started process_cons.hyps(1) process_cons.prems(1)
  show ?case by auto
qed simp

lemma failed_stays_failed:
  assumes "process_run P ms s s'" "pr_run s = RunReturned (Err e)"
  shows "pr_run s' = RunReturned (Err e)"
proof (rule process_keeps [OF assms(1), where Q = "\<lambda>l. True"])
  fix l u u'
  assume "process_step P l u u'" "pr_run u = RunReturned (Err e)"
  then show "pr_run u' = RunReturned (Err e)"
    by (cases rule: process_step.cases) (auto simp: run_select_def)
qed (use assms(2) in auto)

text \<open>What the server and the network do to a task, and nothing else does.\<close>

lemma outside_step_task:
  assumes "daemon_step D l u u'" "label_loop l = None" "\<not> label_touches i l"
  shows "task_of (ds_hive u') i = task_of (ds_hive u) i"
  using assms
  by (cases rule: daemon_step.cases) (auto simp: task_of_write task_of_untouched simp del: apply_command.simps)

lemma registration_touches [simp]: "\<not> touches_task i (self_registration now d)"
  by (simp add: self_registration_def)

lemma outside_process_step_task:
  assumes "process_step P l s s'" "\<And>k. l = Inside k \<Longrightarrow> label_loop k = None \<and> \<not> label_touches i k"
  shows "task_of (ds_hive (pr_state s')) i = task_of (ds_hive (pr_state s)) i"
  using assms(1)
proof (cases rule: process_step.cases)
  case (inside k u)
  with outside_step_task [OF inside(5)] assms(2) show ?thesis by simp
next
  case (register s1 out now' now err)
  have "task_of (ds_hive (pr_state s1)) i = task_of (ds_hive (pr_state s)) i"
    using register(5) by (simp add: task_of_write del: settle_write.simps)
  with register(2) show ?thesis by (simp add: spawn_loops_def)
qed simp_all

lemma outside_run_task:
  assumes "process_run P ls s s'" "\<forall>k. Inside k \<in> set ls \<longrightarrow> label_loop k = None \<and> \<not> label_touches i k"
  shows "task_of (ds_hive (pr_state s')) i = task_of (ds_hive (pr_state s)) i"
  using assms
proof (induction rule: process_run.induct)
  case (process_cons l s s' ls s'')
  then show ?case using outside_process_step_task [OF process_cons.hyps(1), of i] by auto
qed simp

text \<open>\<open>daemon_start\<close> of \<open>Daemon\<close> is the first steps of \<open>run\<close>.\<close>

lemma register_outcome:
  assumes "process_up v" "pr_run v = RunRegistering"
  shows "\<exists>u. process_run P [Register now out] v u
    \<and> pr_run u = (if out = Committed then RunSelecting (wt_clone (pn_watch P) (hd_shutdown_rx (pr_self v)))
        else RunReturned (Err (DaemonReplicator (WriteFailed err))))
    \<and> pr_main u = pr_main v \<and> pr_serving u = pr_serving v"
  using process_run_one [OF process_step.register [OF assms refl, of P now out _ err]]
  by (fastforce simp: spawn_loops_def)

lemma start_as_steps:
  assumes "daemon_start A now d w = (r, w')"
  shows "\<exists>ls s. process_run P ls (process_initial d h) s
    \<and> pr_run s = (case r of Err e \<Rightarrow> RunReturned (Err e)
        | Ok _ \<Rightarrow> RunSelecting (wt_clone (pn_watch P) (hd_shutdown_rx d)))
    \<and> pr_main s = AwaitSignal \<and> pr_serving s"
proof -
  let ?s = "process_initial d h"
  let ?t = "?s\<lparr>pr_run := RunRegistering\<rparr>"
  have up: "process_up ?s" "process_up ?t" "pr_run ?t = RunRegistering" "pr_self ?t = d"
    "pr_main ?s = AwaitSignal" "pr_main ?t = AwaitSignal" "pr_serving ?s" "pr_serving ?t"
    by (simp_all add: process_up_def process_initial_def)
  let ?start = "if cf_peers (hd_config d) = []
    then st_map_err DaemonReplicator (initialize_single A (hd_raft_id d) w) else (Ok (), w)"
  obtain q w1 where q: "?start = (q, w1)" by (cases ?start)
  show ?thesis
  proof (cases q)
    case (Inl e)
    then have peers: "cf_peers (hd_config d) = []" using q by (auto split: if_splits)
    with q Inl obtain m where m: "e = DaemonReplicator (MembershipFailed m)"
      by (auto simp: initialize_single_def st_map_err_def map_err_eq_Err)
    have "process_run P [Initialise (Some m)] ?s (?s\<lparr>pr_run := RunReturned (Err e)\<rparr>)"
      using process_run_one [OF process_step.initialise [OF up(1), of P "Some m"]] peers m
      by (simp add: process_initial_def first_run_pc_def)
    moreover have "r = Err e" using assms q Inl by (simp add: daemon_start_def)
    ultimately show ?thesis
      by (intro exI [of _ "[Initialise (Some m)]"] exI [of _ "?s\<lparr>pr_run := RunReturned (Err e)\<rparr>"]) (simp add: up)
  next
    case (Inr u)
    have init: "\<exists>ls. process_run P ls ?s ?t"
    proof (cases "cf_peers (hd_config d) = []")
      case True
      then show ?thesis using process_run_one [OF process_step.initialise [OF up(1), of P None]]
        by (intro exI [of _ "[Initialise None]"]) (simp add: process_initial_def first_run_pc_def)
    next
      case False
      then have "?t = ?s" by (simp add: process_initial_def first_run_pc_def)
      then show ?thesis by (intro exI [of _ "[]"]) (simp only: process_run_Nil)
    qed
    then obtain ls where ls: "process_run P ls ?s ?t" ..
    have r: "register_self (raft_replicator A (hd_raft_id d)) now d w1 = (r, w')"
      using assms q Inr by (simp add: daemon_start_def)
    show ?thesis
    proof (cases r)
      case (Inl e)
      then obtain m where "e = DaemonReplicator (WriteFailed m)"
        using r by (auto simp: register_self_def st_map_err_def map_err_eq_Err raft_replicator_def raft_apply_def)
      with register_outcome [OF up(2,3), of P now Refused m] process_run_append [OF ls] Inl up(4,6,8) show ?thesis by fastforce
    next
      case (Inr u)
      with register_outcome [OF up(2,3), of P now Committed "[]"] process_run_append [OF ls] up(4,6,8) show ?thesis by fastforce
    qed
  qed
qed

section \<open>What a process leaves behind\<close>

lemma abandoned_not_run:
  assumes "daemon_run D ls s s'" "abandoned i t s" "tk_status t \<noteq> Pending" "\<forall>l \<in> set ls. \<not> label_touches i l"
  shows "abandoned i t s' \<and> EndProcess i \<notin> set ls"
  using assms
proof (induction rule: daemon_run.induct)
  case (run_cons l s s' ls s'')
  have "l \<noteq> EndProcess i"
    using run_cons.hyps(1) run_cons.prems(1) by (cases rule: daemon_step.cases) (auto simp: abandoned_def)
  with run_cons step_abandoned [OF run_cons.hyps(1), of i t] show ?case by auto
qed simp

text \<open>Processes of a node one after the other, each over the state the one before has left; a process
  may end at any step, by returning or by a crash, and its configuration may be another.\<close>

inductive process_lives ::
  "('j, 'c, 'r) process_env \<Rightarrow> 'j process_label list list \<Rightarrow> 'j HiveState \<Rightarrow> 'j HiveState \<Rightarrow> bool"
  for P :: "('j, 'c, 'r) process_env" where
  lives_nil: "process_lives P [] h h"
| lives_cons: "process_run P ls (process_initial d h) s \<Longrightarrow> process_lives P lss (ds_hive (pr_state s)) h' \<Longrightarrow>
    process_lives P (ls # lss) h h'"

definition untouched_in :: "TaskId \<Rightarrow> 'j process_label list \<Rightarrow> bool" where
  "untouched_in i ls \<longleftrightarrow> (\<forall>l. Inside l \<in> set ls \<longrightarrow> \<not> label_touches i l)"

lemma inner_untouched: "untouched_in i ls \<Longrightarrow> \<forall>l \<in> set (concat (map (inner d) ls)). \<not> label_touches i l"
proof -
  assume "untouched_in i ls"
  then have "\<not> label_touches i l" if "p \<in> set ls" "l \<in> set (inner d p)" for p l
    using that by (cases p) (auto simp: untouched_in_def split: if_splits)
  then show ?thesis by auto
qed

lemma life_abandoned:
  assumes "process_run P ls (process_initial d h) s" "untouched_in i ls"
    and "hive_wf h" "task_of h i = Some t" "tk_status t \<noteq> Pending"
  shows "hive_wf (ds_hive (pr_state s)) \<and> task_of (ds_hive (pr_state s)) i = Some t \<and> Inside (EndProcess i) \<notin> set ls"
proof -
  have start: "abandoned i t (pr_state (process_initial d h))"
    using assms(3,4) by (simp add: abandoned_def process_initial_def daemon_initial_def)
  let ?ks = "concat (map (inner d) ls)"
  have self: "pr_self (process_initial d h) = d" by (simp add: process_initial_def)
  have "abandoned i t (pr_state s) \<and> EndProcess i \<notin> set ?ks"
    by (rule abandoned_not_run [OF process_projects [OF assms(1)] start assms(5), unfolded self, OF inner_untouched [OF assms(2)]])
  moreover have "EndProcess i \<in> set ?ks" if "Inside (EndProcess i) \<in> set ls"
    using that by force
  ultimately show ?thesis by (auto simp: abandoned_def)
qed

section \<open>Why tasks end\<close>

lemma step_zero_interval:
  assumes "process_step P l s s'" "loop_interval (hd_config (pr_self s)) k = 0" "\<not> is_looping (pr_loops s k)"
  shows "\<not> is_looping (pr_loops s' k)"
  using assms by (cases rule: process_step.cases) (auto simp: spawn_loops_def first_poll_def)

lemma run_zero_interval:
  assumes "process_run P ls s s'" "loop_interval (hd_config (pr_self s)) k = 0" "\<not> is_looping (pr_loops s k)"
  shows "\<forall>l. Inside l \<in> set ls \<longrightarrow> label_loop l \<noteq> Some k"
  using assms
proof (induction rule: process_run.induct)
  case (process_cons l s s' ls s'')
  have "loop_interval (hd_config (pr_self s')) k = 0"
    using step_same_node [OF process_cons.hyps(1)] process_cons.prems(1) by (simp add: same_node_def)
  with process_cons step_zero_interval [OF process_cons.hyps(1)] inside_looping show ?case by fastforce
qed simp

lemma main_waits:
  assumes "process_run P ls (process_initial d h) s" "GraceOver \<notin> set ls" "ApiReturns \<notin> set ls"
  shows "pr_serving s \<and> pr_main s \<noteq> MainReturned (Ok ())"
proof (rule process_keeps [OF assms(1), where Q = "\<lambda>l. l \<noteq> GraceOver \<and> l \<noteq> ApiReturns"])
  fix l u u'
  assume "process_step P l u u'" "l \<noteq> GraceOver \<and> l \<noteq> ApiReturns" "pr_serving u \<and> pr_main u \<noteq> MainReturned (Ok ())"
  then show "pr_serving u' \<and> pr_main u' \<noteq> MainReturned (Ok ())"
    by (cases rule: process_step.cases) (auto simp: spawn_loops_def)
qed (use assms(2,3) in \<open>auto simp: process_initial_def\<close>)

section \<open>A process to try things on\<close>

definition demo_process :: "(unit, nat \<times> bool, nat) process_env" where
  "demo_process = \<lparr>pn_watch = counted_watch, pn_json = unit_json, pn_fmt = (\<lambda>t. [])\<rparr>"

definition idle_planner :: "(unit, nat \<times> bool, nat) HiveDaemon" where
  "idle_planner = demo_daemon\<lparr>hd_config := node_config_default\<lparr>cf_planning_interval_secs := 0\<rparr>\<rparr>"

lemma demo_process_simps [simp]:
  "pn_watch demo_process = counted_watch" "process_setup demo_process demo_daemon = demo_setup"
  "wt_channel counted_watch False = ((0, False), 0)" "wt_send counted_watch v (n, u) = (Suc n, v)"
  "wt_clone counted_watch r = r" "wt_borrow counted_watch (n, v) r = v"
  "wt_changed counted_watch (n, v) r = (if r = n then None else Some n)"
  "hd_shutdown_tx demo_daemon = (0, False)" "hd_shutdown_rx demo_daemon = 0"
  "hd_shutdown_tx idle_planner = (0, False)" "hd_shutdown_rx idle_planner = 0"
  "cf_peers (hd_config demo_daemon) = []" "cf_peers (hd_config idle_planner) = []"
  "loop_interval (hd_config idle_planner) PlannerLoop = 0"
  "loop_interval (hd_config demo_daemon) RunnerLoop \<noteq> 0"
  by (simp_all add: demo_process_def counted_watch_def demo_daemon_def idle_planner_def node_config_default_def
      loop_interval_def process_setup_def demo_setup_def)

text \<open>A process after a start that succeeded.\<close>

definition up_process :: "(unit, nat \<times> bool, nat) HiveDaemon \<Rightarrow> unit HiveState \<Rightarrow> (unit, nat \<times> bool, nat) process" where
  "up_process d h = \<lparr>pr_self = d, pr_state = daemon_initial (apply_command 0 (self_registration 0 d) h),
     pr_loops = (\<lambda>k. LoopSpawned 0), pr_run = RunSelecting 0, pr_serving = True, pr_main = AwaitSignal\<rparr>"

lemma up_run:
  assumes "hd_shutdown_rx d = 0" "cf_peers (hd_config d) = []"
  shows "process_run demo_process [Initialise None, Register 0 Committed] (process_initial d h) (up_process d h)"
proof -
  let ?s = "process_initial d h"
  let ?t = "?s\<lparr>pr_run := RunRegistering\<rparr>"
  have "process_step demo_process (Initialise None) ?s ?t"
    using process_step.initialise [of ?s demo_process None] assms
    by (simp add: process_initial_def first_run_pc_def process_up_def)
  moreover have "process_step demo_process (Register 0 Committed) ?t (up_process d h)"
    using process_step.register [OF _ _ refl, of ?t demo_process 0 Committed 0] assms
    by (simp add: process_initial_def process_up_def up_process_def spawn_loops_def daemon_initial_def)
  ultimately show ?thesis by (rule process_cons [OF _ process_run_one])
qed

section \<open>Properties\<close>

text \<open>C16. No shutdown is lost. Whenever the signal has come, be it while \<open>run\<close> is still starting, before a
  loop is spawned, between a loop's spawn and its first poll or in the middle of a tick, and \<open>main\<close>
  has not returned, steps that only finish what is under way lead to a state in which every loop has
  ended, \<open>run\<close> has returned and \<open>main\<close> has joined it.\<close>

theorem shutdown_reaches_every_loop:
  assumes "watch (pn_watch P) attached unseen" "wt_channel (pn_watch P) False = (hd_shutdown_tx d, hd_shutdown_rx d)"
    and "process_run P ls (process_initial d h) s" "CtrlC \<in> set ls" "process_up s"
  shows "\<exists>ms u. process_run P ms s u \<and> list_all closes ms \<and> (\<forall>k. loop_over (pr_loops u k))
    \<and> run_returned (pr_run u) \<and> pr_main u = AwaitApi"
proof -
  have tune: "watch.in_tune (pn_watch P) attached unseen s"
    using watch.run_in_tune [OF assms(1,3) refl watch.initial_in_tune [OF assms(1,2)]] .
  from assms(4) have "was_told (pr_main s)" using run_told [OF assms(3)] by simp
  from watch.process_closes [OF assms(1) tune refl this assms(5)] show ?thesis
    unfolding closing_run_def by blast
qed

theorem shutdown_reaches_every_loop_witness:
  "\<exists>s ms u. process_run demo_process [Initialise None, Register 0 Committed, CtrlC] (process_initial demo_daemon hive_new) s
    \<and> process_run demo_process ms s u \<and> list_all closes ms \<and> loop_over (pr_loops u RunnerLoop)
    \<and> pr_loops s RunnerLoop = LoopSpawned 0 \<and> pr_main u = AwaitApi"
proof -
  let ?s = "(up_process demo_daemon hive_new)\<lparr>pr_self := shutdown counted_watch demo_daemon, pr_main := AwaitDaemon\<rparr>"
  have "process_step demo_process CtrlC (up_process demo_daemon hive_new) ?s"
    using process_step.ctrl_c [of "up_process demo_daemon hive_new" demo_process] by (simp add: up_process_def)
  then have run: "process_run demo_process [Initialise None, Register 0 Committed, CtrlC] (process_initial demo_daemon hive_new) ?s"
    using process_run_append [OF up_run process_run_one] by simp
  have w: "watch (pn_watch demo_process) (\<lambda>(n, v) r. r \<le> n) (\<lambda>(n, v) r. r \<noteq> n)" using counted.watch_axioms by simp
  have "process_up ?s" by (simp add: process_up_def)
  from shutdown_reaches_every_loop [OF w _ run _ this] run show ?thesis
    by (fastforce simp: up_process_def)
qed

text \<open>C17. Nothing ends without a reason. A loop ends only after the signal and panics only when its
  period is zero, in which case it never made a step; \<open>run\<close> reports the shutdown only after the
  signal, and the exit of a loop only after the signal or for a period of zero; and when \<open>main\<close> ends
  well, the signal has come and the grace period is over, unless the server returned.\<close>

theorem tasks_end_for_a_reason:
  assumes "watch (pn_watch P) attached unseen" "wt_channel (pn_watch P) False = (hd_shutdown_tx d, hd_shutdown_rx d)"
    and "process_run P ls (process_initial d h) s"
  shows "(case pr_loops s k of LoopEnded \<Rightarrow> CtrlC \<in> set ls | LoopPanicked \<Rightarrow> loop_interval (hd_config d) k = 0 | _ \<Rightarrow> True)
    \<and> (case pr_run s of RunReturned (Ok ShutdownReceived) \<Rightarrow> CtrlC \<in> set ls
        | RunReturned (Ok (LoopExited j)) \<Rightarrow> CtrlC \<in> set ls \<or> loop_interval (hd_config d) j = 0 | _ \<Rightarrow> True)
    \<and> (pr_main s = MainReturned (Ok ()) \<longrightarrow> CtrlC \<in> set ls \<and> (GraceOver \<in> set ls \<or> ApiReturns \<in> set ls))
    \<and> (loop_interval (hd_config d) k = 0 \<longrightarrow> (\<forall>l. Inside l \<in> set ls \<longrightarrow> label_loop l \<noteq> Some k))"
proof -
  note tune = watch.initial_in_tune [OF assms(1,2), of h]
  have reason: "watch.in_tune (pn_watch P) attached unseen s" "ends_for_reason s"
    using watch.run_ends_for_reason [OF assms(1,3) refl tune watch.initial_ends_for_reason [OF assms(1)]] watch.run_in_tune [OF assms(1,3) refl tune] by simp_all
  have told: "was_told (pr_main s) = (CtrlC \<in> set ls)" using run_told [OF assms(3)] by simp
  have config: "hd_config (pr_self s) = hd_config d"
    using run_same_node [OF assms(3)] by (simp add: same_node_def process_initial_def)
  have never: "loop_interval (hd_config d) k = 0 \<longrightarrow> (\<forall>l. Inside l \<in> set ls \<longrightarrow> label_loop l \<noteq> Some k)"
    using run_zero_interval [OF assms(3), of k] by (simp add: process_initial_def)
  have ended: "pr_main s = MainReturned (Ok ()) \<longrightarrow> GraceOver \<in> set ls \<or> ApiReturns \<in> set ls"
    using main_waits [OF assms(3)] by blast
  have loops: "case pr_loops s k of LoopEnded \<Rightarrow> CtrlC \<in> set ls | LoopPanicked \<Rightarrow> loop_interval (hd_config d) k = 0 | _ \<Rightarrow> True" for k
    using reason(2) by (auto simp: ends_for_reason_def told config split: loop_pc.split)
  have run: "case pr_run s of RunReturned (Ok ShutdownReceived) \<Rightarrow> CtrlC \<in> set ls
      | RunReturned (Ok (LoopExited j)) \<Rightarrow> CtrlC \<in> set ls \<or> loop_interval (hd_config d) j = 0 | _ \<Rightarrow> True"
  proof -
    have "CtrlC \<in> set ls \<or> loop_interval (hd_config d) j = 0" if "handle_ready (pr_loops s j)" for j
      using loops [of j] that by (cases "pr_loops s j") simp_all
    then show ?thesis
      using reason(2) by (auto simp: ends_for_reason_def told split: run_pc.split sum.split run_event.split)
  qed
  have "was_told (pr_main s)" if "pr_main s = MainReturned (Ok ())" using that by simp
  with loops run never ended told show ?thesis by blast
qed

theorem tasks_end_for_a_reason_witness:
  "\<exists>s. process_run demo_process [Initialise None, Register 0 Committed, FirstPoll PlannerLoop, RunSelects (LoopExited PlannerLoop)]
      (process_initial idle_planner hive_new) s
    \<and> pr_run s = RunReturned (Ok (LoopExited PlannerLoop)) \<and> pr_loops s PlannerLoop = LoopPanicked \<and> process_up s
    \<and> loop_interval (hd_config idle_planner) PlannerLoop = 0"
proof -
  let ?s = "up_process idle_planner hive_new"
  let ?t = "?s\<lparr>pr_loops := (pr_loops ?s)(PlannerLoop := LoopPanicked)\<rparr>"
  let ?u = "?t\<lparr>pr_run := RunReturned (Ok (LoopExited PlannerLoop))\<rparr>"
  have "process_step demo_process (FirstPoll PlannerLoop) ?s ?t"
    using process_step.poll_loop [of ?s PlannerLoop 0 demo_process] by (simp add: up_process_def process_up_def first_poll_def)
  moreover have "process_step demo_process (RunSelects (LoopExited PlannerLoop)) ?t ?u"
    using process_step.run_selects [of ?t "LoopExited PlannerLoop" demo_process]
    by (simp add: up_process_def process_up_def run_select_def)
  ultimately have run: "process_run demo_process [Initialise None, Register 0 Committed, FirstPoll PlannerLoop,
      RunSelects (LoopExited PlannerLoop)] (process_initial idle_planner hive_new) ?u"
    using process_run_append [OF up_run process_cons [OF _ process_run_one]] by simp
  have w: "watch (pn_watch demo_process) (\<lambda>(n, v) r. r \<le> n) (\<lambda>(n, v) r. r \<noteq> n)" using counted.watch_axioms by simp
  from tasks_end_for_a_reason [OF w _ run, of PlannerLoop] run show ?thesis
    by (intro exI [of _ ?u]) (simp add: up_process_def process_up_def)
qed

text \<open>C18. A daemon whose start fails goes on serving and runs nothing. Once \<open>run\<close> has returned an error,
  for instance because a single node starts again on a cluster it has initialised before, no loop
  makes a step, before or after: a task changes only when a client or another node writes it, and a
  task submitted to this process stays as it was submitted.\<close>

theorem failed_start_runs_nothing:
  assumes "process_run P ls (process_initial d h) s" "pr_run s = RunReturned (Err e)" "process_run P ms s s'"
  shows "(\<forall>l. Inside l \<in> set (ls @ ms) \<longrightarrow> label_loop l = None)
    \<and> (untouched_in i ms \<longrightarrow> task_of (ds_hive (pr_state s')) i = task_of (ds_hive (pr_state s)) i)"
proof -
  have "not_started (pr_run s')" using failed_stays_failed [OF assms(3,2)] by simp
  from run_not_started [OF process_run_append [OF assms(1,3)] initial_well_spawned this]
  have none: "\<forall>l. Inside l \<in> set (ls @ ms) \<longrightarrow> label_loop l = None" by blast
  moreover have "task_of (ds_hive (pr_state s')) i = task_of (ds_hive (pr_state s)) i" if "untouched_in i ms"
    using outside_run_task [OF assms(3), of i] none that by (simp add: untouched_in_def)
  ultimately show ?thesis by blast
qed

theorem failed_start_runs_nothing_witness:
  "\<exists>ls s s' task. daemon_start solo_raft 7 demo_daemon (solo_world hive_new)
        = (Err (DaemonReplicator (MembershipFailed ''not allowed'')), solo_world hive_new)
    \<and> process_run demo_process (ls @ [Inside (SubmitTask task Committed)]) (process_initial demo_daemon hive_new) s
    \<and> pr_run s = RunReturned (Err (DaemonReplicator (MembershipFailed ''not allowed'')))
    \<and> process_run demo_process [CtrlC] s s'
    \<and> task_of (ds_hive (pr_state s')) (tk_id task) = Some (forget_updated task) \<and> tk_status task = Pending"
proof -
  have start: "daemon_start solo_raft 7 demo_daemon (solo_world hive_new)
      = (Err (DaemonReplicator (MembershipFailed ''not allowed'')), solo_world hive_new)"
    by (rule restart_refused) (simp_all add: solo_world_def)
  from start_as_steps [OF this, of demo_process hive_new] obtain ls s where
    s: "process_run demo_process ls (process_initial demo_daemon hive_new) s"
      "pr_run s = RunReturned (Err (DaemonReplicator (MembershipFailed ''not allowed'')))"
      "pr_main s = AwaitSignal" "pr_serving s" by auto
  let ?task = "submitted_task ''a'' 1 1 \<lparr>sq_target_node = ''node-1'', sq_payload = Echo ''hi'', sq_priority = None\<rparr>"
  let ?u = "s\<lparr>pr_state := (pr_state s)\<lparr>ds_hive := apply_command 2 (PutTask ?task) (ds_hive (pr_state s))\<rparr>\<rparr>"
  have "process_step demo_process (Inside (SubmitTask ?task Committed)) s ?u"
    using daemon_step.submit_task [OF refl, of "process_setup demo_process (pr_self s)" "''a''" 1 1 _ Committed "pr_state s" 2] s(3,4)
    by (intro process_step.inside) (auto simp: process_up_def may_step_def simp del: apply_command.simps)
  from process_run_append [OF s(1) process_run_one [OF this]]
  have submitted: "process_run demo_process (ls @ [Inside (SubmitTask ?task Committed)]) (process_initial demo_daemon hive_new) ?u" .
  have u: "pr_run ?u = RunReturned (Err (DaemonReplicator (MembershipFailed ''not allowed'')))" using s(2) by simp
  have "task_of (ds_hive (pr_state ?u)) ''a'' = Some (forget_updated ?task)"
    by (simp add: task_of_apply submitted_task_def del: apply_command.simps)
  moreover have stop: "process_run demo_process [CtrlC] ?u (?u\<lparr>pr_self := shutdown counted_watch (pr_self ?u), pr_main := AwaitDaemon\<rparr>)"
    using process_run_one [OF process_step.ctrl_c, of ?u demo_process] s(3) by simp
  ultimately show ?thesis
    using failed_start_runs_nothing [OF submitted u stop, of "''a''"] start submitted u
    by (intro exI conjI) (assumption | simp add: untouched_in_def submitted_task_def)+
qed

text \<open>C19. What a process leaves running stays running. A task that is not pending when a process starts,
  such as one the last process was running when it was stopped, is run by none of the processes that
  follow and keeps its status through all of them, unless a client or another node writes it.\<close>

theorem interrupted_task_is_never_resumed:
  assumes "process_lives P lss h h'" "hive_wf h" "task_of h i = Some t" "tk_status t \<noteq> Pending"
    and "\<forall>ls \<in> set lss. untouched_in i ls"
  shows "task_of h' i = Some t \<and> (\<forall>ls \<in> set lss. Inside (EndProcess i) \<notin> set ls)"
  using assms
proof (induction rule: process_lives.induct)
  case (lives_cons ls d h s lss h')
  from life_abandoned [OF lives_cons.hyps(1)] lives_cons show ?case by auto
qed simp

lemma demo_begin:
  assumes "ds_runner u = RunnerIdle" "my_pending ''node-1'' (to_cluster_view None 0 (ds_hive u)) = [waiting_task]"
  shows "daemon_run demo_setup [RunnerTick, StartTask ''a'' Committed] u
    (u\<lparr>ds_hive := apply_command 0 (UpdateTaskStatus ''a'' Running None) (ds_hive u), ds_runner := RunnerStarted waiting_task []\<rparr>)"
proof -
  have "daemon_step demo_setup RunnerTick u (u\<lparr>ds_runner := RunnerReady [waiting_task]\<rparr>)"
    using daemon_step.runner_tick [OF assms(1), of demo_setup None 0] assms(2) by (simp add: demo_setup_def)
  moreover have "daemon_step demo_setup (StartTask ''a'' Committed) (u\<lparr>ds_runner := RunnerReady [waiting_task]\<rparr>)
      (u\<lparr>ds_hive := apply_command 0 (UpdateTaskStatus ''a'' Running None) (ds_hive u), ds_runner := RunnerStarted waiting_task []\<rparr>)"
    using daemon_step.start_task [of "u\<lparr>ds_runner := RunnerReady [waiting_task]\<rparr>" waiting_task "[]" demo_setup Committed 0]
    by (simp del: apply_command.simps)
  ultimately show ?thesis by (rule run_cons [OF _ run_cons [OF _ run_nil]])
qed

theorem interrupted_task_is_never_resumed_witness:
  "\<exists>s h'. process_run demo_process ([Initialise None, Register 0 Committed, FirstPoll RunnerLoop]
        @ map Inside [RunnerTick, StartTask ''a'' Committed]
        @ [CtrlC, RunSelects ShutdownReceived, DaemonJoined, GraceOver])
      (process_initial demo_daemon (live_hive [waiting_task])) s
    \<and> pr_main s = MainReturned (Ok ())
    \<and> process_lives demo_process [[Initialise None, Register 0 Committed], [Initialise (Some ''not allowed'')]] (ds_hive (pr_state s)) h'
    \<and> map_option tk_status (task_of h' ''a'') = Some Running"
proof -
  let ?s = "up_process demo_daemon (live_hive [waiting_task])"
  let ?t = "?s\<lparr>pr_loops := (pr_loops ?s)(RunnerLoop := Looping 0)\<rparr>"
  let ?v = "(pr_state ?t)\<lparr>ds_hive := apply_command 0 (UpdateTaskStatus ''a'' Running None) (ds_hive (pr_state ?t)),
    ds_runner := RunnerStarted waiting_task []\<rparr>"
  let ?u = "?t\<lparr>pr_state := ?v\<rparr>"
  let ?a = "?u\<lparr>pr_self := shutdown counted_watch (pr_self ?u), pr_main := AwaitDaemon\<rparr>"
  let ?b = "?a\<lparr>pr_run := RunReturned (Ok ShutdownReceived)\<rparr>"
  let ?e = "?b\<lparr>pr_main := MainReturned (Ok ())\<rparr>"
  have poll: "process_step demo_process (FirstPoll RunnerLoop) ?s ?t"
    using process_step.poll_loop [of ?s RunnerLoop 0 demo_process]
    by (simp add: up_process_def process_up_def first_poll_def)
  have "my_pending ''node-1'' (to_cluster_view None 0 (ds_hive (pr_state ?t))) = [waiting_task]"
    by (simp add: up_process_def daemon_initial_def self_registration_def my_pending_def live_hive_def hm_values_def waiting_task_def demo_task_def)
  then have "daemon_run demo_setup [RunnerTick, StartTask ''a'' Committed] (pr_state ?t) ?v"
    by (intro demo_begin) (simp_all add: up_process_def daemon_initial_def del: apply_command.simps)
  then have inside: "process_run demo_process (map Inside [RunnerTick, StartTask ''a'' Committed]) ?t ?u"
    by (rule inside_run) (simp_all add: up_process_def process_up_def may_step_def del: apply_command.simps)
  have signal: "process_step demo_process CtrlC ?u ?a"
    using process_step.ctrl_c [of ?u demo_process] by (simp add: up_process_def del: apply_command.simps)
  have "ShutdownReceived \<in> set (run_select (pn_watch demo_process) ?a)"
    by (simp add: run_select_def up_process_def shutdown_def wait_for_shutdown_def del: apply_command.simps)
  then have select: "process_step demo_process (RunSelects ShutdownReceived) ?a ?b"
    by (intro process_step.run_selects) (simp_all add: process_up_def del: apply_command.simps)
  have join: "process_step demo_process DaemonJoined ?b (?b\<lparr>pr_main := AwaitApi\<rparr>)"
    by (rule process_step.daemon_joined) (simp_all del: apply_command.simps)
  have over: "process_step demo_process GraceOver (?b\<lparr>pr_main := AwaitApi\<rparr>) ?e"
    using process_step.grace_over [of "?b\<lparr>pr_main := AwaitApi\<rparr>" demo_process] by (simp del: apply_command.simps)
  have "process_run demo_process [CtrlC, RunSelects ShutdownReceived, DaemonJoined, GraceOver] ?u ?e"
    by (rule process_cons [OF signal process_cons [OF select process_cons [OF join process_run_one [OF over]]]])
  from process_run_append [OF process_run_append [OF up_run process_run_one [OF poll]] process_run_append [OF inside this]]
  have life: "process_run demo_process ([Initialise None, Register 0 Committed, FirstPoll RunnerLoop]
        @ map Inside [RunnerTick, StartTask ''a'' Committed]
        @ [CtrlC, RunSelects ShutdownReceived, DaemonJoined, GraceOver])
      (process_initial demo_daemon (live_hive [waiting_task])) ?e"
    by simp
  let ?h = "ds_hive (pr_state ?e)"
  let ?h2 = "ds_hive (pr_state (up_process demo_daemon ?h))"
  let ?f = "process_initial demo_daemon ?h2"
  let ?g = "?f\<lparr>pr_run := RunReturned (Err (DaemonReplicator (MembershipFailed ''not allowed'')))\<rparr>"
  have "process_step demo_process (Initialise (Some ''not allowed'')) ?f ?g"
    using process_step.initialise [of ?f demo_process "Some ''not allowed''"]
    by (simp add: process_initial_def process_up_def first_run_pc_def del: apply_command.simps)
  from lives_cons [OF process_run_one [OF this] lives_nil]
  have second: "process_lives demo_process [[Initialise (Some ''not allowed'')]] ?h2 ?h2"
    by (simp add: process_initial_def daemon_initial_def del: apply_command.simps)
  have lives: "process_lives demo_process [[Initialise None, Register 0 Committed], [Initialise (Some ''not allowed'')]] ?h ?h2"
    by (rule lives_cons [OF up_run second]) simp_all
  have t: "task_of ?h ''a'' = Some ((forget_updated waiting_task)\<lparr>tk_status := Running, tk_result := None\<rparr>)"
    by (simp add: up_process_def daemon_initial_def task_of_apply waiting_tasks self_registration_def del: apply_command.simps)
  have "hive_wf ?h"
    by (simp add: up_process_def daemon_initial_def hive_wf_apply live_hive_wf del: apply_command.simps)
  from interrupted_task_is_never_resumed [OF lives this t] life lives show ?thesis
    by (intro exI [of _ ?e] exI [of _ ?h2]) (simp add: untouched_in_def del: apply_command.simps)
qed

end
