(* ===== verification/Spec2Isabelle.thy ===== *)
theory Spec2Isabelle
  imports EntryPoint Tls Busy Replicas ClusterProps LifecycleProps
begin

text \<open>
  FlockMind: a daemon that runs on every node of a cluster and keeps the nodes, tasks, goals and
  attachments in a state replicated by Raft. A language model proposes actions for the goals, a
  policy decides which may be carried out, and each node runs the tasks it is given. The sources
  are under \<open>src/src\<close>; this library has one theory, or two, for each of their parts.

  \<^bold>\<open>The parts and how they interact.\<close>

  \<^item> \<open>types.rs\<close> - \<open>HiveTypes\<close>: every struct as a record, every enum as a datatype with the code's
    constructors, the queries of a cluster view. Fields carry a prefix of two letters.
  \<^item> \<open>replicator/state_machine.rs\<close> - \<open>HiveState\<close>: the tables of the replicated state, the commands
    and their effect (\<open>apply_command\<close>); \<open>logged_task\<close> and its like read each entry off the log.
  \<^item> \<open>replicator/storage.rs\<close> - \<open>SledStore\<close>: the Raft storage over the key-value store, every
    operation with its error paths; \<open>SledRefines\<close>: the reference tree and the abstract log it
    implements; \<open>SledProps\<close>: batches, restarts, snapshots, crashes one at a time; \<open>StoreLife\<close>: all of
    them in any order, refined to an abstract store that never stops; \<open>Replicas\<close>: the stores of all
    nodes under one log, with the snapshots they build in two readings and send each other.
  \<^item> \<open>replicator/mod.rs\<close>, \<open>raft_node.rs\<close> - \<open>Replicator\<close> (the contract of the trait, \<open>evolves\<close>)
    and \<open>RaftNode\<close> (the implementation over openraft); \<open>network.rs\<close>, \<open>raft_api.rs\<close> - \<open>RaftApi\<close>.
  \<^item> \<open>executor/validator.rs\<close> - \<open>Validator\<close>, \<open>executor/runner.rs\<close> - \<open>Runner\<close>, \<open>executor/mod.rs\<close> -
    \<open>HiveExec\<close> and \<open>ExecProps\<close>: an action is validated on a snapshot and becomes commands, a task is
    marked as running, run, and marked with its outcome; \<open>Busy\<close>: an action carried out while others write.
  \<^item> \<open>brain/tracker.rs\<close> - \<open>Tracker\<close> with \<open>F32\<close> for its one computation in 32-bit floats,
    \<open>brain/planner.rs\<close> and \<open>llm_client.rs\<close> - \<open>Planner\<close>, over the JSON interface of \<open>Json\<close>, with the text
    of the system prompt in \<open>Prompt\<close>.
  \<^item> \<open>attachments.rs\<close> - \<open>Attachments\<close>; \<open>auth/certs.rs\<close> - \<open>Certs\<close> and \<open>Tls\<close>; \<open>auth/enrollment.rs\<close> -
    \<open>Enrollment\<close>; \<open>config.rs\<close> and the command init of \<open>main.rs\<close> - \<open>Config\<close>; \<open>api.rs\<close> and the
    client \<open>bin/flockctl.rs\<close> - \<open>Api\<close>; the commands of \<open>main.rs\<close> up to where the process waits -
    \<open>EntryPoint\<close>.
  \<^item> \<open>daemon.rs\<close> - \<open>Daemon\<close> and \<open>DaemonProps\<close>: construction, start and one tick of each loop as
    a function; \<open>Interleaving\<close> and \<open>InterleavingProps\<close>: the same loops as a step relation in which
    they interleave with the API and the other nodes; \<open>Cluster\<close> and \<open>ClusterProps\<close>: one such machine
    for each node over the log Raft gives them, with the leader that alone can write; \<open>Lifecycle\<close> and \<open>LifecycleProps\<close>: the process of a
    node, \<open>run_daemon\<close> of \<open>main.rs\<close> and \<open>run\<close> with its loops as tasks around that machine, from the
    spawn of the server to the end, and processes one after the other; \<open>Watch\<close>: the channel by which
    the end is announced.
  \<^item> \<open>Prelude\<close> holds results and the interface of hash maps, \<open>RustStd\<close> the functions of the Rust
    library the sources call.

  \<^bold>\<open>Conventions.\<close> A \<open>Result\<close> is a sum, \<open>Err\<close> on the left; each \<open>anyhow!\<close> is a constructor of an
  error type with its text beside it. A \<open>HashMap\<close> is a list of pairs with distinct keys, so that
  listings have an order, and theorems hold for every order. Integers of the code are words of
  their width and wrap as in a release build. What reads a clock, makes an identifier or calls
  outside takes the answer as an argument, in the order of the calls. A stateful call returns the
  world after it.

  \<^bold>\<open>Parameters.\<close> Code that is not under \<open>src/src\<close> is an argument: openraft (\<open>raft_api\<close>), the sled tree and
  the codecs (\<open>tree_api\<close>, \<open>storage_codec\<close>), processes and files (\<open>os_api\<close>), the model's service and JSON texts
  (\<open>planner_env\<close>, \<open>json_api\<close>), the watch channel of tokio (\<open>watch_api\<close>), the cryptographic libraries,
  TOML and HTTP. What the code relies on
  are the laws of the locales, each interpreted on a concrete instance: the hash maps of \<open>Prelude\<close>
  on \<open>hmap\<close>, the tree on a sorted association list, openraft on a cluster of one node
  (\<open>solo_raft\<close>), the contract of the replicator on the model of \<open>raft_node.rs\<close> and on the scripted
  \<open>busy_replicator\<close>. What rustls accepts is assumed in one direction only: a connection needs a path
  of certificates to a root of each side.

  \<^bold>\<open>What is shown.\<close> The tables stay keyed and hold what can be read off the log, and replicas that
  apply the same commands agree up to their clocks. The stored log implements a map from indices to
  entries; reads, truncations and purges are exact, but for the largest index as a bound; through any
  life of restarts, snapshots, votes, batches and crashes the store is an abstract store without trees
  or restarts, which loses the commands of an interrupted batch and nothing else. Without such a crash,
  and as long as no store applies entries while it builds a snapshot, the stores of a cluster agree,
  however the log reaches them; when a build is overtaken they need not.
  The validator accepts exactly what the policy, read declaratively, admits; \<open>execute\<close> is given exactly,
  alone and under every interference: the verdict is that of the snapshot, and the commands take effect
  on whatever the state is by then. The tracker bounds its history, counts failures and outcomes, and
  its percentage is right up to rounding. The planner proposes safe actions only, reads back the formats
  of its prompt, and stays within the policy. One tick of the runner, when its writes succeed and nobody
  else writes, runs the payload of each pending task and records that outcome. A token admits one node, and
  TLS connects nodes of the cluster only. In every interleaving one task runs at a time, ticks end, and
  the ticks of \<open>Daemon\<close> are runs of the machine. In every run of the cluster the nodes agree, a policy or a
  request stands behind every payload, a task runs at most once for each time it is made pending and
  only where it was pending, a leader can always bring its pending tasks to their end, and a node that
  never leads runs nothing.
  In every run of a process the shutdown reaches every loop, wherever it is, and nothing ends without
  a reason.
  Where the code falls short, a theorem says how: failed actions bar similar ones for ever, a task
  cancelled after it was picked is run, one moved then is run twice, one left running by a shutdown is
  never resumed, one on a follower is never run, a crash inside a batch loses its commands, a snapshot
  that is overtaken drops them, a daemon whose start fails serves and runs nothing, string prefixes do
  not stop \<open>..\<close>, tasks over HTTP bypass the policy.

  \<^bold>\<open>Termination.\<close> All loops are structural or have a measure, there is no fuel. A tick of the runner or
  planner is bounded in the step relation by three steps for each task or action (\<open>runner_work\<close>,
  \<open>planner_work\<close>).

  \<^bold>\<open>Not modelled.\<close> The grammar of the arguments (clap), logging, the clocks behind timers (a timer may
  fire at any time), \<open>create_storage\<close> and the receive buffer of a snapshot (the adaptor of openraft),
  HTTP transport, the derived serialisers, and panics other than that of a zero period. The lock of
  \<open>SharedState\<close> makes each of its methods one step on \<open>HiveState\<close>. A crash leaves the trees as they
  are at that point, flushed or not.
\<close>

end
